(* ===== verification/GoBase.thy ===== *)
theory GoBase
  imports Main "HOL-Library.Word" "HOL-Library.AList"
begin

text \<open>
  What the components share: Go's fixed-width integers, its clock types, and the generic
  facts on lists and association lists that the component proofs use.

  A \<^verbatim>\<open>time.Duration\<close> is a signed 64-bit count of nanoseconds: it is an \<open>int\<close> here, and
  every operation of the source that could leave the range writes the wrap-around
  (\<open>wrap64\<close>) or the saturation (\<open>sat64\<close>) out. A \<^verbatim>\<open>time.Time\<close> is the
  \<open>int\<close> number of nanoseconds since the process started, on the monotonic clock.
  Atomic unsigned counters are \<open>64 word\<close>.
\<close>

section \<open>Machine integers and clock types\<close>

type_synonym duration = int
type_synonym instant = int
type_synonym u64 = "64 word"

definition max_int64 :: int where
  "max_int64 = 9223372036854775807"

definition min_int64 :: int where
  "min_int64 = - 9223372036854775808"

definition wrap64 :: "int \<Rightarrow> int" where
  "wrap64 x = (x + 9223372036854775808) mod 18446744073709551616 - 9223372036854775808"

definition sat64 :: "int \<Rightarrow> int" where
  "sat64 x = (if x < min_int64 then min_int64 else if max_int64 < x then max_int64 else x)"

text \<open>Go's integer division truncates towards zero.\<close>

definition quot64 :: "int \<Rightarrow> int \<Rightarrow> int" where
  "quot64 a b = sgn a * sgn b * (\<bar>a\<bar> div \<bar>b\<bar>)"

definition millisecond :: duration where
  "millisecond = 1000000"

definition second :: duration where
  "second = 1000000000"

lemma wrap64_id: "min_int64 \<le> x \<Longrightarrow> x \<le> max_int64 \<Longrightarrow> wrap64 x = x"
  by (simp add: wrap64_def min_int64_def max_int64_def)

lemma sat64_id: "min_int64 \<le> x \<Longrightarrow> x \<le> max_int64 \<Longrightarrow> sat64 x = x"
  by (simp add: sat64_def)

lemma sat64_mono: "x \<le> y \<Longrightarrow> sat64 x \<le> sat64 y"
  by (auto simp: sat64_def min_int64_def max_int64_def)

lemma quot64_two: "0 \<le> a \<Longrightarrow> quot64 a 2 = a div 2"
  by (cases "a = 0") (simp_all add: quot64_def)

section \<open>Collections of facts\<close>

named_theorems inv_simps \<open>the conjuncts of the invariant of a route\<close>

named_theorems frame_simps \<open>the views of the state that a step is shown to leave\<close>

section \<open>Lists\<close>

text \<open>
  The first element with the least key, as a left-to-right scan with a strict comparison
  finds it: the shape of every selection loop of the program.
\<close>

fun argmin_from :: "('a \<Rightarrow> 'b::linorder) \<Rightarrow> 'a \<Rightarrow> 'a list \<Rightarrow> 'a" where
  "argmin_from f c [] = c"
| "argmin_from f c (x # xs) = argmin_from f (if f x < f c then x else c) xs"

lemma argmin_from_mem: "argmin_from f c xs \<in> set (c # xs)"
proof (induction xs arbitrary: c)
  case Nil
  then show ?case by simp
next
  case (Cons x xs)
  then show ?case using Cons.IH [of "if f x < f c then x else c"] by (auto split: if_splits)
qed

lemma argmin_from_le_start: "f (argmin_from f c xs) \<le> f c"
proof (induction xs arbitrary: c)
  case Nil
  then show ?case by simp
next
  case (Cons x xs)
  have "f (argmin_from f (if f x < f c then x else c) xs) \<le> f (if f x < f c then x else c)"
    by (rule Cons.IH)
  also have "\<dots> \<le> f c" by (cases "f x < f c") auto
  finally show ?case by simp
qed

lemma argmin_from_le: "y \<in> set (c # xs) \<Longrightarrow> f (argmin_from f c xs) \<le> f y"
proof (induction xs arbitrary: c)
  case Nil
  then show ?case by simp
next
  case (Cons x xs)
  show ?case
  proof (cases "y \<in> set xs")
    case True
    then show ?thesis using Cons.IH [of "if f x < f c then x else c"] by simp
  next
    case False
    with Cons.prems have "y = c \<or> y = x" by auto
    moreover have "f (if f x < f c then x else c) \<le> f c"
      and "f (if f x < f c then x else c) \<le> f x" by auto
    ultimately show ?thesis
      using argmin_from_le_start [of f "if f x < f c then x else c" xs] by auto
  qed
qed

text \<open>First-seen order breaks ties: everything before the chosen element has a larger key.\<close>

lemma argmin_from_first:
  "\<exists>pre post. c # xs = pre @ argmin_from f c xs # post \<and>
     (\<forall>y \<in> set pre. f (argmin_from f c xs) < f y)"
proof (induction xs arbitrary: c)
  case Nil
  then show ?case by (intro exI [of _ "[]"]) simp
next
  case (Cons x xs)
  show ?case
  proof (cases "f x < f c")
    case True
    obtain pre post where eq: "x # xs = pre @ argmin_from f x xs # post"
      and lt: "\<forall>y \<in> set pre. f (argmin_from f x xs) < f y"
      using Cons.IH by blast
    have "f (argmin_from f x xs) < f c"
      using True argmin_from_le_start [of f x xs] by simp
    then have lt': "\<forall>y \<in> set (c # pre). f (argmin_from f x xs) < f y" using lt by simp
    have am: "argmin_from f c (x # xs) = argmin_from f x xs" using True by simp
    show ?thesis
      unfolding am by (intro exI [of _ "c # pre"] exI [of _ post] conjI lt') (simp add: eq)
  next
    case False
    define m where "m = argmin_from f c xs"
    have am: "argmin_from f c (x # xs) = m" using False by (simp add: m_def)
    obtain pre post where eq: "c # xs = pre @ m # post" and lt: "\<forall>y \<in> set pre. f m < f y"
      using Cons.IH unfolding m_def by blast
    show ?thesis
    proof (cases pre)
      case Nil
      with eq have "m = c" by simp
      then show ?thesis unfolding am by (intro exI [of _ "[]"] exI [of _ "x # xs"]) simp
    next
      case (Cons z pre')
      with eq have z: "z = c" "xs = pre' @ m # post" by auto
      from lt Cons have "f m < f c" by (simp add: z)
      with False lt Cons z have lt': "\<forall>y \<in> set (c # x # pre'). f m < f y" by auto
      show ?thesis
        unfolding am
        by (intro exI [of _ "c # x # pre'"] exI [of _ post] conjI lt') (simp add: z)
    qed
  qed
qed

lemma argmin_from_cong:
  "(\<And>y. y \<in> set (c # xs) \<Longrightarrow> f y = g y) \<Longrightarrow> argmin_from f c xs = argmin_from g c xs"
  by (induction xs arbitrary: c) auto

lemma drop_take_While_sep:
  "\<forall>x \<in> set xs. P x \<Longrightarrow> \<not> P y \<Longrightarrow>
     dropWhile P (xs @ y # ys) = y # ys \<and> takeWhile P (xs @ y # ys) = xs"
  by (induction xs) auto

lemma distinct_length_le_card: "distinct xs \<Longrightarrow> set xs \<subseteq> set ys \<Longrightarrow> length xs \<le> length ys"
  by (metis card_length card_mono distinct_card finite_set le_trans)

section \<open>Association lists\<close>

text \<open>A Go map whose size the code reads is an association list with distinct keys.\<close>

definition keys :: "('k \<times> 'v) list \<Rightarrow> 'k list" where
  "keys m = map fst m"

lemma keys_simps [simp]: "keys [] = []" "keys ((k, v) # m) = k # keys m"
  by (simp_all add: keys_def)

lemma length_keys [simp]: "length (keys m) = length m"
  by (simp add: keys_def)

lemma set_keys: "set (keys m) = dom (map_of m)"
  by (simp add: keys_def dom_map_of_conv_image_fst)

lemma keys_update: "keys (AList.update k v m) = (if k \<in> set (keys m) then keys m else keys m @ [k])"
  by (simp add: keys_def update_keys)

lemma distinct_keys_update: "distinct (keys m) \<Longrightarrow> distinct (keys (AList.update k v m))"
  by (simp add: keys_def distinct_update)

lemma distinct_keys_delete: "distinct (keys m) \<Longrightarrow> distinct (keys (AList.delete k m))"
  by (simp add: keys_def distinct_delete)

lemma length_update:
  "length (AList.update k v m) = (if k \<in> set (keys m) then length m else Suc (length m))"
  by (metis keys_update length_append_singleton length_keys)

lemma length_delete:
  "distinct (keys m) \<Longrightarrow> length (AList.delete k m) = (if k \<in> set (keys m) then length m - 1 else length m)"
proof (induction m)
  case Nil
  then show ?case by simp
next
  case (Cons kv m)
  obtain k' v' where kv: "kv = (k', v')" by (cases kv)
  from Cons.prems kv have d: "distinct (keys m)" "k' \<notin> set (keys m)" by auto
  show ?case
  proof (cases "k = k'")
    case True
    with d have "AList.delete k m = m" by (simp add: keys_def delete_idem)
    with True kv show ?thesis by simp
  next
    case False
    show ?thesis
    proof (cases "k \<in> set (keys m)")
      case True
      then have "0 < length m" by (cases m) auto
      with True False Cons.IH [OF d(1)] kv show ?thesis by simp
    next
      case F: False
      with False Cons.IH [OF d(1)] kv show ?thesis by simp
    qed
  qed
qed

lemma map_of_update: "map_of (AList.update k v m) = (map_of m)(k \<mapsto> v)"
  by (simp add: update_conv')

lemma map_of_delete: "map_of (AList.delete k m) = (map_of m)(k := None)"
  by (simp add: delete_conv')

end
