(* ===== verification/Cooldown.thy ===== *)
theory Cooldown
  imports GoBase
begin

text \<open>
  The growth curve shared by every backoff of the program: \<^verbatim>\<open>SaturatingCooldown\<close>
  (internal/pool/pool.go), used by the route and pair cooldowns, by the rotation retry
  (\<^verbatim>\<open>BackoffFor\<close>, internal/rotation/backoff.go) and by the warm pool's redial backoff
  (\<^verbatim>\<open>jitteredBackoff\<close>, internal/warmpool/warmpool.go). The two jittered forms draw a
  random factor and multiply in floating point: the product is a parameter of the model
  (\<open>jit\<close>, the converted \<^verbatim>\<open>float64\<close> product), and what is proved holds for every one.
\<close>

section \<open>The saturating doubling\<close>

fun doubling :: "nat \<Rightarrow> duration \<Rightarrow> duration \<Rightarrow> duration" where
  "doubling 0 cd mx = cd"
| "doubling (Suc n) cd mx =
     (if quot64 mx 2 < cd then mx
      else if quot64 max_int64 2 < cd then mx
      else doubling n (wrap64 (cd * 2)) mx)"

definition SaturatingCooldown :: "duration \<Rightarrow> duration \<Rightarrow> int \<Rightarrow> duration" where
  "SaturatingCooldown base mx failures =
     (if base \<le> 0 \<or> mx \<le> 0 then 0
      else if mx \<le> base then mx
      else let shift = wrap64 (failures - 1);
               shift = (if shift < 0 then 0 else shift)
           in if 63 < shift then mx else doubling (nat shift) base mx)"

definition BackoffFor :: "(duration \<Rightarrow> duration) \<Rightarrow> duration \<Rightarrow> int \<Rightarrow> duration \<Rightarrow> duration" where
  "BackoffFor jit interval consecutive mx =
     (let interval = (if interval \<le> 0 then second else interval);
          consecutive = (if consecutive < 1 then 1 else consecutive);
          base = SaturatingCooldown interval mx consecutive;
          jittered = jit base
      in if jittered \<le> 0 then base else if mx < jittered then mx else jittered)"

definition jitteredBackoff :: "(duration \<Rightarrow> duration) \<Rightarrow> duration \<Rightarrow> duration" where
  "jitteredBackoff delta d = (if d \<le> 0 then 0 else wrap64 (d + delta d))"

lemma doubling_exact:
  assumes "0 < cd" and "cd \<le> mx" and "mx \<le> max_int64"
  shows "doubling n cd mx = min mx (cd * 2 ^ n)"
  using assms
proof (induction n arbitrary: cd)
  case 0
  then show ?case by simp
next
  case (Suc n)
  have q: "quot64 mx 2 = mx div 2" "quot64 max_int64 2 = max_int64 div 2"
    using Suc.prems by (simp_all add: quot64_two max_int64_def)
  have pow: "cd * 2 \<le> cd * 2 ^ Suc n"
    using Suc.prems by (intro mult_left_mono) simp_all
  show ?case
  proof (cases "mx div 2 < cd")
    case True
    then have "mx < cd * 2" by linarith
    with pow have "mx \<le> cd * 2 ^ Suc n" by linarith
    with True q show ?thesis by simp
  next
    case False
    then have le: "cd * 2 \<le> mx" by linarith
    with Suc.prems have w: "wrap64 (cd * 2) = cd * 2"
      by (intro wrap64_id) (simp_all add: min_int64_def)
    have "\<not> max_int64 div 2 < cd" using le Suc.prems by linarith
    with False q w have "doubling (Suc n) cd mx = doubling n (cd * 2) mx" by simp
    also have "\<dots> = min mx (cd * 2 * 2 ^ n)" using Suc.prems le by (intro Suc.IH) simp_all
    finally show ?thesis by (simp add: mult.assoc)
  qed
qed

text \<open>
  The exact value: for every positive bound of a 64-bit duration the loop computes the capped
  geometric curve, so no doubling wraps and the early exits never cut it short.
\<close>

lemma SaturatingCooldown_exact:
  assumes "0 < base" and "0 < mx" and "mx \<le> max_int64"
    and "min_int64 < failures" and "failures \<le> max_int64"
  shows "SaturatingCooldown base mx failures = min mx (base * 2 ^ nat (failures - 1))"
proof (cases "mx \<le> base")
  case True
  then have "mx \<le> base * 2 ^ nat (failures - 1)"
    using assms(1) by (simp add: mult_le_cancel_left1 order_trans)
  with True assms show ?thesis by (simp add: SaturatingCooldown_def)
next
  case False
  have w: "wrap64 (failures - 1) = failures - 1" using assms by (intro wrap64_id) simp_all
  show ?thesis
  proof (cases "63 < failures - 1")
    case True
    have "(2::int) ^ 64 \<le> 2 ^ nat (failures - 1)" using True by (intro power_increasing) simp_all
    also have "\<dots> \<le> base * 2 ^ nat (failures - 1)" using assms(1) by simp
    finally have "mx \<le> base * 2 ^ nat (failures - 1)"
      using assms(3) by (simp add: max_int64_def)
    with True False w assms show ?thesis by (simp add: SaturatingCooldown_def)
  next
    case F: False
    have "nat (if failures - 1 < 0 then 0 else failures - 1) = nat (failures - 1)" by simp
    with F False w assms show ?thesis
      by (simp add: SaturatingCooldown_def Let_def doubling_exact)
  qed
qed

section \<open>The interface of a cooldown curve\<close>

text \<open>
  What the clients of the curve rely on: a cooldown applied after a failure is positive, never
  exceeds the configured ceiling, and grows with the streak. The pool, the rotation engine and
  the warm pool are its clients.
\<close>

locale cooldown_curve =
  fixes curve :: "duration \<Rightarrow> duration \<Rightarrow> int \<Rightarrow> duration"
  assumes curve_nonneg: "0 \<le> curve base mx n"
    and curve_le: "0 < mx \<Longrightarrow> mx \<le> max_int64 \<Longrightarrow> curve base mx n \<le> mx"
    and curve_pos: "0 < base \<Longrightarrow> 0 < mx \<Longrightarrow> mx \<le> max_int64 \<Longrightarrow> 0 < curve base mx n"
    and curve_mono: "0 < base \<Longrightarrow> 0 < mx \<Longrightarrow> mx \<le> max_int64 \<Longrightarrow>
      1 \<le> m \<Longrightarrow> m \<le> n \<Longrightarrow> n \<le> max_int64 \<Longrightarrow> curve base mx m \<le> curve base mx n"
begin

text \<open>A jittered wait that is clamped as \<open>BackoffFor\<close> clamps it stays in the curve's range.\<close>

lemma clamped_range:
  assumes "0 < base" and "0 < mx" and "mx \<le> max_int64"
  shows "0 < (if j \<le> 0 then curve base mx n else if mx < j then mx else j) \<and>
    (if j \<le> 0 then curve base mx n else if mx < j then mx else j) \<le> mx"
  using curve_pos [OF assms] curve_le [OF assms(2,3)] assms(2) by auto

text \<open>A deadline set from the curve lies in the future and within one ceiling of now.\<close>

lemma deadline_range:
  assumes "0 < base" and "0 < mx" and "mx \<le> max_int64"
  shows "now < now + curve base mx n \<and> now + curve base mx n \<le> now + mx"
  using curve_pos [OF assms] curve_le [OF assms(2,3)] by simp

end

lemma doubling_range: "0 < cd \<Longrightarrow> cd \<le> mx \<Longrightarrow> mx \<le> max_int64 \<Longrightarrow> 0 < doubling n cd mx \<and> doubling n cd mx \<le> mx"
  by (simp add: doubling_exact)

lemma SaturatingCooldown_le: "0 < mx \<Longrightarrow> mx \<le> max_int64 \<Longrightarrow> SaturatingCooldown base mx n \<le> mx"
  using doubling_range [of base mx] by (simp add: SaturatingCooldown_def Let_def)

lemma SaturatingCooldown_pos:
  "0 < base \<Longrightarrow> 0 < mx \<Longrightarrow> mx \<le> max_int64 \<Longrightarrow> 0 < SaturatingCooldown base mx n"
  using doubling_range [of base mx] by (simp add: SaturatingCooldown_def Let_def)

lemma doubling_nonneg: "0 < cd \<Longrightarrow> 0 < mx \<Longrightarrow> 0 \<le> doubling n cd mx"
proof (induction n arbitrary: cd)
  case (Suc n)
  show ?case
  proof (cases "quot64 mx 2 < cd \<or> quot64 max_int64 2 < cd")
    case True
    with Suc.prems show ?thesis by auto
  next
    case False
    then have "cd \<le> max_int64 div 2" by (simp add: quot64_two max_int64_def)
    then have "wrap64 (cd * 2) = cd * 2"
      using Suc.prems by (intro wrap64_id) (simp_all add: min_int64_def max_int64_def)
    with False Suc show ?thesis by simp
  qed
qed simp

lemma SaturatingCooldown_nonneg: "0 \<le> SaturatingCooldown base mx n"
  using doubling_nonneg [of base mx] by (auto simp: SaturatingCooldown_def Let_def)

lemma SaturatingCooldown_mono:
  assumes "0 < base" and "0 < mx" and "mx \<le> max_int64" and "1 \<le> m" and "m \<le> n" and "n \<le> max_int64"
  shows "SaturatingCooldown base mx m \<le> SaturatingCooldown base mx n"
proof -
  have "base * 2 ^ nat (m - 1) \<le> base * 2 ^ nat (n - 1)"
    using assms by (intro mult_left_mono power_increasing) auto
  then show ?thesis
    using assms by (simp add: SaturatingCooldown_exact min_int64_def min.coboundedI2 min_le_iff_disj)
qed

interpretation saturating: cooldown_curve SaturatingCooldown
  by unfold_locales
    (auto intro: SaturatingCooldown_nonneg SaturatingCooldown_le SaturatingCooldown_pos
      SaturatingCooldown_mono)

text \<open>the cooldown curve is exactly \<open>base\<close> doubled once per further consecutive
  failure and capped at the configured maximum, for every positive base and every positive
  64-bit maximum: the doubling loop never overflows and neither early exit loses precision.\<close>

theorem SaturatingCooldown_is_capped_doubling:
  assumes "0 < base" and "0 < mx" and "mx \<le> max_int64"
    and "1 \<le> failures" and "failures \<le> max_int64"
  shows "SaturatingCooldown base mx failures = min mx (base * 2 ^ nat (failures - 1))"
  using assms by (intro SaturatingCooldown_exact) (simp_all add: min_int64_def)

theorem SaturatingCooldown_is_capped_doubling_witness:
  "SaturatingCooldown 1000000000 60000000000 7 = 60000000000 \<and>
   SaturatingCooldown 1000000000 60000000000 3 = 4000000000"
  using SaturatingCooldown_is_capped_doubling [of 1000000000 60000000000 7]
    SaturatingCooldown_is_capped_doubling [of 1000000000 60000000000 3]
  by (simp add: max_int64_def)

text \<open>the rotation retry wait is positive and never exceeds the configured ceiling,
  whatever interval, streak and jitter it is computed from: a jitter that rounds to zero or
  overshoots the ceiling cannot disable or stretch the backoff.\<close>

theorem BackoffFor_bounds:
  assumes "0 < mx" and "mx \<le> max_int64"
  shows "0 < BackoffFor jit interval consecutive mx \<and> BackoffFor jit interval consecutive mx \<le> mx"
proof -
  have "0 < (if interval \<le> 0 then second else interval)" by (simp add: second_def)
  from saturating.clamped_range [OF this assms] show ?thesis
    by (simp add: BackoffFor_def Let_def)
qed

theorem BackoffFor_bounds_witness:
  "0 < BackoffFor (\<lambda>d. d * 2) 0 5 8000000000 \<and> BackoffFor (\<lambda>d. d * 2) 0 5 8000000000 \<le> 8000000000"
  by (rule BackoffFor_bounds) (simp_all add: max_int64_def)

end
