(* ===== verification/GoStrings.thy ===== *)
theory GoStrings
  imports GoBase
begin

text \<open>
  The functions of Go's \<^verbatim>\<open>strings\<close>, \<^verbatim>\<open>strconv\<close> and \<^verbatim>\<open>net\<close> packages that the
  program calls, on byte strings (a \<open>char\<close> is one byte), with their library names.

  \<open>ToLower\<close> and \<open>TrimSpace\<close> are exact on ASCII. Outside ASCII \<open>ToLower\<close> folds the two code
  points whose lower case is an ASCII letter (the Kelvin sign and the dotted capital I), which
  are the ones that can turn an invalid hostname into a valid one, and leaves every other
  non-ASCII byte alone; \<open>TrimSpace\<close> trims the six ASCII spaces.
\<close>

section \<open>Bytes\<close>

definition ord :: "char \<Rightarrow> nat" where
  "ord c = of_char c"

definition chr :: "nat \<Rightarrow> char" where
  "chr n = char_of n"

definition is_digit :: "char \<Rightarrow> bool" where
  "is_digit c \<longleftrightarrow> 48 \<le> ord c \<and> ord c \<le> 57"

definition is_lower :: "char \<Rightarrow> bool" where
  "is_lower c \<longleftrightarrow> 97 \<le> ord c \<and> ord c \<le> 122"

definition is_upper :: "char \<Rightarrow> bool" where
  "is_upper c \<longleftrightarrow> 65 \<le> ord c \<and> ord c \<le> 90"

definition is_space :: "char \<Rightarrow> bool" where
  "is_space c \<longleftrightarrow> ord c = 32 \<or> (9 \<le> ord c \<and> ord c \<le> 13)"

definition lower_char :: "char \<Rightarrow> char" where
  "lower_char c = (if is_upper c then chr (ord c + 32) else c)"

lemma ord_less: "ord c < 256"
  using of_char_mod_256 [of c, where 'a = nat] unfolding ord_def
  by (metis mod_less_divisor zero_less_numeral)

lemma ord_chr: "n < 256 \<Longrightarrow> ord (chr n) = n"
  by (simp add: ord_def chr_def)

lemma chr_ord [simp]: "chr (ord c) = c"
  by (simp add: ord_def chr_def)

lemma ord_inject: "ord a = ord b \<longleftrightarrow> a = b"
  by (metis chr_ord)

lemma lower_char_idem [simp]: "lower_char (lower_char c) = lower_char c"
  by (auto simp: lower_char_def is_upper_def ord_chr)

section \<open>strings\<close>

definition HasPrefix :: "string \<Rightarrow> string \<Rightarrow> bool" where
  "HasPrefix s p \<longleftrightarrow> length p \<le> length s \<and> take (length p) s = p"

definition HasSuffix :: "string \<Rightarrow> string \<Rightarrow> bool" where
  "HasSuffix s p \<longleftrightarrow> length p \<le> length s \<and> drop (length s - length p) s = p"

definition TrimSuffix :: "string \<Rightarrow> string \<Rightarrow> string" where
  "TrimSuffix s p = (if HasSuffix s p then take (length s - length p) s else s)"

fun Contains :: "string \<Rightarrow> string \<Rightarrow> bool" where
  "Contains [] p \<longleftrightarrow> p = []"
| "Contains (c # s) p \<longleftrightarrow> HasPrefix (c # s) p \<or> Contains s p"

text \<open>\<open>strings.Cut\<close> at a one-byte separator.\<close>

fun Cut :: "string \<Rightarrow> char \<Rightarrow> (string \<times> string \<times> bool)" where
  "Cut [] sep = ([], [], False)"
| "Cut (c # s) sep =
     (if c = sep then ([], s, True)
      else (let (a, b, found) = Cut s sep in (c # a, b, found)))"

fun ToLower :: "string \<Rightarrow> string" where
  "ToLower (a # b # c # s) =
     (if ord a = 226 \<and> ord b = 132 \<and> ord c = 170 then CHR ''k'' # ToLower s
      else if ord a = 196 \<and> ord b = 176 then CHR ''i'' # ToLower (c # s)
      else lower_char a # ToLower (b # c # s))"
| "ToLower [a, b] =
     (if ord a = 196 \<and> ord b = 176 then [CHR ''i''] else [lower_char a, lower_char b])"
| "ToLower [a] = [lower_char a]"
| "ToLower [] = []"

definition TrimSpace :: "string \<Rightarrow> string" where
  "TrimSpace s = rev (dropWhile is_space (rev (dropWhile is_space s)))"

fun split_on :: "char \<Rightarrow> string \<Rightarrow> string list" where
  "split_on sep [] = [[]]"
| "split_on sep (c # s) =
     (if c = sep then [] # split_on sep s
      else (c # hd (split_on sep s)) # tl (split_on sep s))"

fun join_with :: "char \<Rightarrow> string list \<Rightarrow> string" where
  "join_with sep [] = []"
| "join_with sep [x] = x"
| "join_with sep (x # y # ys) = x @ sep # join_with sep (y # ys)"

lemma HasPrefix_iff: "HasPrefix s p \<longleftrightarrow> (\<exists>t. s = p @ t)"
  unfolding HasPrefix_def by (metis append_eq_conv_conj length_append le_add1)

lemma HasSuffix_iff: "HasSuffix s p \<longleftrightarrow> (\<exists>t. s = t @ p)"
proof
  assume "HasSuffix s p"
  then have "s = take (length s - length p) s @ p"
    unfolding HasSuffix_def by (metis append_take_drop_id)
  then show "\<exists>t. s = t @ p" by blast
qed (auto simp: HasSuffix_def)

lemma TrimSuffix_append [simp]: "TrimSuffix (s @ p) p = s"
  by (simp add: TrimSuffix_def HasSuffix_def)

lemma TrimSuffix_none: "\<not> HasSuffix s p \<Longrightarrow> TrimSuffix s p = s"
  by (simp add: TrimSuffix_def)

lemma Cut_append: "sep \<notin> set a \<Longrightarrow> Cut (a @ sep # b) sep = (a, b, True)"
  by (induction a) auto

lemma Cut_none: "sep \<notin> set s \<Longrightarrow> Cut s sep = (s, [], False)"
  by (induction s) auto

lemma Cut_found: "Cut s sep = (a, b, True) \<longleftrightarrow> s = a @ sep # b \<and> sep \<notin> set a"
proof
  show "Cut s sep = (a, b, True) \<Longrightarrow> s = a @ sep # b \<and> sep \<notin> set a"
    by (induction s arbitrary: a) (auto split: if_splits prod.splits)
qed (auto simp: Cut_append)

lemma Cut_not_found: "Cut s sep = (a, b, False) \<longleftrightarrow> sep \<notin> set s \<and> a = s \<and> b = []"
proof
  show "Cut s sep = (a, b, False) \<Longrightarrow> sep \<notin> set s \<and> a = s \<and> b = []"
    by (induction s arbitrary: a) (auto split: if_splits prod.splits)
qed (auto simp: Cut_none)

lemma split_on_not_Nil [simp]: "split_on sep s \<noteq> []"
  by (cases s) auto

lemma split_on_no_sep: "sep \<notin> set s \<Longrightarrow> split_on sep s = [s]"
  by (induction s) auto

lemma split_on_append: "split_on sep (a @ sep # b) = split_on sep a @ split_on sep b"
  by (induction a) auto

lemma split_on_parts: "x \<in> set (split_on sep s) \<Longrightarrow> sep \<notin> set x"
proof (induction s arbitrary: x)
  case (Cons c s)
  then show ?case by (cases "split_on sep s") (auto split: if_splits)
qed simp

lemma join_split: "join_with sep (split_on sep s) = s"
proof (induction s)
  case (Cons c s)
  then show ?case
    by (cases "split_on sep s"; cases "tl (split_on sep s)") auto
qed simp

lemma split_join:
  "ls \<noteq> [] \<Longrightarrow> \<forall>x \<in> set ls. sep \<notin> set x \<Longrightarrow> split_on sep (join_with sep ls) = ls"
  by (induction ls rule: join_with.induct) (auto simp: split_on_no_sep split_on_append)

lemma length_ToLower: "length (ToLower s) \<le> length s"
  by (induction s rule: ToLower.induct) auto

text \<open>On ASCII strings \<open>ToLower\<close> is the bytewise map.\<close>

definition is_ascii :: "string \<Rightarrow> bool" where
  "is_ascii s \<longleftrightarrow> (\<forall>c \<in> set s. ord c < 128)"

lemma ToLower_ascii: "is_ascii s \<Longrightarrow> ToLower s = map lower_char s"
  by (induction s rule: ToLower.induct) (auto simp: is_ascii_def)

lemma ToLower_lower: "\<forall>c \<in> set s. ord c < 128 \<and> \<not> is_upper c \<Longrightarrow> ToLower s = s"
  by (subst ToLower_ascii) (auto simp: is_ascii_def lower_char_def intro: map_idI)

section \<open>strconv\<close>

fun digits_of :: "nat \<Rightarrow> string" where
  "digits_of n = (if n < 10 then [chr (48 + n)] else digits_of (n div 10) @ [chr (48 + n mod 10)])"

declare digits_of.simps [simp del]

definition digits_val :: "string \<Rightarrow> nat" where
  "digits_val s = foldl (\<lambda>n c. n * 10 + (ord c - 48)) 0 s"

definition Itoa :: "int \<Rightarrow> string" where
  "Itoa n = (if n < 0 then CHR ''-'' # digits_of (nat (- n)) else digits_of (nat n))"

text \<open>\<open>strconv.Atoi\<close>: an optional sign, at least one digit, and a value in the range of \<open>int\<close>.\<close>

definition Atoi :: "string \<Rightarrow> int option" where
  "Atoi s =
     (let neg = (s \<noteq> [] \<and> hd s = CHR ''-'');
          body = (if s \<noteq> [] \<and> (hd s = CHR ''-'' \<or> hd s = CHR ''+'') then tl s else s);
          v = (if neg then - int (digits_val body) else int (digits_val body))
      in if body = [] \<or> \<not> list_all is_digit body then None
         else if v < min_int64 \<or> max_int64 < v then None else Some v)"

lemma digits_of_not_Nil [simp]: "digits_of n \<noteq> []"
  by (subst digits_of.simps) simp

lemma is_digit_chr: "k < 10 \<Longrightarrow> is_digit (chr (48 + k))"
  by (simp add: is_digit_def ord_chr)

lemma digits_of_digits: "list_all is_digit (digits_of n)"
proof (induction n rule: digits_of.induct)
  case (1 n)
  then show ?case
    by (subst digits_of.simps) (auto simp: is_digit_chr)
qed

lemma digits_val_snoc: "digits_val (s @ [c]) = digits_val s * 10 + (ord c - 48)"
  by (simp add: digits_val_def)

lemma digits_val_digits_of [simp]: "digits_val (digits_of n) = n"
proof (induction n rule: digits_of.induct)
  case (1 n)
  show ?case
  proof (cases "n < 10")
    case True
    then show ?thesis by (subst digits_of.simps) (simp add: digits_val_def ord_chr)
  next
    case False
    with 1 have "digits_val (digits_of (n div 10)) = n div 10" by simp
    moreover have "ord (chr (48 + n mod 10)) = 48 + n mod 10" by (rule ord_chr) simp
    ultimately show ?thesis
      using False by (subst digits_of.simps) (simp add: digits_val_snoc)
  qed
qed

lemma digits_of_head: "hd (digits_of n) \<noteq> CHR ''-'' \<and> hd (digits_of n) \<noteq> CHR ''+''"
proof -
  have "is_digit (hd (digits_of n))"
    using digits_of_digits [of n] by (metis digits_of_not_Nil hd_in_set list_all_iff)
  moreover have "\<not> is_digit (CHR ''-'')" "\<not> is_digit (CHR ''+'')"
    by (simp_all add: is_digit_def ord_def)
  ultimately show ?thesis by metis
qed

lemma Atoi_Itoa_nat: "int n \<le> max_int64 \<Longrightarrow> Atoi (digits_of n) = Some (int n)"
  using digits_of_digits [of n] digits_of_head [of n]
  by (simp add: Atoi_def Let_def min_int64_def)

section \<open>net\<close>

definition JoinHostPort :: "string \<Rightarrow> string \<Rightarrow> string" where
  "JoinHostPort host port =
     (if CHR '':'' \<in> set host then CHR ''['' # host @ '']:'' @ port else host @ '':'' @ port)"

end
