(* ===== verification/Routing.thy ===== *)
theory Routing
  imports GoStrings
begin

text \<open>
  The routing policy (internal/routing/routing.go): \<^verbatim>\<open>Compile\<close> turns the configured
  rules into an immutable router, \<^verbatim>\<open>Match\<close> resolves a CONNECT target to its candidate
  set. A nil router and a nil set are \<open>None\<close>. Errors are values of \<open>compile_error\<close>, one
  constructor per message of the source, with the rule index the message names.
\<close>

section \<open>Targets\<close>

text \<open>The address type and target of internal/socksdial/socksdial.go. The type byte is one
  of the three RFC 1928 constants or some other value.\<close>

datatype addr_type = AddrIPv4 | AddrDomain | AddrIPv6 | AddrOther nat

record target =
  Host :: string
  Port :: nat
  Type :: addr_type

definition Addr :: "target \<Rightarrow> string" where
  "Addr t = JoinHostPort (Host t) (Itoa (int (Port t)))"

section \<open>Policy data\<close>

record rule_spec =
  Domains :: "string list"
  Routes :: "string list"

record spec =
  Rules :: "rule_spec list"
  DefaultRoutes :: "string list"

type_synonym route_set = "string set"

record compiled_rule =
  exact :: "string set"
  wilds :: "string list"
  routes :: route_set

record router =
  rules :: "compiled_rule list"
  defaults :: route_set

definition newSet :: "string list \<Rightarrow> route_set" where
  "newSet ids = set ids"

definition Allows :: "route_set option \<Rightarrow> string \<Rightarrow> bool" where
  "Allows s i = (case s of None \<Rightarrow> False | Some S \<Rightarrow> i \<in> S)"

definition Set_Size :: "route_set option \<Rightarrow> nat" where
  "Set_Size s = (case s of None \<Rightarrow> 0 | Some S \<Rightarrow> card S)"

section \<open>Hostname grammar\<close>

datatype host_error =
    HostLength
  | HostDot
  | LabelLength string
  | LabelHyphen string
  | LabelChar string

definition label_char :: "char \<Rightarrow> bool" where
  "label_char c \<longleftrightarrow> is_lower c \<or> is_digit c \<or> c = CHR ''-''"

definition check_label :: "string \<Rightarrow> host_error option" where
  "check_label label =
     (if label = [] \<or> 63 < length label then Some (LabelLength label)
      else if HasPrefix label ''-'' \<or> HasSuffix label ''-'' then Some (LabelHyphen label)
      else if \<not> list_all label_char label then Some (LabelChar label)
      else None)"

text \<open>The in-place label walk: the first bad label is the error; a remainder of length 0
  ends the walk, so a final dot would end it without an empty last label (the caller has
  excluded that).\<close>

function walk_labels :: "string \<Rightarrow> host_error option" where
  "walk_labels host =
     (if host = [] then None
      else (let (label, rest, found) = Cut host CHR ''.'' in
        (case check_label label of
           Some e \<Rightarrow> Some e
         | None \<Rightarrow> if found then walk_labels rest else None)))"
  by pat_completeness auto
termination
proof (relation "measure length", goal_cases)
  case (2 host cr label y rest found)
  then have "Cut host CHR ''.'' = (label, rest, True)" by (metis prod.inject)
  then show ?case by (auto simp: Cut_found)
qed simp

declare walk_labels.simps [simp del]

definition validateHostname :: "string \<Rightarrow> host_error option" where
  "validateHostname host =
     (if host = [] \<or> 253 < length host then Some HostLength
      else if HasPrefix host ''.'' \<or> HasSuffix host ''.'' then Some HostDot
      else walk_labels host)"

definition normalizeHost :: "string \<Rightarrow> string" where
  "normalizeHost host = ToLower (TrimSuffix host ''.'')"

definition matchHost :: "string \<Rightarrow> string option" where
  "matchHost host =
     (let host = normalizeHost host in
      if validateHostname host \<noteq> None then None else Some host)"

section \<open>Compilation\<close>

datatype pattern_error = PatternPadded | PatternHost string host_error

datatype compile_error =
    NoDomains nat
  | NoRoutes nat
  | RouteTwice nat string
  | BadPattern nat pattern_error
  | DomainTwice nat string

text \<open>\<open>Inr (exact, wild)\<close> as the two results of \<^verbatim>\<open>compilePattern\<close>; one of them is empty.\<close>

definition compilePattern :: "string \<Rightarrow> pattern_error + (string \<times> string)" where
  "compilePattern pattern =
     (if TrimSpace pattern \<noteq> pattern \<or> pattern = [] then Inl PatternPadded
      else let normalized = normalizeHost pattern;
               wildcard = HasPrefix normalized ''*.'';
               host = (if wildcard then drop 2 normalized else normalized)
           in (case validateHostname host of
                 Some e \<Rightarrow> Inl (PatternHost pattern e)
               | None \<Rightarrow> Inr (if wildcard then ([], CHR ''.'' # host) else (host, []))))"

fun check_routes :: "nat \<Rightarrow> string set \<Rightarrow> string list \<Rightarrow> compile_error option" where
  "check_routes i seen [] = None"
| "check_routes i seen (r # rs) =
     (if r \<in> seen then Some (RouteTwice i r) else check_routes i (insert r seen) rs)"

fun compile_domains :: "nat \<Rightarrow> string list \<Rightarrow> compiled_rule \<Rightarrow> compile_error + compiled_rule" where
  "compile_domains i [] compiled = Inr compiled"
| "compile_domains i (p # ps) compiled =
     (case compilePattern p of
        Inl e \<Rightarrow> Inl (BadPattern i e)
      | Inr (ex, wild) \<Rightarrow>
          if wild \<noteq> [] then
            (if wild \<in> set (wilds compiled) then Inl (DomainTwice i p)
             else compile_domains i ps (compiled\<lparr>wilds := wilds compiled @ [wild]\<rparr>))
          else
            (if ex \<in> exact compiled then Inl (DomainTwice i p)
             else compile_domains i ps (compiled\<lparr>exact := insert ex (exact compiled)\<rparr>)))"

definition compile_rule :: "nat \<Rightarrow> rule_spec \<Rightarrow> compile_error + compiled_rule" where
  "compile_rule i rule =
     (if Domains rule = [] then Inl (NoDomains i)
      else if Routes rule = [] then Inl (NoRoutes i)
      else (case check_routes i {} (Routes rule) of
              Some e \<Rightarrow> Inl e
            | None \<Rightarrow> compile_domains i (Domains rule)
                        \<lparr>exact = {}, wilds = [], routes = newSet (Routes rule)\<rparr>))"

fun compile_rules :: "nat \<Rightarrow> rule_spec list \<Rightarrow> compiled_rule list \<Rightarrow> compile_error + compiled_rule list" where
  "compile_rules i [] acc = Inr acc"
| "compile_rules i (r # rs) acc =
     (case compile_rule i r of
        Inl e \<Rightarrow> Inl e
      | Inr c \<Rightarrow> compile_rules (Suc i) rs (acc @ [c]))"

definition Compile :: "spec \<Rightarrow> compile_error + router" where
  "Compile sp =
     (case compile_rules 0 (Rules sp) [] of
        Inl e \<Rightarrow> Inl e
      | Inr cs \<Rightarrow> Inr \<lparr>rules = cs, defaults = newSet (DefaultRoutes sp)\<rparr>)"

section \<open>Matching\<close>

definition rule_matches :: "string \<Rightarrow> compiled_rule \<Rightarrow> bool" where
  "rule_matches host rule \<longleftrightarrow> host \<in> exact rule \<or> list_ex (HasSuffix host) (wilds rule)"

fun match_rules :: "string \<Rightarrow> compiled_rule list \<Rightarrow> route_set \<Rightarrow> route_set" where
  "match_rules host [] d = d"
| "match_rules host (r # rs) d = (if rule_matches host r then routes r else match_rules host rs d)"

definition Match :: "router option \<Rightarrow> target \<Rightarrow> route_set option" where
  "Match r t =
     (case r of
        None \<Rightarrow> None
      | Some r \<Rightarrow>
          if Type t \<noteq> AddrDomain then Some (defaults r)
          else (case matchHost (Host t) of
                  None \<Rightarrow> Some (defaults r)
                | Some host \<Rightarrow> Some (match_rules host (rules r) (defaults r))))"


section \<open>The hostname grammar, label by label\<close>

lemma walk_labels_split:
  "host \<noteq> [] \<Longrightarrow> \<not> HasSuffix host ''.'' \<Longrightarrow>
   walk_labels host = None \<longleftrightarrow> (\<forall>l \<in> set (split_on CHR ''.'' host). check_label l = None)"
proof (induction host rule: walk_labels.induct)
  case (1 host)
  obtain label rest found where cut: "Cut host CHR ''.'' = (label, rest, found)"
    by (metis prod_cases3)
  show ?case
  proof (cases found)
    case False
    with cut have "CHR ''.'' \<notin> set host" "label = host" by (simp_all add: Cut_not_found)
    with cut False \<open>host \<noteq> []\<close> show ?thesis
      by (subst walk_labels.simps) (simp add: split_on_no_sep split: option.splits)
  next
    case True
    with cut have host: "host = label @ CHR ''.'' # rest" and nd: "CHR ''.'' \<notin> set label"
      by (simp_all add: Cut_found)
    from host \<open>\<not> HasSuffix host ''.''\<close> have rest: "rest \<noteq> []" "\<not> HasSuffix rest ''.''"
      by (auto simp: HasSuffix_iff)
    have sp: "split_on CHR ''.'' host = label # split_on CHR ''.'' rest"
      by (simp add: host split_on_append split_on_no_sep [OF nd])
    show ?thesis
    proof (cases "check_label label")
      case None
      with 1 cut True rest \<open>host \<noteq> []\<close> show ?thesis
        by (subst walk_labels.simps) (simp add: sp)
    next
      case (Some e)
      with cut \<open>host \<noteq> []\<close> show ?thesis by (subst walk_labels.simps) (simp add: sp)
    qed
  qed
qed

lemma check_label_nonempty: "check_label l = None \<Longrightarrow> l \<noteq> []"
  by (auto simp: check_label_def)

lemma split_dot_ends:
  assumes "\<forall>l \<in> set (split_on CHR ''.'' host). l \<noteq> []"
  shows "host \<noteq> []" and "\<not> HasPrefix host ''.''" and "\<not> HasSuffix host ''.''"
  using assms by (auto simp: HasPrefix_iff HasSuffix_iff split_on_append)

lemma validateHostname_iff:
  "validateHostname host = None \<longleftrightarrow>
     length host \<le> 253 \<and> (\<forall>l \<in> set (split_on CHR ''.'' host). check_label l = None)"
proof (cases "\<forall>l \<in> set (split_on CHR ''.'' host). check_label l = None")
  case True
  then have "\<forall>l \<in> set (split_on CHR ''.'' host). l \<noteq> []" by (auto dest: check_label_nonempty)
  from split_dot_ends [OF this] True show ?thesis
    by (auto simp: validateHostname_def walk_labels_split)
next
  case False
  then show ?thesis by (auto simp: validateHostname_def walk_labels_split)
qed

section \<open>What a pattern covers\<close>

text \<open>
  The meaning of a pattern on labels, stated without the compiled forms: an exact pattern
  covers its own name, \<^verbatim>\<open>*.suffix\<close> covers every name that has the labels of the suffix after
  at least one further label.
\<close>

definition covers :: "string \<Rightarrow> string \<Rightarrow> bool" where
  "covers pattern host =
     (let n = normalizeHost pattern in
      if HasPrefix n ''*.'' then
        (let ps = split_on CHR ''.'' (drop 2 n); hs = split_on CHR ''.'' host
         in length ps < length hs \<and> drop (length hs - length ps) hs = ps)
      else host = n)"

lemma join_append:
  "as \<noteq> [] \<Longrightarrow> bs \<noteq> [] \<Longrightarrow> join_with sep (as @ bs) = join_with sep as @ sep # join_with sep bs"
proof (induction as rule: join_with.induct)
  case (2 sep x)
  then show ?case by (cases bs) auto
qed auto

lemma HasSuffix_labels:
  "HasSuffix host (sep # suf) \<longleftrightarrow>
     (\<exists>pre. pre \<noteq> [] \<and> split_on sep host = pre @ split_on sep suf)"
proof
  assume "HasSuffix host (sep # suf)"
  then obtain t where "host = t @ sep # suf" by (auto simp: HasSuffix_iff)
  then have "split_on sep host = split_on sep t @ split_on sep suf" by (simp add: split_on_append)
  then show "\<exists>pre. pre \<noteq> [] \<and> split_on sep host = pre @ split_on sep suf"
    by (metis split_on_not_Nil)
next
  assume "\<exists>pre. pre \<noteq> [] \<and> split_on sep host = pre @ split_on sep suf"
  then obtain pre where pre: "pre \<noteq> []" "split_on sep host = pre @ split_on sep suf" by blast
  have "host = join_with sep (pre @ split_on sep suf)" by (metis pre(2) join_split)
  also have "\<dots> = join_with sep pre @ sep # suf"
    using pre(1) by (simp add: join_append join_split)
  finally show "HasSuffix host (sep # suf)" by (auto simp: HasSuffix_iff)
qed

lemma suffix_list_iff:
  "(\<exists>pre. pre \<noteq> [] \<and> hs = pre @ ps) \<longleftrightarrow> length ps < length hs \<and> drop (length hs - length ps) hs = ps"
proof
  assume r: "length ps < length hs \<and> drop (length hs - length ps) hs = ps"
  then have "hs = take (length hs - length ps) hs @ ps" by (metis append_take_drop_id)
  moreover have "take (length hs - length ps) hs \<noteq> []" using r by auto
  ultimately show "\<exists>pre. pre \<noteq> [] \<and> hs = pre @ ps" by blast
qed auto

lemma compilePattern_covers:
  assumes "compilePattern p = Inr (ex, wild)"
  shows "wild = [] \<Longrightarrow> covers p host \<longleftrightarrow> host = ex"
    and "wild \<noteq> [] \<Longrightarrow> covers p host \<longleftrightarrow> HasSuffix host wild"
  using assms
  by (auto simp: compilePattern_def covers_def Let_def HasSuffix_labels suffix_list_iff
      split: if_splits option.splits)

section \<open>Compilation, rule by rule\<close>

text \<open>What \<^verbatim>\<open>Compile\<close> accepts of a rule, in one predicate.\<close>

definition rule_ok :: "rule_spec \<Rightarrow> bool" where
  "rule_ok rule \<longleftrightarrow>
     Domains rule \<noteq> [] \<and> Routes rule \<noteq> [] \<and> distinct (Routes rule) \<and>
     (\<forall>p \<in> set (Domains rule). \<not> isl (compilePattern p)) \<and>
     distinct (map compilePattern (Domains rule))"

lemma not_isl_iff: "\<not> isl x \<longleftrightarrow> (\<exists>y. x = Inr y)"
  by (cases x) auto

lemma check_routes_None: "check_routes i seen rs = None \<longleftrightarrow> distinct rs \<and> set rs \<inter> seen = {}"
  by (induction rs arbitrary: seen) auto

definition rule_forms :: "compiled_rule \<Rightarrow> (pattern_error + (string \<times> string)) set" where
  "rule_forms c = (\<lambda>ex. Inr (ex, [])) ` exact c \<union> (\<lambda>w. Inr ([], w)) ` set (wilds c)"

lemma compilePattern_shape:
  "compilePattern p = Inr (ex, wild) \<Longrightarrow> wild \<noteq> [] \<Longrightarrow> ex = []"
  by (auto simp: compilePattern_def Let_def split: if_splits option.splits)

lemma rule_forms_add:
  "rule_forms (c\<lparr>wilds := wilds c @ [w]\<rparr>) = insert (Inr ([], w)) (rule_forms c)"
  "rule_forms (c\<lparr>exact := insert ex (exact c)\<rparr>) = insert (Inr (ex, [])) (rule_forms c)"
  by (auto simp: rule_forms_def)

lemma rule_forms_mem:
  "w \<noteq> [] \<Longrightarrow> Inr ([], w) \<in> rule_forms c \<longleftrightarrow> w \<in> set (wilds c)"
  "[] \<notin> set (wilds c) \<Longrightarrow> Inr (ex, []) \<in> rule_forms c \<longleftrightarrow> ex \<in> exact c"
  by (auto simp: rule_forms_def)

lemma compile_domains_accepts:
  "[] \<notin> set (wilds c) \<Longrightarrow>
   (\<exists>c'. compile_domains i ps c = Inr c') \<longleftrightarrow>
     (\<forall>p \<in> set ps. \<exists>x. compilePattern p = Inr x) \<and> distinct (map compilePattern ps) \<and>
     set (map compilePattern ps) \<inter> rule_forms c = {}"
proof (induction i ps c rule: compile_domains.induct)
  case (2 i p ps c)
  show ?case
  proof (cases "compilePattern p")
    case (Inr x)
    obtain ex wild where x: "x = (ex, wild)" by (cases x)
    show ?thesis
    proof (cases "wild = []")
      case True
      then show ?thesis
        using 2(2) [of x ex wild] 2(3) Inr x
        by (auto simp: rule_forms_add rule_forms_mem)
    next
      case False
      with Inr x have "ex = []" using compilePattern_shape by blast
      with False show ?thesis
        using 2(1) [of x ex wild] 2(3) Inr x
        by (auto simp: rule_forms_add rule_forms_mem)
    qed
  qed simp
qed simp

lemma compile_domains_result:
  "compile_domains i ps c = Inr c' \<Longrightarrow>
     routes c' = routes c \<and>
     (\<forall>host. rule_matches host c' \<longleftrightarrow> rule_matches host c \<or> (\<exists>p \<in> set ps. covers p host))"
proof (induction i ps c rule: compile_domains.induct)
  case (2 i p ps c)
  from 2(3) obtain ex wild where p: "compilePattern p = Inr (ex, wild)"
    by (auto split: sum.splits)
  show ?case
  proof (cases "wild = []")
    case True
    with 2(2) [OF p refl] 2(3) p show ?thesis
      by (auto simp: rule_matches_def compilePattern_covers(1) [OF p] split: if_splits)
  next
    case False
    with 2(1) [OF p refl] 2(3) p show ?thesis
      by (auto simp: rule_matches_def compilePattern_covers(2) [OF p] split: if_splits)
  qed
qed simp

lemma compile_rule_accepts: "(\<exists>c. compile_rule i r = Inr c) \<longleftrightarrow> rule_ok r"
  using compile_domains_accepts
    [of "\<lparr>exact = {}, wilds = [], routes = newSet (Routes r)\<rparr>" i "Domains r"]
  by (auto simp: compile_rule_def rule_ok_def not_isl_iff rule_forms_def split: option.splits
      simp flip: check_routes_None [where i = i and seen = "{}", simplified])

lemma compile_rule_result:
  assumes "compile_rule i r = Inr c"
  shows "routes c = set (Routes r)" and "rule_matches host c \<longleftrightarrow> (\<exists>p \<in> set (Domains r). covers p host)"
  using assms
  by (auto simp: compile_rule_def newSet_def rule_matches_def split: if_splits option.splits
      dest!: compile_domains_result)

lemma compile_rules_accepts: "(\<exists>cs. compile_rules i rs acc = Inr cs) \<longleftrightarrow> list_all rule_ok rs"
proof (induction i rs acc rule: compile_rules.induct)
  case (2 i r rs acc)
  show ?case
  proof (cases "compile_rule i r")
    case (Inl e)
    with compile_rule_accepts [of i r] show ?thesis by auto
  next
    case (Inr c)
    with compile_rule_accepts [of i r] 2 show ?thesis by auto
  qed
qed simp

lemma compile_rules_result:
  "compile_rules i rs acc = Inr cs \<Longrightarrow>
   \<exists>new. cs = acc @ new \<and> list_all2 (\<lambda>r c. \<exists>j. compile_rule j r = Inr c) rs new"
proof (induction i rs acc rule: compile_rules.induct)
  case (2 i r rs acc)
  then obtain c where c: "compile_rule i r = Inr c" by (auto split: sum.splits)
  with 2 obtain new where "cs = (acc @ [c]) @ new"
    and "list_all2 (\<lambda>r c. \<exists>j. compile_rule j r = Inr c) rs new" by auto
  with c show ?case by (intro exI [of _ "c # new"]) auto
qed simp

lemma match_rules_find:
  assumes "list_all2 (\<lambda>r c. \<exists>j. compile_rule j r = Inr c) rs cs"
  shows "match_rules host cs d =
    (case find (\<lambda>r. \<exists>p \<in> set (Domains r). covers p host) rs of
       None \<Rightarrow> d | Some r \<Rightarrow> set (Routes r))"
  using assms
  by (induction rs cs rule: list_all2_induct) (auto dest: compile_rule_result)

section \<open>Properties of the routing policy\<close>

text \<open>a policy compiles exactly when every rule lists patterns and routes, no route id
  twice, only well-formed patterns, and no two patterns with the same normalized form.\<close>

theorem Compile_accepts:
  "(\<exists>r. Compile sp = Inr r) \<longleftrightarrow> list_all rule_ok (Rules sp)"
  using compile_rules_accepts [of 0 "Rules sp" "[]"]
  by (auto simp: Compile_def split: sum.splits)

text \<open>Claim C37: what a compiled policy resolves. A domain target whose name has the hostname
  grammar gets the routes of the first configured rule with a pattern that covers the labels of
  the name, and the default routes when there is none; an address literal and a malformed name
  always get the default routes. So the byte-suffix test of the compiled wildcards never matches
  across a label boundary, and no reordering or deduplication of compilation shows.\<close>

theorem Match_first_covering_rule:
  assumes "Compile sp = Inr r"
  shows "Match (Some r) t =
    (case (if Type t = AddrDomain then matchHost (Host t) else None) of
       None \<Rightarrow> Some (set (DefaultRoutes sp))
     | Some host \<Rightarrow>
         (case find (\<lambda>rule. \<exists>p \<in> set (Domains rule). covers p host) (Rules sp) of
            None \<Rightarrow> Some (set (DefaultRoutes sp))
          | Some rule \<Rightarrow> Some (set (Routes rule))))"
proof -
  from assms obtain cs where cs: "compile_rules 0 (Rules sp) [] = Inr cs"
    and r: "r = \<lparr>rules = cs, defaults = newSet (DefaultRoutes sp)\<rparr>"
    by (auto simp: Compile_def split: sum.splits)
  from compile_rules_result [OF cs]
  have "list_all2 (\<lambda>r c. \<exists>j. compile_rule j r = Inr c) (Rules sp) cs" by simp
  from match_rules_find [OF this] show ?thesis
    by (auto simp: Match_def r newSet_def split: option.splits)
qed

definition demo_spec :: spec where
  "demo_spec = \<lparr>Rules = [\<lparr>Domains = [''Ex.co.'', ''*.b.ex.co''], Routes = [''r1'', ''r2'']\<rparr>,
                        \<lparr>Domains = [''*.ex.co''], Routes = [''r3'']\<rparr>],
                DefaultRoutes = [''r9'']\<rparr>"

definition demo_target :: "string \<Rightarrow> target" where
  "demo_target h = \<lparr>Host = h, Port = 443, Type = AddrDomain\<rparr>"

theorem Match_first_covering_rule_witness:
  "\<exists>r. Compile demo_spec = Inr r \<and>
     Match (Some r) (demo_target ''a.B.ex.co.'') = Some {''r1'', ''r2''} \<and>
     Match (Some r) (demo_target ''w.ex.co'') = Some {''r3''} \<and>
     Match (Some r) (demo_target ''evilex.co'') = Some {''r9''}"
proof -
  have "list_all rule_ok (Rules demo_spec)" by code_simp
  then obtain cs where cs: "compile_rules 0 (Rules demo_spec) [] = Inr cs"
    using compile_rules_accepts by blast
  then have "Compile demo_spec = Inr \<lparr>rules = cs, defaults = newSet (DefaultRoutes demo_spec)\<rparr>"
    by (simp add: Compile_def)
  note m = Match_first_covering_rule [OF this]
  have "matchHost ''a.B.ex.co.'' = Some ''a.b.ex.co''"
    and "matchHost ''w.ex.co'' = Some ''w.ex.co''"
    and "matchHost ''evilex.co'' = Some ''evilex.co''" by code_simp+
  moreover have
    "find (\<lambda>rule. \<exists>p \<in> set (Domains rule). covers p ''a.b.ex.co'') (Rules demo_spec) =
       Some (Rules demo_spec ! 0)"
    "find (\<lambda>rule. \<exists>p \<in> set (Domains rule). covers p ''w.ex.co'') (Rules demo_spec) =
       Some (Rules demo_spec ! 1)"
    "find (\<lambda>rule. \<exists>p \<in> set (Domains rule). covers p ''evilex.co'') (Rules demo_spec) = None"
    by code_simp+
  ultimately show ?thesis
    using \<open>Compile demo_spec = _\<close> m by (simp add: demo_target_def) (simp add: demo_spec_def)
qed

text \<open>the in-place label walk decides the documented hostname grammar: at most 253
  bytes, and every dot-separated label 1 to 63 bytes of lower-case letters, digits and hyphens
  that neither begins nor ends with a hyphen.\<close>

theorem validateHostname_grammar:
  "validateHostname host = None \<longleftrightarrow>
     length host \<le> 253 \<and>
     list_all (\<lambda>l. 1 \<le> length l \<and> length l \<le> 63 \<and> list_all label_char l \<and>
        hd l \<noteq> CHR ''-'' \<and> last l \<noteq> CHR ''-'') (split_on CHR ''.'' host)"
proof -
  have "check_label l = None \<longleftrightarrow> 1 \<le> length l \<and> length l \<le> 63 \<and> list_all label_char l \<and>
      hd l \<noteq> CHR ''-'' \<and> last l \<noteq> CHR ''-''" for l
  proof (cases "l = []")
    case False
    then have "HasPrefix l ''-'' \<longleftrightarrow> hd l = CHR ''-''"
      by (cases l) (auto simp: HasPrefix_def)
    moreover from False have "HasSuffix l ''-'' \<longleftrightarrow> last l = CHR ''-''"
      by (cases l rule: rev_cases) (auto simp: HasSuffix_def)
    ultimately show ?thesis using False
      by (auto simp: check_label_def Suc_le_eq)
  qed (simp add: check_label_def)
  then show ?thesis by (simp add: validateHostname_iff list_all_iff)
qed

end
