(* ===== verification/Identity.thy ===== *)
theory Identity
  imports GoStrings
begin

text \<open>
  Route endpoints and their identity (internal/config/config.go): the SOCKS URL of a route,
  the bare route-line forms, and \<^verbatim>\<open>CanonicalRouteID\<close>, the name under which a reload
  recognises a route it already knows. \<^verbatim>\<open>url.Parse\<close>, whose grammar the Go release decides,
  is the parameter \<open>urlParse\<close> of \<open>parseProxyLine\<close>; the accessors of \<^verbatim>\<open>url.URL\<close> and the
  percent-encoding of its user information are modelled.
\<close>

section \<open>URLs\<close>

datatype egress_kind = EgressV4 | EgressV6

datatype route_origin = RouteOriginUnset | RouteOriginAuto | RouteOriginManual

fun kind_string :: "egress_kind \<Rightarrow> string" where
  "kind_string EgressV4 = ''v4''"
| "kind_string EgressV6 = ''v6''"

fun origin_string :: "route_origin \<Rightarrow> string" where
  "origin_string RouteOriginUnset = []"
| "origin_string RouteOriginAuto = ''auto''"
| "origin_string RouteOriginManual = ''manual''"

record userinfo =
  username :: string
  password :: "string option"

record url =
  Scheme :: string
  User :: "userinfo option"
  url_Host :: string
  Path :: string
  RawQuery :: string
  Fragment :: string

definition validOptionalPort :: "string \<Rightarrow> bool" where
  "validOptionalPort port \<longleftrightarrow> port = [] \<or> (hd port = CHR '':'' \<and> list_all is_digit (tl port))"

text \<open>The last colon splits host from port when what follows it is a port.\<close>

definition last_colon :: "string \<Rightarrow> (string \<times> string) option" where
  "last_colon s =
     (if CHR '':'' \<in> set s
      then Some (rev (tl (dropWhile (\<lambda>c. c \<noteq> CHR '':'') (rev s))),
                 rev (takeWhile (\<lambda>c. c \<noteq> CHR '':'') (rev s)))
      else None)"

definition splitHostPort :: "string \<Rightarrow> string \<times> string" where
  "splitHostPort hostPort =
     (let (host, port) = (case last_colon hostPort of
            Some (h, p) \<Rightarrow> if validOptionalPort (CHR '':'' # p) then (h, p) else (hostPort, [])
          | None \<Rightarrow> (hostPort, []))
      in (if HasPrefix host ''['' \<and> HasSuffix host '']'' then take (length host - 2) (drop 1 host)
          else host, port))"

definition Hostname :: "url \<Rightarrow> string" where
  "Hostname u = fst (splitHostPort (url_Host u))"

definition url_Port :: "url \<Rightarrow> string" where
  "url_Port u = snd (splitHostPort (url_Host u))"

section \<open>User information\<close>

definition shouldEscape :: "char \<Rightarrow> bool" where
  "shouldEscape c \<longleftrightarrow> \<not> (is_lower c \<or> is_upper c \<or> is_digit c \<or> c \<in> set ''-_.~$&+,;='')"

definition hex_digit :: "nat \<Rightarrow> char" where
  "hex_digit n = (if n < 10 then chr (48 + n) else chr (55 + n))"

fun escape :: "string \<Rightarrow> string" where
  "escape [] = []"
| "escape (c # s) =
     (if shouldEscape c then CHR ''%'' # hex_digit (ord c div 16) # hex_digit (ord c mod 16) # escape s
      else c # escape s)"

definition User_String :: "userinfo \<Rightarrow> string" where
  "User_String u =
     (if username u \<noteq> [] \<or> password u \<noteq> None
      then escape (username u) @
           (case password u of None \<Rightarrow> [] | Some pw \<Rightarrow> CHR '':'' # escape pw)
      else [])"

section \<open>Route identity\<close>

definition normalizePort :: "string \<Rightarrow> string" where
  "normalizePort port = (case Atoi port of Some n \<Rightarrow> Itoa n | None \<Rightarrow> port)"

definition CanonicalRouteID :: "url \<Rightarrow> string" where
  "CanonicalRouteID u =
     (let creds = (case User u of None \<Rightarrow> [] | Some ui \<Rightarrow> User_String ui)
      in ToLower (Scheme u) @ ''://'' @ creds @ ''@'' @ ToLower (Hostname u) @ '':'' @
         normalizePort (url_Port u))"

definition effectiveOrigin :: "route_origin \<Rightarrow> route_origin" where
  "effectiveOrigin origin = (if origin = RouteOriginUnset then RouteOriginAuto else origin)"

definition routeKey :: "url \<Rightarrow> egress_kind \<Rightarrow> route_origin \<Rightarrow> string" where
  "routeKey u kind origin =
     CanonicalRouteID u @ ''|'' @ kind_string kind @ ''|'' @ origin_string (effectiveOrigin origin)"

section \<open>Route lines\<close>

datatype line_error =
    LineScheme | LineURL | LineCreds | LineHost | LinePort | LineExtra | LineFormat | PortRange

definition checkPort :: "string \<Rightarrow> line_error option" where
  "checkPort port =
     (case Atoi port of
        None \<Rightarrow> Some PortRange
      | Some n \<Rightarrow> if n < 1 \<or> 65535 < n then Some PortRange else None)"

text \<open>The part after the host is the same in both forms.\<close>

definition split_port_creds :: "string \<Rightarrow> string \<Rightarrow> (string \<times> string \<times> string \<times> string) option" where
  "split_port_creds host rest =
     (let (port, creds, hasCreds) = Cut rest CHR '':'' in
      if port = [] then None
      else if \<not> hasCreds then Some (host, port, [], [])
      else (let (user, pass, ok) = Cut creds CHR '':'' in
        if \<not> ok \<or> user = [] \<or> pass = [] \<or> CHR '':'' \<in> set pass then None
        else Some (host, port, user, pass)))"

definition splitHostPortCreds :: "string \<Rightarrow> (string \<times> string \<times> string \<times> string) option" where
  "splitHostPortCreds line =
     (if HasPrefix line ''['' then
        (let (before, after, found) = Cut line CHR '']'' in
         if \<not> found then None
         else let host = drop 1 before in
           if \<not> HasPrefix after '':'' \<or> host = [] then None
           else split_port_creds host (drop 1 after))
      else
        (let (host, rest, found) = Cut line CHR '':'' in
         if \<not> found \<or> host = [] \<or> CHR '':'' \<in> set host then None
         else split_port_creds host rest))"

definition host_separator :: "char \<Rightarrow> bool" where
  "host_separator c \<longleftrightarrow> c \<in> {CHR '' '', chr 9, CHR ''/'', CHR ''?'', CHR ''#'', CHR ''%'', chr 92}"

definition parseProxyLine :: "(string \<Rightarrow> url option) \<Rightarrow> string \<Rightarrow> line_error + url" where
  "parseProxyLine urlParse line =
     (if Contains line ''://'' then Inl LineScheme
      else if CHR ''@'' \<in> set line then
        (case urlParse (''socks5://'' @ line) of
           None \<Rightarrow> Inl LineURL
         | Some u \<Rightarrow>
             (case User u of
                None \<Rightarrow> Inl LineCreds
              | Some ui \<Rightarrow>
                  if username ui = [] then Inl LineCreds
                  else if password ui = None \<or> password ui = Some [] then Inl LineCreds
                  else if Hostname u = [] then Inl LineHost
                  else if url_Port u = [] then Inl LinePort
                  else if Path u \<noteq> [] \<or> RawQuery u \<noteq> [] \<or> Fragment u \<noteq> [] then Inl LineExtra
                  else (case checkPort (url_Port u) of Some e \<Rightarrow> Inl e | None \<Rightarrow> Inr u)))
      else
        (case splitHostPortCreds line of
           None \<Rightarrow> Inl LineFormat
         | Some (host, port, user, pass) \<Rightarrow>
             if list_ex host_separator host then Inl LineFormat
             else (case checkPort port of
                 Some e \<Rightarrow> Inl e
               | None \<Rightarrow> Inr \<lparr>Scheme = ''socks5'',
                   User = (if user \<noteq> [] then Some \<lparr>username = user, password = Some pass\<rparr> else None),
                   url_Host = JoinHostPort host port, Path = [], RawQuery = [], Fragment = []\<rparr>)))"

text \<open>\<^verbatim>\<open>RouteSpec\<close> of internal/config/runtime.go: one validated serving route.\<close>

record route_spec =
  spec_ID :: string
  spec_URL :: url
  spec_Kind :: egress_kind
  spec_Origin :: route_origin

datatype route_error =
    KindInvalid | BadLine line_error
  | SchemeUnsupported | MissingHost | MissingPort | ExtraParts | BadPort line_error

definition validateProxyURL :: "url \<Rightarrow> route_error option" where
  "validateProxyURL u =
     (if Scheme u \<noteq> ''socks5'' then Some SchemeUnsupported
      else if Hostname u = [] then Some MissingHost
      else if url_Port u = [] then Some MissingPort
      else if Path u \<noteq> [] \<or> RawQuery u \<noteq> [] \<or> Fragment u \<noteq> [] then Some ExtraParts
      else map_option BadPort (checkPort (url_Port u)))"

definition parseKind :: "string \<Rightarrow> egress_kind option" where
  "parseKind kind = (if kind = ''v4'' then Some EgressV4 else if kind = ''v6'' then Some EgressV6 else None)"

definition parseKindedProxy :: "(string \<Rightarrow> url option) \<Rightarrow> string \<Rightarrow> string \<Rightarrow> route_error + route_spec" where
  "parseKindedProxy urlParse proxy kind =
     (case parseKind kind of
        None \<Rightarrow> Inl KindInvalid
      | Some parsed \<Rightarrow>
          (case parseProxyLine urlParse proxy of
             Inl e \<Rightarrow> Inl (BadLine e)
           | Inr u \<Rightarrow>
               (case validateProxyURL u of
                  Some e \<Rightarrow> Inl e
                | None \<Rightarrow> Inr \<lparr>spec_ID = [], spec_URL = u, spec_Kind = parsed,
                                spec_Origin = RouteOriginUnset\<rparr>)))"

section \<open>Encoding lemmas\<close>

lemma hex_digit_inject: "m < 16 \<Longrightarrow> n < 16 \<Longrightarrow> hex_digit m = hex_digit n \<longleftrightarrow> m = n"
proof -
  assume "m < 16" "n < 16"
  then have "ord (hex_digit m) = (if m < 10 then 48 + m else 55 + m)"
    and "ord (hex_digit n) = (if n < 10 then 48 + n else 55 + n)"
    by (simp_all add: hex_digit_def ord_chr)
  then have "ord (hex_digit m) = ord (hex_digit n) \<longleftrightarrow> m = n" using \<open>m < 16\<close> \<open>n < 16\<close> by auto
  then show ?thesis by (simp add: ord_inject)
qed

lemma hex_digit_class: "n < 16 \<Longrightarrow> is_digit (hex_digit n) \<or> is_upper (hex_digit n)"
  by (auto simp: hex_digit_def is_digit_def is_upper_def ord_chr)

lemma shouldEscape_percent: "shouldEscape (CHR ''%'')"
  by (simp add: shouldEscape_def is_lower_def is_upper_def is_digit_def ord_def)

lemma escape_inject: "escape s = escape t \<longleftrightarrow> s = t"
proof
  show "escape s = escape t \<Longrightarrow> s = t"
  proof (induction s arbitrary: t)
    case Nil
    then show ?case by (cases t) (auto split: if_splits)
  next
    case (Cons c s)
    obtain d t' where t: "t = d # t'" using Cons.prems by (cases t) (auto split: if_splits)
    have bound: "ord x div 16 < 16" "ord x mod 16 < 16" for x
      using ord_less [of x] by auto
    show ?case
    proof (cases "shouldEscape c")
      case True
      then have "shouldEscape d"
        using Cons.prems t shouldEscape_percent by (auto split: if_splits)
      with True Cons.prems t have "hex_digit (ord c div 16) = hex_digit (ord d div 16)"
        "hex_digit (ord c mod 16) = hex_digit (ord d mod 16)" "escape s = escape t'" by auto
      then have "ord c = ord d" and "s = t'"
        using Cons.IH bound by (metis hex_digit_inject mod_mult_div_eq, metis Cons.IH)
      then show ?thesis by (simp add: t ord_inject)
    next
      case False
      then have "\<not> shouldEscape d"
        using Cons.prems t shouldEscape_percent by (auto split: if_splits)
      with False Cons t show ?thesis by simp
    qed
  qed
qed simp

lemma escape_chars: "c \<in> set (escape s) \<Longrightarrow> c = CHR ''%'' \<or> \<not> shouldEscape c"
proof (induction s)
  case (Cons d s)
  have "\<not> shouldEscape (hex_digit n)" if "n < 16" for n
    using hex_digit_class [OF that] by (auto simp: shouldEscape_def)
  moreover have "ord d div 16 < 16" "ord d mod 16 < 16" using ord_less [of d] by auto
  ultimately show ?case using Cons by (auto split: if_splits)
qed simp

lemma escape_no_sep: "CHR '':'' \<notin> set (escape s)" "CHR ''@'' \<notin> set (escape s)"
  using escape_chars [of "CHR '':''" s] escape_chars [of "CHR ''@''" s]
  by (auto simp: shouldEscape_def is_lower_def is_upper_def is_digit_def ord_def)

lemma escape_Nil [simp]: "escape s = [] \<longleftrightarrow> s = []"
  by (cases s) auto

text \<open>An absent user and an empty one without a password are the same identity.\<close>

definition norm_user :: "userinfo option \<Rightarrow> (string \<times> string option) option" where
  "norm_user u = (case u of None \<Rightarrow> None
     | Some ui \<Rightarrow> if username ui = [] \<and> password ui = None then None
                 else Some (username ui, password ui))"

definition creds_of :: "userinfo option \<Rightarrow> string" where
  "creds_of u = (case u of None \<Rightarrow> [] | Some ui \<Rightarrow> User_String ui)"

lemma first_sep_unique:
  "x \<notin> set a \<Longrightarrow> x \<notin> set c \<Longrightarrow> a @ x # b = c @ x # d \<longleftrightarrow> a = c \<and> b = d"
proof (induction a arbitrary: c)
  case Nil
  then show ?case by (cases c) auto
next
  case (Cons y a)
  then show ?case by (cases c) auto
qed

lemma last_sep_unique:
  "x \<notin> set b \<Longrightarrow> x \<notin> set d \<Longrightarrow> a @ x # b = c @ x # d \<longleftrightarrow> a = c \<and> b = d"
proof -
  assume "x \<notin> set b" "x \<notin> set d"
  then have "rev b @ x # rev a = rev d @ x # rev c \<longleftrightarrow> rev b = rev d \<and> rev a = rev c"
    by (intro first_sep_unique) auto
  moreover have "a @ x # b = c @ x # d \<longleftrightarrow> rev b @ x # rev a = rev d @ x # rev c"
    by (metis append.assoc append_Cons append_Nil rev.simps(2) rev_append rev_rev_ident)
  ultimately show ?thesis by auto
qed

lemma creds_of_inject: "creds_of u = creds_of v \<longleftrightarrow> norm_user u = norm_user v"
proof -
  have esc: "escape a @ CHR '':'' # x = escape b @ CHR '':'' # y \<longleftrightarrow> a = b \<and> x = y" for a b x y
    using first_sep_unique [OF escape_no_sep(1) escape_no_sep(1)] escape_inject by metis
  have ne: "escape a \<noteq> escape b @ CHR '':'' # x" for a b x
    using escape_no_sep(1) [of a] by (metis in_set_conv_decomp)
  show ?thesis
    by (auto simp: creds_of_def norm_user_def User_String_def escape_inject esc ne ne [symmetric]
        split: option.splits)
qed

lemma creds_no_at: "CHR ''@'' \<notin> set (creds_of u)"
  by (auto simp: creds_of_def User_String_def escape_no_sep split: option.splits)

section \<open>Ports and hosts\<close>

lemma last_colon_Some: "last_colon s = Some (h, p) \<longleftrightarrow> s = h @ CHR '':'' # p \<and> CHR '':'' \<notin> set p"
proof -
  have split: "\<exists>h p. t = h @ CHR '':'' # p \<and> CHR '':'' \<notin> set p" if "CHR '':'' \<in> set t" for t
    using that by (metis split_list_last)
  have char: "last_colon (h @ CHR '':'' # p) = Some (h, p)" if "CHR '':'' \<notin> set p" for h p
  proof -
    have all: "\<forall>c \<in> set (rev p). c \<noteq> CHR '':''" using that by auto
    then have "dropWhile (\<lambda>c. c \<noteq> CHR '':'') (rev p @ CHR '':'' # rev h) = CHR '':'' # rev h"
      and "takeWhile (\<lambda>c. c \<noteq> CHR '':'') (rev p @ CHR '':'' # rev h) = rev p"
      using drop_take_While_sep [of "rev p" "\<lambda>c. c \<noteq> CHR '':''" "CHR '':''" "rev h"] by blast+
    then show ?thesis by (simp add: last_colon_def)
  qed
  show ?thesis
  proof
    assume l: "last_colon s = Some (h, p)"
    then have "CHR '':'' \<in> set s" by (auto simp: last_colon_def split: if_splits)
    then obtain h' p' where s: "s = h' @ CHR '':'' # p'" "CHR '':'' \<notin> set p'" using split by blast
    with char [of p' h'] l show "s = h @ CHR '':'' # p \<and> CHR '':'' \<notin> set p" by simp
  qed (auto simp: char)
qed

lemma url_Port_digits: "list_all is_digit (url_Port u)"
  by (auto simp: url_Port_def splitHostPort_def validOptionalPort_def Let_def split: option.splits)

lemma colon_not_digit: "\<not> is_digit (CHR '':'')"
  by (simp add: is_digit_def ord_def)

lemma Atoi_digits:
  assumes "list_all is_digit p" and "Atoi p = Some n"
  shows "0 \<le> n" and "n = int (digits_val p)"
proof -
  have "p = [] \<or> is_digit (hd p)" using assms(1) by (cases p) auto
  moreover have "\<not> is_digit (CHR ''-'')" "\<not> is_digit (CHR ''+'')"
    by (simp_all add: is_digit_def ord_def)
  ultimately have "\<not> (p \<noteq> [] \<and> hd p = CHR ''-'')" "\<not> (p \<noteq> [] \<and> (hd p = CHR ''-'' \<or> hd p = CHR ''+''))"
    by metis+
  then show "n = int (digits_val p)"
    using assms(2) by (auto simp: Atoi_def Let_def split: if_splits)
  then show "0 \<le> n" by simp
qed

lemma normalizePort_no_colon: "list_all is_digit p \<Longrightarrow> CHR '':'' \<notin> set (normalizePort p)"
proof -
  assume d: "list_all is_digit p"
  have nc: "CHR '':'' \<notin> set q" if "list_all is_digit q" for q
    using that colon_not_digit by (auto simp: list_all_iff)
  show ?thesis
  proof (cases "Atoi p")
    case None
    then show ?thesis using nc [OF d] by (simp add: normalizePort_def)
  next
    case (Some n)
    then show ?thesis
      using nc [OF digits_of_digits [of "nat n"]] Atoi_digits(1) [OF d Some]
      by (simp add: normalizePort_def Itoa_def)
  qed
qed

lemma CanonicalRouteID_eq:
  assumes "ToLower (Scheme u) = ToLower (Scheme v)"
  shows "CanonicalRouteID u = CanonicalRouteID v \<longleftrightarrow>
    norm_user (User u) = norm_user (User v) \<and>
    ToLower (Hostname u) = ToLower (Hostname v) \<and>
    normalizePort (url_Port u) = normalizePort (url_Port v)"
proof -
  have id: "CanonicalRouteID w = ToLower (Scheme w) @ ''://'' @ creds_of (User w) @ CHR ''@'' #
      (ToLower (Hostname w) @ CHR '':'' # normalizePort (url_Port w))" for w
    by (simp add: CanonicalRouteID_def creds_of_def split: option.splits)
  show ?thesis
    unfolding id
    using assms creds_no_at normalizePort_no_colon [OF url_Port_digits]
    by (simp add: first_sep_unique last_sep_unique creds_of_inject)
qed

lemma routeKey_eq:
  "routeKey u k o1 = routeKey v l o2 \<longleftrightarrow>
     CanonicalRouteID u = CanonicalRouteID v \<and> k = l \<and> effectiveOrigin o1 = effectiveOrigin o2"
proof -
  have nb: "CHR ''|'' \<notin> set (origin_string o1)" "CHR ''|'' \<notin> set (kind_string k)" for o1 k
    by (cases o1; simp) (cases k; simp)
  have inj: "kind_string k = kind_string l \<longleftrightarrow> k = l" "origin_string a = origin_string b \<longleftrightarrow> a = b" for k l a b
    by (cases k; cases l; simp) (cases a; cases b; simp)
  have key: "routeKey u k o1 =
      (CanonicalRouteID u @ CHR ''|'' # kind_string k) @ CHR ''|'' # origin_string (effectiveOrigin o1)"
    for u k o1 by (simp add: routeKey_def)
  show ?thesis
    unfolding key last_sep_unique [OF nb(1) nb(1)] last_sep_unique [OF nb(2) nb(2)] inj by auto
qed

lemma checkPort_digits:
  assumes "list_all is_digit p" and "checkPort p = None"
  shows "1 \<le> digits_val p" and "digits_val p \<le> 65535" and "normalizePort p = digits_of (digits_val p)"
  using assms Atoi_digits [OF assms(1)]
  by (auto simp: checkPort_def normalizePort_def Itoa_def split: option.splits if_splits)

lemma validateProxyURL_None:
  assumes "validateProxyURL u = None"
  shows "Scheme u = ''socks5''" and "Hostname u \<noteq> []" and "checkPort (url_Port u) = None"
    and "Path u = [] \<and> RawQuery u = [] \<and> Fragment u = []"
  using assms by (auto simp: validateProxyURL_def split: if_splits)

lemma split_port_creds_parts:
  assumes "split_port_creds h rest = Some (host, port, user, pass)"
  shows "host = h" and "port \<noteq> []" and "CHR '':'' \<notin> set port" and "user = [] \<longleftrightarrow> pass = []"
    and "rest = (if user = [] then port else port @ CHR '':'' # user @ CHR '':'' # pass)"
  using assms
  by (auto simp: split_port_creds_def Cut_found Cut_not_found split: prod.splits if_splits)

lemma split_host_shape:
  assumes "splitHostPortCreds line = Some (host, port, user, pass)"
  shows "host \<noteq> []" and "port \<noteq> []" and "CHR '':'' \<notin> set port"
    and "\<not> (HasPrefix host ''['' \<and> HasSuffix host '']'')"
proof -
  have "\<exists>rest. split_port_creds host rest = Some (host, port, user, pass) \<and> host \<noteq> [] \<and>
      \<not> (HasPrefix host ''['' \<and> HasSuffix host '']'')"
  proof (cases "HasPrefix line ''[''")
    case True
    then obtain before after where cut: "Cut line CHR '']'' = (before, after, True)"
      and h: "drop 1 before \<noteq> []"
      and sp: "split_port_creds (drop 1 before) (drop 1 after) = Some (host, port, user, pass)"
      using assms by (auto simp: splitHostPortCreds_def Let_def split: prod.splits if_splits)
    from split_port_creds_parts(1) [OF sp] have host: "host = drop 1 before" .
    from cut have "CHR '']'' \<notin> set before" by (simp add: Cut_found)
    then have "\<not> HasSuffix host '']''"
      unfolding host by (metis HasSuffix_iff in_set_conv_decomp in_set_dropD)
    with sp h host show ?thesis by blast
  next
    case False
    then obtain h rest where cut: "Cut line CHR '':'' = (h, rest, True)" and h: "h \<noteq> []"
      and sp: "split_port_creds h rest = Some (host, port, user, pass)"
      using assms by (auto simp: splitHostPortCreds_def Let_def split: prod.splits if_splits)
    from split_port_creds_parts(1) [OF sp] have host: "host = h" .
    from cut have "line = h @ CHR '':'' # rest" by (simp add: Cut_found)
    then have "\<not> HasPrefix h ''[''" using False by (auto simp: HasPrefix_iff)
    with sp h host show ?thesis by blast
  qed
  then show "host \<noteq> []" and "port \<noteq> []" and "CHR '':'' \<notin> set port"
    and "\<not> (HasPrefix host ''['' \<and> HasSuffix host '']'')"
    using split_port_creds_parts by blast+
qed

lemma splitHostPort_Join:
  assumes "CHR '':'' \<notin> set port" and "\<not> (HasPrefix host ''['' \<and> HasSuffix host '']'')"
    and "snd (splitHostPort (JoinHostPort host port)) \<noteq> []"
  shows "splitHostPort (JoinHostPort host port) = (host, port)"
proof (cases "CHR '':'' \<in> set host")
  case True
  have "last_colon (CHR ''['' # host @ '']:'' @ port) = Some (CHR ''['' # host @ '']'', port)"
    using assms(1) by (simp add: last_colon_Some)
  moreover have "HasPrefix (CHR ''['' # host @ '']'') ''[''" "HasSuffix (CHR ''['' # host @ '']'') '']''"
    by (auto simp: HasPrefix_iff HasSuffix_iff)
  ultimately show ?thesis using assms(3) True
    by (auto simp: splitHostPort_def JoinHostPort_def split: if_splits)
next
  case False
  have "last_colon (host @ '':'' @ port) = Some (host, port)"
    using assms(1) by (simp add: last_colon_Some)
  with assms False show ?thesis
    by (auto simp: splitHostPort_def JoinHostPort_def split: if_splits)
qed

section \<open>Properties of route identity\<close>

text \<open>two validated routes are one route for a reload and for duplicate detection
  exactly when they have the same decoded credentials, the same host up to case, the same port
  number whatever its spelling, the same egress kind and the same effective origin. The
  re-encoding of the credentials keeps a user name with a colon apart from a user and password.\<close>

theorem routeKey_identity:
  assumes "validateProxyURL u = None" and "validateProxyURL v = None"
  shows "routeKey u k o1 = routeKey v l o2 \<longleftrightarrow>
    norm_user (User u) = norm_user (User v) \<and>
    ToLower (Hostname u) = ToLower (Hostname v) \<and>
    digits_val (url_Port u) = digits_val (url_Port v) \<and>
    k = l \<and> effectiveOrigin o1 = effectiveOrigin o2"
proof -
  note port = checkPort_digits(3) [OF url_Port_digits validateProxyURL_None(3)]
  have "digits_of m = digits_of n \<longleftrightarrow> m = n" for m n by (metis digits_val_digits_of)
  then show ?thesis
    using CanonicalRouteID_eq [of u v] validateProxyURL_None(1) assms port
    by (auto simp: routeKey_eq)
qed

definition demo_url :: "userinfo option \<Rightarrow> string \<Rightarrow> url" where
  "demo_url u h = \<lparr>Scheme = ''socks5'', User = u, url_Host = h, Path = [], RawQuery = [], Fragment = []\<rparr>"

theorem routeKey_identity_witness:
  "routeKey (demo_url (Some \<lparr>username = ''u:v'', password = None\<rparr>) ''h:1'') EgressV4 RouteOriginAuto \<noteq>
   routeKey (demo_url (Some \<lparr>username = ''u'', password = Some ''v''\<rparr>) ''h:1'') EgressV4 RouteOriginAuto \<and>
   routeKey (demo_url None ''H:0080'') EgressV6 RouteOriginUnset =
   routeKey (demo_url None ''h:80'') EgressV6 RouteOriginAuto"
proof -
  have v: "validateProxyURL (demo_url (Some \<lparr>username = ''u:v'', password = None\<rparr>) ''h:1'') = None"
    "validateProxyURL (demo_url (Some \<lparr>username = ''u'', password = Some ''v''\<rparr>) ''h:1'') = None"
    "validateProxyURL (demo_url None ''H:0080'') = None" "validateProxyURL (demo_url None ''h:80'') = None"
    by code_simp+
  have n: "norm_user (Some \<lparr>username = ''u:v'', password = None\<rparr>) \<noteq>
      norm_user (Some \<lparr>username = ''u'', password = Some ''v''\<rparr>)"
    "ToLower (Hostname (demo_url None ''H:0080'')) = ToLower (Hostname (demo_url None ''h:80''))"
    "digits_val (url_Port (demo_url None ''H:0080'')) = digits_val (url_Port (demo_url None ''h:80''))"
    by code_simp+
  show ?thesis
    unfolding routeKey_identity [OF v(1,2)] routeKey_identity [OF v(3,4)]
    using n by (simp add: demo_url_def effectiveOrigin_def)
qed

text \<open>a bare route line that is accepted is read as its parts say. The accessors of
  the URL that is dialled and that names the route return exactly the host, port and credentials
  of the line, in the bracketed form too, and the port is a number from 1 to 65535.\<close>

theorem parseKindedProxy_bare:
  assumes "parseKindedProxy urlParse line kind = Inr r" and "CHR ''@'' \<notin> set line"
  shows "\<exists>user pass. splitHostPortCreds line =
        Some (Hostname (spec_URL r), url_Port (spec_URL r), user, pass) \<and>
      User (spec_URL r) = (if user = [] then None else Some \<lparr>username = user, password = Some pass\<rparr>) \<and>
      Hostname (spec_URL r) \<noteq> [] \<and>
      1 \<le> digits_val (url_Port (spec_URL r)) \<and> digits_val (url_Port (spec_URL r)) \<le> 65535 \<and>
      list_all is_digit (url_Port (spec_URL r)) \<and>
      kind = kind_string (spec_Kind r)"
proof -
  define u where "u = spec_URL r"
  from assms obtain host port user pass
    where sp: "splitHostPortCreds line = Some (host, port, user, pass)"
      and host: "url_Host u = JoinHostPort host port"
      and user: "User u = (if user = [] then None else Some \<lparr>username = user, password = Some pass\<rparr>)"
      and valid: "validateProxyURL u = None" and kind: "parseKind kind = Some (spec_Kind r)"
    by (auto simp: parseKindedProxy_def parseProxyLine_def u_def split: option.splits sum.splits if_splits)
  from valid have "url_Port u \<noteq> []" by (auto simp: validateProxyURL_def split: if_splits)
  then have "snd (splitHostPort (JoinHostPort host port)) \<noteq> []" by (simp add: url_Port_def host)
  from splitHostPort_Join [OF split_host_shape(3,4) [OF sp] this]
  have acc: "Hostname u = host" "url_Port u = port" by (simp_all add: Hostname_def url_Port_def host)
  from kind have "kind = kind_string (spec_Kind r)"
    by (auto simp: parseKind_def split: if_splits)
  with acc sp user checkPort_digits(1,2) [OF url_Port_digits validateProxyURL_None(3) [OF valid]]
    split_host_shape(1) [OF sp] url_Port_digits [of u]
  show ?thesis unfolding u_def by metis
qed

theorem parseKindedProxy_bare_witness:
  "\<exists>r. parseKindedProxy (\<lambda>s. None) ''[::1]:1080:me:pw'' ''v6'' = Inr r \<and>
     Hostname (spec_URL r) = ''::1'' \<and> digits_val (url_Port (spec_URL r)) = 1080"
proof -
  have "\<not> isl (parseKindedProxy (\<lambda>s. None) ''[::1]:1080:me:pw'' ''v6'')" by code_simp
  then obtain r where r: "parseKindedProxy (\<lambda>s. None) ''[::1]:1080:me:pw'' ''v6'' = Inr r"
    by (auto simp: isl_def) (metis sum.exhaust)
  from parseKindedProxy_bare [OF this] obtain user pass where
    "splitHostPortCreds ''[::1]:1080:me:pw'' = Some (Hostname (spec_URL r), url_Port (spec_URL r), user, pass)"
    by auto
  moreover have "splitHostPortCreds ''[::1]:1080:me:pw'' = Some (''::1'', ''1080'', ''me'', ''pw'')"
    by code_simp
  moreover have "digits_val ''1080'' = 1080" by code_simp
  ultimately show ?thesis using r by auto
qed

end
