(* ===== verification/Settings.thy ===== *)
theory Settings
  imports Routing Identity
begin

text \<open>
  The validated runtime configuration (the types of internal/config/runtime.go), as the pool,
  the serving path, the warm pool and the rotation engine read it, and the concurrency cap of
  the rotation cycle. How the values are parsed and validated is in theory Config.
\<close>

record rotate_api =
  api_URL :: string
  api_Method :: string
  api_Headers :: "(string \<times> string) list"
  api_Body :: string
  api_Timeout :: duration

record manual_route_spec =
  RouteSpec :: route_spec
  RotateInterval :: duration
  API :: rotate_api

record rotation_settings =
  MaxConcurrentFixed :: "int option"
  MaxConcurrentPercent :: "int option"
  DrainTimeout :: duration
  RotateOnStart :: bool
  IPCheckURL :: string
  IPCheckTimeout :: duration
  IPCheckInterval :: duration
  RetryBackoffMax :: duration

record warm_settings =
  Enabled :: bool
  MinIdlePerProxy :: int
  MaxIdlePerProxy :: int
  MaxTotalIdle :: int
  MaxReplenishConcurrency :: int
  MaxReplenishPerRoute :: int
  IdleTTL :: duration

record runtime_config =
  MaxRetries :: int
  CooldownBase :: duration
  CooldownMax :: duration
  DialTimeout :: duration
  LogLevel :: string
  Routes_auto :: "route_spec list"
  ManualRoutes :: "manual_route_spec list"
  Rotation :: rotation_settings
  WarmPool :: warm_settings
  Routing :: "router option"

definition AllRoutes :: "runtime_config \<Rightarrow> route_spec list" where
  "AllRoutes c = Routes_auto c @ map RouteSpec (ManualRoutes c)"

definition ResolveMaxConcurrent :: "rotation_settings \<Rightarrow> int \<Rightarrow> int" where
  "ResolveMaxConcurrent r n =
     (if n \<le> 0 then 0
      else let limit =
             (case MaxConcurrentFixed r of
                Some f \<Rightarrow> f
              | None \<Rightarrow>
                  (case MaxConcurrentPercent r of
                     Some p \<Rightarrow> quot64 (wrap64 (wrap64 (n * p) + 99)) 100
                   | None \<Rightarrow> 1));
             limit = (if limit < 1 then 1 else limit)
           in if n < limit then n else limit)"

text \<open>the rotation cap. With at least one manual route it is between 1 and the number
  of routes; a percentage is rounded up, so it never rounds a non-empty pool down to nothing.\<close>

theorem ResolveMaxConcurrent_range:
  assumes "0 < n"
  shows "1 \<le> ResolveMaxConcurrent r n \<and> ResolveMaxConcurrent r n \<le> n \<and>
    (MaxConcurrentFixed r = None \<longrightarrow> (\<forall>p. MaxConcurrentPercent r = Some p \<longrightarrow>
       0 \<le> p \<longrightarrow> p \<le> 100 \<longrightarrow> n \<le> 92233720368547757 \<longrightarrow>
       n * p \<le> 100 * ResolveMaxConcurrent r n \<and>
       100 * (ResolveMaxConcurrent r n - 1) < max 1 (n * p)))"
proof -
  have exact: "n * p \<le> 100 * ResolveMaxConcurrent r n \<and>
      100 * (ResolveMaxConcurrent r n - 1) < max 1 (n * p)"
    if "MaxConcurrentFixed r = None" "MaxConcurrentPercent r = Some p" "0 \<le> p" "p \<le> 100"
      "n \<le> 92233720368547757" for p
  proof -
    have np: "0 \<le> n * p" "n * p \<le> n * 100"
      using assms that(3,4) by (simp_all add: mult_left_mono)
    then have w: "wrap64 (n * p) = n * p" "wrap64 (n * p + 99) = n * p + 99"
      using that(5) by (simp_all add: wrap64_id min_int64_def max_int64_def)
    have q: "quot64 (n * p + 99) 100 = (n * p + 99) div 100"
      using np by (simp add: quot64_def)
    have "(n * p + 99) div 100 \<le> n" using np by linarith
    then have "ResolveMaxConcurrent r n = max 1 ((n * p + 99) div 100)"
      using assms that(1,2) by (simp add: ResolveMaxConcurrent_def w q max_def)
    then show ?thesis using np by (simp add: max_def) linarith
  qed
  show ?thesis using assms exact by (auto simp: ResolveMaxConcurrent_def Let_def)
qed

definition demo_percent :: rotation_settings where
  "demo_percent = \<lparr>MaxConcurrentFixed = None, MaxConcurrentPercent = Some 25, DrainTimeout = 1,
     RotateOnStart = False, IPCheckURL = [], IPCheckTimeout = 1, IPCheckInterval = 1, RetryBackoffMax = 1\<rparr>"

theorem ResolveMaxConcurrent_range_witness:
  "10 * 25 \<le> 100 * ResolveMaxConcurrent demo_percent 10 \<and>
   100 * (ResolveMaxConcurrent demo_percent 10 - 1) < max 1 (10 * 25)"
  using ResolveMaxConcurrent_range [of 10 demo_percent] by (simp add: demo_percent_def)

definition demo_config :: runtime_config where
  "demo_config = \<lparr>MaxRetries = 3, CooldownBase = second, CooldownMax = 60 * second,
     DialTimeout = 10 * second, LogLevel = ''info'', Routes_auto = [], ManualRoutes = [],
     Rotation = demo_percent,
     WarmPool = \<lparr>Enabled = True, MinIdlePerProxy = 1, MaxIdlePerProxy = 2, MaxTotalIdle = 64,
       MaxReplenishConcurrency = 2, MaxReplenishPerRoute = 0, IdleTTL = 45 * second\<rparr>,
     Routing = None\<rparr>"

end
