(* ===== verification/Egress.thy ===== *)
theory Egress
  imports GoStrings
begin

text \<open>
  Egress addresses (internal/pool/pool.go: \<^verbatim>\<open>IPIdentity\<close>, \<^verbatim>\<open>CanonicalIP\<close>, \<^verbatim>\<open>SameIP\<close>) over a
  model of the address functions of Go's \<^verbatim>\<open>net\<close> and \<^verbatim>\<open>netip\<close>: \<open>ParseIP\<close> and the RFC 5952
  text form. The 16 bytes of an address are its eight 16-bit groups.
\<close>

type_synonym ip_key = "nat list"

definition valid_key :: "ip_key \<Rightarrow> bool" where
  "valid_key k \<longleftrightarrow> length k = 8 \<and> (\<forall>g \<in> set k. g < 65536)"

section \<open>Parsing\<close>

text \<open>One octet of a dotted quad: digits only, no leading zero, at most 255.\<close>

definition parse_octet :: "string \<Rightarrow> nat option" where
  "parse_octet s =
     (if s = [] \<or> \<not> list_all is_digit s then None
      else if hd s = CHR ''0'' \<and> length s > 1 then None
      else if digits_val s > 255 then None
      else Some (digits_val s))"

text \<open>\<^verbatim>\<open>parseIPv4Fields\<close>: exactly four octets.\<close>

definition parseIPv4Fields :: "string \<Rightarrow> (nat \<times> nat \<times> nat \<times> nat) option" where
  "parseIPv4Fields s =
     (case map parse_octet (split_on CHR ''.'' s) of
        [Some a, Some b, Some c, Some d] \<Rightarrow> Some (a, b, c, d)
      | _ \<Rightarrow> None)"

definition v4_groups :: "nat \<times> nat \<times> nat \<times> nat \<Rightarrow> nat list" where
  "v4_groups q = (case q of (a, b, c, d) \<Rightarrow> [a * 256 + b, c * 256 + d])"

definition hex_val :: "char \<Rightarrow> nat option" where
  "hex_val c =
     (if is_digit c then Some (ord c - 48)
      else if 97 \<le> ord c \<and> ord c \<le> 102 then Some (ord c - 87)
      else if 65 \<le> ord c \<and> ord c \<le> 70 then Some (ord c - 55)
      else None)"

definition is_hex :: "char \<Rightarrow> bool" where
  "is_hex c \<longleftrightarrow> hex_val c \<noteq> None"

definition hex_value :: "string \<Rightarrow> nat" where
  "hex_value s = foldl (\<lambda>n c. n * 16 + the (hex_val c)) 0 s"

text \<open>
  The group loop of \<^verbatim>\<open>netip.parseIPv6\<close>. \<open>done\<close> holds the groups read so far, \<open>ell\<close> the position
  of the \<^verbatim>\<open>::\<close>. The result is the groups, the position and the unread rest.
\<close>

function parse_groups :: "nat list \<Rightarrow> nat option \<Rightarrow> string \<Rightarrow> (nat list \<times> nat option \<times> string) option" where
  "parse_groups acc ell s =
     (if 8 \<le> length acc then Some (acc, ell, s)
      else let g = takeWhile is_hex s; r = dropWhile is_hex s in
        if g = [] \<or> 4 < length g then None
        else if r \<noteq> [] \<and> hd r = CHR ''.'' then
          (if ell = None \<and> length acc \<noteq> 6 then None
           else if 8 < length acc + 2 then None
           else (case parseIPv4Fields s of
               None \<Rightarrow> None
             | Some q \<Rightarrow> Some (acc @ v4_groups q, ell, [])))
        else (case r of
            [] \<Rightarrow> Some (acc @ [hex_value g], ell, [])
          | c # r' \<Rightarrow>
              if c \<noteq> CHR '':'' \<or> r' = [] then None
              else if hd r' = CHR '':'' then
                (if ell \<noteq> None then None
                 else if tl r' = [] then Some (acc @ [hex_value g], Some (length acc + 1), [])
                 else parse_groups (acc @ [hex_value g]) (Some (length acc + 1)) (tl r'))
              else parse_groups (acc @ [hex_value g]) ell r'))"
  by pat_completeness auto
termination
  by (relation "measure (\<lambda>(acc, ell, s). 8 - length acc)") auto

declare parse_groups.simps [simp del]

definition parseIPv6 :: "string \<Rightarrow> ip_key option" where
  "parseIPv6 s =
     (if CHR ''%'' \<in> set s then None
      else
        (let lead = HasPrefix s ''::''; body = (if lead then drop 2 s else s);
             ell = (if lead then Some 0 else None)
         in if lead \<and> body = [] then Some (replicate 8 0)
            else (case parse_groups [] ell body of
                None \<Rightarrow> None
              | Some (gs, ell, rest) \<Rightarrow>
                  if rest \<noteq> [] then None
                  else if length gs < 8 then
                    (case ell of
                       None \<Rightarrow> None
                     | Some e \<Rightarrow> Some (take e gs @ replicate (8 - length gs) 0 @ drop e gs))
                  else if ell \<noteq> None then None
                  else Some gs)))"

text \<open>\<^verbatim>\<open>netip.ParseAddr\<close> decides the family by the first of the three marks it meets; a zone is
  refused by \<^verbatim>\<open>net.ParseIP\<close>. An IPv4 address is its IPv4-mapped 16-byte form.\<close>

definition addr_mark :: "char \<Rightarrow> bool" where
  "addr_mark c \<longleftrightarrow> c = CHR ''.'' \<or> c = CHR '':'' \<or> c = CHR ''%''"

definition v4_prefix :: "nat list" where
  "v4_prefix = [0, 0, 0, 0, 0, 65535]"

definition ParseIP :: "string \<Rightarrow> ip_key option" where
  "ParseIP s =
     (case dropWhile (\<lambda>c. \<not> addr_mark c) s of
        [] \<Rightarrow> None
      | c # _ \<Rightarrow>
          if c = CHR ''.'' then map_option (\<lambda>q. v4_prefix @ v4_groups q) (parseIPv4Fields s)
          else if c = CHR '':'' then parseIPv6 s
          else None)"

section \<open>The text form\<close>

definition hex_char :: "nat \<Rightarrow> char" where
  "hex_char n = (if n < 10 then chr (48 + n) else chr (87 + n))"

fun hex_of :: "nat \<Rightarrow> string" where
  "hex_of n = (if n < 16 then [hex_char n] else hex_of (n div 16) @ [hex_char (n mod 16)])"

declare hex_of.simps [simp del]

fun zero_run :: "nat list \<Rightarrow> nat" where
  "zero_run [] = 0"
| "zero_run (g # gs) = (if g = 0 then Suc (zero_run gs) else 0)"

text \<open>The first longest run of at least two zero groups, as (start, end).\<close>

fun longest_zeros :: "nat \<Rightarrow> nat list \<Rightarrow> (nat \<times> nat) option \<Rightarrow> (nat \<times> nat) option" where
  "longest_zeros i [] best = best"
| "longest_zeros i (g # gs) best =
     (let l = zero_run (g # gs);
          cur = (case best of None \<Rightarrow> 0 | Some (s, e) \<Rightarrow> e - s)
      in longest_zeros (Suc i) gs (if 2 \<le> l \<and> cur < l then Some (i, i + l) else best))"

definition show_v6 :: "ip_key \<Rightarrow> string" where
  "show_v6 k =
     (case longest_zeros 0 k None of
        None \<Rightarrow> join_with CHR '':'' (map hex_of k)
      | Some (s, e) \<Rightarrow>
          join_with CHR '':'' (map hex_of (take s k)) @ ''::'' @
          join_with CHR '':'' (map hex_of (drop e k)))"

definition IP_String :: "ip_key \<Rightarrow> string" where
  "IP_String k =
     (if take 6 k = v4_prefix
      then join_with CHR ''.'' (map digits_of
             [k ! 6 div 256, k ! 6 mod 256, k ! 7 div 256, k ! 7 mod 256])
      else show_v6 k)"

section \<open>Egress identity\<close>

definition IPIdentity :: "string \<Rightarrow> ip_key option" where
  "IPIdentity ip = ParseIP ip"

definition CanonicalIP :: "string \<Rightarrow> string" where
  "CanonicalIP ip = (case IPIdentity ip of None \<Rightarrow> ip | Some key \<Rightarrow> IP_String key)"

definition SameIP :: "string \<Rightarrow> string \<Rightarrow> bool" where
  "SameIP a b \<longleftrightarrow> CanonicalIP a = CanonicalIP b"

section \<open>Hexadecimal groups\<close>

lemma hex_char_ord: "n < 16 \<Longrightarrow> ord (hex_char n) = (if n < 10 then 48 + n else 87 + n)"
  by (simp add: hex_char_def ord_chr)

lemma hex_val_char: "n < 16 \<Longrightarrow> hex_val (hex_char n) = Some n"
  by (auto simp: hex_val_def is_digit_def hex_char_ord)

lemma is_hex_char: "n < 16 \<Longrightarrow> is_hex (hex_char n)"
  by (simp add: is_hex_def hex_val_char)

lemma hex_of_hex: "list_all is_hex (hex_of n)"
proof (induction n rule: hex_of.induct)
  case (1 n)
  then show ?case by (subst hex_of.simps) (auto simp: is_hex_char)
qed

lemma hex_value_snoc: "hex_value (s @ [c]) = hex_value s * 16 + the (hex_val c)"
  by (simp add: hex_value_def)

lemma hex_value_of [simp]: "hex_value (hex_of n) = n"
proof (induction n rule: hex_of.induct)
  case (1 n)
  show ?case
  proof (cases "n < 16")
    case True
    then show ?thesis by (subst hex_of.simps) (simp add: hex_value_def hex_val_char)
  next
    case False
    with 1 have "hex_value (hex_of (n div 16)) = n div 16" by simp
    with False show ?thesis by (subst hex_of.simps) (simp add: hex_value_snoc hex_val_char)
  qed
qed

lemma hex_of_not_Nil [simp]: "hex_of n \<noteq> []"
  by (subst hex_of.simps) simp

lemma hex_of_length: "n < 16 ^ Suc k \<Longrightarrow> length (hex_of n) \<le> Suc k"
proof (induction k arbitrary: n)
  case 0
  then show ?case by (subst hex_of.simps) simp
next
  case (Suc k)
  then have "n div 16 < 16 ^ Suc k" by (simp add: less_mult_imp_div_less mult.commute)
  from Suc.IH [OF this] show ?case by (subst hex_of.simps) simp
qed

lemma hex_of_length_4: "n < 65536 \<Longrightarrow> length (hex_of n) \<le> 4"
  using hex_of_length [of n 3] by simp

lemma not_hex: "\<not> is_hex (CHR '':'')" "\<not> is_hex (CHR ''.'')" "\<not> is_hex (CHR ''%'')"
  by (simp_all add: is_hex_def hex_val_def is_digit_def ord_def)

lemma takeWhile_hex:
  "r = [] \<or> \<not> is_hex (hd r) \<Longrightarrow>
     takeWhile is_hex (hex_of n @ r) = hex_of n \<and> dropWhile is_hex (hex_of n @ r) = r"
proof -
  assume r: "r = [] \<or> \<not> is_hex (hd r)"
  have all: "\<forall>c \<in> set (hex_of n). is_hex c" using hex_of_hex [of n] by (simp add: list_all_iff)
  show ?thesis
  proof (cases r)
    case Nil
    with all show ?thesis by (simp add: takeWhile_eq_all_conv dropWhile_eq_Nil_conv)
  next
    case (Cons c r')
    with r have "\<not> is_hex c" by simp
    from drop_take_While_sep [OF all this, of r'] Cons show ?thesis by simp
  qed
qed

section \<open>The group loop on printed groups\<close>

lemma parse_last:
  assumes "length acc < 8" and "g < 65536"
  shows "parse_groups acc ell (hex_of g) = Some (acc @ [g], ell, [])"
proof -
  have w: "takeWhile is_hex (hex_of g) = hex_of g" "dropWhile is_hex (hex_of g) = []"
    using takeWhile_hex [of "[]" g] unfolding append_Nil2 by blast+
  show ?thesis
    using assms(1) hex_of_length_4 [OF assms(2)] by (subst parse_groups.simps) (simp add: Let_def w)
qed

lemma parse_next:
  assumes "length acc < 8" and "g < 65536" and "r \<noteq> []" and "hd r \<noteq> CHR '':''"
  shows "parse_groups acc ell (hex_of g @ CHR '':'' # r) = parse_groups (acc @ [g]) ell r"
proof -
  note w = takeWhile_hex [of "CHR '':'' # r" g, THEN conjunct1]
    takeWhile_hex [of "CHR '':'' # r" g, THEN conjunct2]
  show ?thesis
    using assms(1,3,4) hex_of_length_4 [OF assms(2)]
    by (subst parse_groups.simps) (simp add: Let_def w not_hex)
qed

lemma parse_ellipsis:
  assumes "length acc < 8" and "g < 65536"
  shows "parse_groups acc None (hex_of g @ CHR '':'' # CHR '':'' # r) =
    (if r = [] then Some (acc @ [g], Some (length acc + 1), [])
     else parse_groups (acc @ [g]) (Some (length acc + 1)) r)"
proof -
  note w = takeWhile_hex [of "CHR '':'' # CHR '':'' # r" g, THEN conjunct1]
    takeWhile_hex [of "CHR '':'' # CHR '':'' # r" g, THEN conjunct2]
  show ?thesis
    using assms(1) hex_of_length_4 [OF assms(2)]
    by (subst parse_groups.simps) (simp add: Let_def w not_hex)
qed

lemma hd_hex_of: "is_hex (hd (hex_of n))"
  using hex_of_hex [of n] by (metis hex_of_not_Nil hd_in_set list_all_iff)

lemma join_hex_head: "gs \<noteq> [] \<Longrightarrow> join_with sep (map hex_of gs) \<noteq> [] \<and> is_hex (hd (join_with sep (map hex_of gs)))"
  using hd_hex_of by (cases gs rule: remdups_adj.cases) auto

lemma join_hex_not_colon:
  "gs \<noteq> [] \<Longrightarrow> join_with sep (map hex_of gs) \<noteq> [] \<and> hd (join_with sep (map hex_of gs) @ t) \<noteq> CHR '':''"
  using join_hex_head [of gs sep] not_hex(1) by (metis hd_append2)

lemma parse_groups_join:
  "gs \<noteq> [] \<Longrightarrow> \<forall>g \<in> set gs. g < 65536 \<Longrightarrow> length acc + length gs \<le> 8 \<Longrightarrow>
   parse_groups acc ell (join_with CHR '':'' (map hex_of gs)) = Some (acc @ gs, ell, [])"
proof (induction gs arbitrary: acc)
  case (Cons g gs)
  show ?case
  proof (cases gs)
    case Nil
    with Cons show ?thesis by (simp add: parse_last)
  next
    case (Cons g' gs')
    with Cons.prems Cons.IH [of "acc @ [g]"] join_hex_not_colon [of gs "CHR '':''" "[]"]
    show ?thesis by (simp add: parse_next)
  qed
qed simp

lemma parse_groups_ellipsis:
  "gs \<noteq> [] \<Longrightarrow> \<forall>g \<in> set (gs @ ts). g < 65536 \<Longrightarrow> length acc + length gs + length ts \<le> 8 \<Longrightarrow>
   parse_groups acc None
     (join_with CHR '':'' (map hex_of gs) @ ''::'' @ join_with CHR '':'' (map hex_of ts)) =
   Some (acc @ gs @ ts, Some (length acc + length gs), [])"
proof (induction gs arbitrary: acc)
  case (Cons g gs)
  show ?case
  proof (cases gs)
    case Nil
    show ?thesis
    proof (cases "ts = []")
      case True
      with Nil Cons.prems show ?thesis by (simp add: parse_ellipsis)
    next
      case False
      with Nil Cons.prems join_hex_not_colon [OF False, of "CHR '':''" "[]"]
      show ?thesis by (simp add: parse_ellipsis parse_groups_join)
    qed
  next
    case (Cons g' gs')
    let ?r = "join_with CHR '':'' (map hex_of gs) @ ''::'' @ join_with CHR '':'' (map hex_of ts)"
    have "join_with CHR '':'' (map hex_of (g # gs)) @ ''::'' @ join_with CHR '':'' (map hex_of ts) =
        hex_of g @ CHR '':'' # ?r" by (simp add: Cons)
    moreover have "?r \<noteq> []" "hd ?r \<noteq> CHR '':''"
      using join_hex_not_colon [of gs "CHR '':''" "''::'' @ join_with CHR '':'' (map hex_of ts)"] Cons
      by auto
    ultimately show ?thesis using Cons.prems Cons.IH [of "acc @ [g]"] Cons by (simp add: parse_next)
  qed
qed simp

section \<open>The zero run\<close>

lemma zero_run_prefix: "take (zero_run gs) gs = replicate (zero_run gs) 0 \<and> zero_run gs \<le> length gs"
  by (induction gs) auto

definition run_ok :: "nat list \<Rightarrow> (nat \<times> nat) option \<Rightarrow> bool" where
  "run_ok k b = (case b of None \<Rightarrow> True
     | Some (s, e) \<Rightarrow> s + 2 \<le> e \<and> e \<le> length k \<and> take (e - s) (drop s k) = replicate (e - s) 0)"

lemma longest_zeros_ok:
  "run_ok k best \<Longrightarrow> run_ok k (longest_zeros i (drop i k) best)"
proof (induction "length k - i" arbitrary: i best)
  case 0
  then show ?case by simp
next
  case (Suc n)
  then have i: "i < length k" by simp
  then have d: "drop i k = k ! i # drop (Suc i) k" by (simp add: Cons_nth_drop_Suc)
  define l where "l = zero_run (drop i k)"
  have "run_ok k (Some (i, i + l))" if "2 \<le> l"
    using that zero_run_prefix [of "drop i k"] i by (auto simp: run_ok_def l_def)
  then have b: "run_ok k (if 2 \<le> l \<and> c < l then Some (i, i + l) else best)" for c
    using Suc.prems by auto
  have "n = length k - Suc i" using Suc.hyps(2) by simp
  note step = Suc.hyps(1) [OF this b]
  have lz: "zero_run (k ! i # drop (Suc i) k) = l" by (simp only: l_def d)
  show ?case unfolding d longest_zeros.simps Let_def lz by (rule step)
qed

lemma longest_zeros_run:
  assumes "longest_zeros 0 k None = Some (s, e)"
  shows "s + 2 \<le> e" and "e \<le> length k" and "k = take s k @ replicate (e - s) 0 @ drop e k"
proof -
  have r: "run_ok k (Some (s, e))"
    using longest_zeros_ok [of k None 0] assms by (simp add: run_ok_def)
  then show "s + 2 \<le> e" "e \<le> length k" by (simp_all add: run_ok_def)
  have "k = take s k @ take (e - s) (drop s k) @ drop (e - s) (drop s k)"
    by (metis append_take_drop_id)
  with r show "k = take s k @ replicate (e - s) 0 @ drop e k" by (simp add: run_ok_def)
qed

section \<open>Reading a printed address back\<close>

lemma colon_not_hexchar: "c \<in> set (hex_of n) \<Longrightarrow> c \<noteq> CHR ''%'' \<and> \<not> addr_mark c"
  using hex_of_hex [of n] not_hex by (auto simp: list_all_iff addr_mark_def)

lemma join_hex_chars: "c \<in> set (join_with CHR '':'' (map hex_of gs)) \<Longrightarrow> is_hex c \<or> c = CHR '':''"
proof (induction gs)
  case (Cons g gs)
  then show ?case using hex_of_hex [of g] by (cases gs) (auto simp: list_all_iff)
qed simp

lemma v6_chars: "c \<in> set (show_v6 k) \<Longrightarrow> is_hex c \<or> c = CHR '':''"
  by (auto simp: show_v6_def dest: join_hex_chars split: option.splits)

lemma v6_mark:
  assumes "\<forall>c \<in> set s. is_hex c \<or> c = CHR '':''" and "CHR '':'' \<in> set s"
  shows "\<exists>t. dropWhile (\<lambda>c. \<not> addr_mark c) s = CHR '':'' # t" and "CHR ''%'' \<notin> set s"
proof -
  obtain a b where s: "s = a @ CHR '':'' # b" "CHR '':'' \<notin> set a"
    using assms(2) by (metis split_list_first)
  with assms(1) have "\<forall>c \<in> set a. \<not> addr_mark c"
    using not_hex by (auto simp: addr_mark_def)
  moreover have "\<not> \<not> addr_mark (CHR '':'')" by (simp add: addr_mark_def)
  ultimately show "\<exists>t. dropWhile (\<lambda>c. \<not> addr_mark c) s = CHR '':'' # t"
    using drop_take_While_sep [of a "\<lambda>c. \<not> addr_mark c" "CHR '':''" b] s(1) by blast
  show "CHR ''%'' \<notin> set s" using assms(1) not_hex(3) by auto
qed

lemma show_v6_percent: "CHR ''%'' \<notin> set (show_v6 k)"
  using v6_chars [of "CHR ''%''" k] not_hex(3) by auto

lemma parseIPv6_show_plain:
  assumes len: "length k = 8" and small: "\<forall>g \<in> set k. g < 65536" and none: "longest_zeros 0 k None = None"
  shows "parseIPv6 (show_v6 k) = Some k"
proof -
  have ne: "k \<noteq> []" using len by auto
  let ?s = "join_with CHR '':'' (map hex_of k)"
  have "\<not> HasPrefix ?s ''::''"
    using join_hex_not_colon [OF ne, of "CHR '':''" "[]"] by (auto simp: HasPrefix_iff)
  moreover have "parse_groups [] None ?s = Some (k, None, [])"
    using parse_groups_join [OF ne small, of "[]"] len by simp
  ultimately show ?thesis using none show_v6_percent [of k] len by (simp add: parseIPv6_def show_v6_def)
qed

lemma parseIPv6_show_run:
  assumes len: "length k = 8" and small: "\<forall>g \<in> set k. g < 65536" and se: "longest_zeros 0 k None = Some (s, e)"
  shows "parseIPv6 (show_v6 k) = Some k"
proof -
  note run = longest_zeros_run [OF se] and pct = show_v6_percent [of k]
  have e8: "e \<le> 8" "s + 2 \<le> e" using run len by simp_all
  let ?a = "join_with CHR '':'' (map hex_of (take s k))"
  let ?b = "join_with CHR '':'' (map hex_of (drop e k))"
  have str: "show_v6 k = ?a @ ''::'' @ ?b" by (simp add: show_v6_def se)
  have sm: "\<forall>g \<in> set (take s k @ drop e k). g < 65536"
    using small by (auto dest: in_set_takeD in_set_dropD)
  have lens: "length (take s k) = s" "length (drop e k) = 8 - e" using e8 len by simp_all
  have fill: "take s (take s k @ drop e k) @ replicate (8 - length (take s k @ drop e k)) 0 @
      drop s (take s k @ drop e k) = k"
    using run(3) e8 lens by simp
  consider (all) "s = 0" "drop e k = []" | (front) "s = 0" "drop e k \<noteq> []" | (inside) "s \<noteq> 0" by blast
  then show ?thesis
  proof cases
    case all
    then have "HasPrefix (show_v6 k) ''::''" "drop 2 (show_v6 k) = ?b" by (simp_all add: str HasPrefix_iff)
    moreover have "k = replicate (e - s) 0" using run(3) all by simp
    moreover have "e = 8" using all e8 len by simp
    ultimately show ?thesis using all pct by (simp add: parseIPv6_def)
  next
    case front
    then have "HasPrefix (show_v6 k) ''::''" "drop 2 (show_v6 k) = ?b" by (simp_all add: str HasPrefix_iff)
    moreover have "parse_groups [] (Some 0) ?b = Some (drop e k, Some 0, [])"
      using parse_groups_join [OF front(2), of "[]" "Some 0"] sm lens by simp
    moreover have "?b \<noteq> []" using join_hex_head [OF front(2)] by blast
    ultimately show ?thesis using front pct lens fill e8 by (simp add: parseIPv6_def)
  next
    case inside
    then have ne: "take s k \<noteq> []" using len by auto
    have "\<not> HasPrefix (show_v6 k) ''::''"
      using join_hex_not_colon [OF ne, of "CHR '':''" "''::'' @ ?b"]
      unfolding str by (auto simp: HasPrefix_iff)
    moreover have "parse_groups [] None (show_v6 k) = Some (take s k @ drop e k, Some s, [])"
      using parse_groups_ellipsis [OF ne sm, of "[]"] lens e8 unfolding str by simp
    ultimately show ?thesis
      using pct lens fill e8 by (simp add: parseIPv6_def)
  qed
qed

lemma parseIPv6_show:
  assumes "valid_key k"
  shows "parseIPv6 (show_v6 k) = Some k"
  using assms parseIPv6_show_plain [of k] parseIPv6_show_run [of k]
  unfolding valid_key_def by (cases "longest_zeros 0 k None") auto

lemma show_v6_colon: "length k = 8 \<Longrightarrow> CHR '':'' \<in> set (show_v6 k)"
proof -
  assume "length k = 8"
  then obtain a b t where "k = a # b # t" by (cases k rule: remdups_adj.cases) auto
  then show ?thesis by (auto simp: show_v6_def split: option.splits)
qed

lemma digit_not_mark: "is_digit c \<Longrightarrow> \<not> addr_mark c \<and> c \<noteq> CHR ''.''"
  by (auto simp: is_digit_def addr_mark_def ord_def)

lemma parse_octet_digits: "n \<le> 255 \<Longrightarrow> parse_octet (digits_of n) = Some n"
proof -
  assume n: "n \<le> 255"
  have "\<not> (hd (digits_of m) = CHR ''0'' \<and> 1 < length (digits_of m))" for m
  proof (induction m rule: digits_of.induct)
    case (1 m)
    show ?case
    proof (cases "m < 10")
      case True
      then show ?thesis by (subst (2) digits_of.simps) simp
    next
      case False
      have h: "hd (digits_of m) = hd (digits_of (m div 10))" "1 < length (digits_of m)"
        using False by (subst digits_of.simps, simp add: Suc_lessI)+
      show ?thesis
      proof (cases "m div 10 < 10")
        case True
        then have "hd (digits_of (m div 10)) = chr (48 + m div 10)" by (subst digits_of.simps) simp
        moreover have "chr (48 + m div 10) \<noteq> CHR ''0''"
        proof
          assume "chr (48 + m div 10) = CHR ''0''"
          then have "ord (chr (48 + m div 10)) = ord (CHR ''0'')" by simp
          then have "48 + m div 10 = 48" using True by (simp add: ord_chr) (simp add: ord_def)
          with False show False by simp
        qed
        ultimately show ?thesis using h by simp
      next
        case F: False
        then have "1 < length (digits_of (m div 10))" by (subst digits_of.simps) (simp add: Suc_lessI)
        with 1 [OF False] h show ?thesis by simp
      qed
    qed
  qed
  with n show ?thesis using digits_of_digits [of n] by (simp add: parse_octet_def)
qed

lemma parseIPv4Fields_show:
  assumes "a \<le> 255" and "b \<le> 255" and "c \<le> 255" and "d \<le> 255"
  shows "parseIPv4Fields (join_with CHR ''.'' (map digits_of [a, b, c, d])) = Some (a, b, c, d)"
proof -
  have "CHR ''.'' \<notin> set (digits_of n)" for n
    using digits_of_digits [of n] digit_not_mark by (auto simp: list_all_iff)
  then have "split_on CHR ''.'' (join_with CHR ''.'' (map digits_of [a, b, c, d])) = map digits_of [a, b, c, d]"
    by (intro split_join) auto
  then show ?thesis using assms by (simp add: parseIPv4Fields_def parse_octet_digits)
qed

lemma ParseIP_String:
  assumes "valid_key k"
  shows "ParseIP (IP_String k) = Some k"
proof (cases "take 6 k = v4_prefix")
  case True
  have len: "length k = 8" and small: "\<forall>g \<in> set k. g < 65536" using assms by (auto simp: valid_key_def)
  have "k = take 6 k @ [k ! 6, k ! 7]"
    using len by (intro nth_equalityI) (auto simp: nth_append less_Suc_eq numeral_eq_Suc)
  then have k: "k = v4_prefix @ [k ! 6, k ! 7]" using True by simp
  have g: "k ! 6 < 65536" "k ! 7 < 65536" using small len by simp_all
  let ?q = "[k ! 6 div 256, k ! 6 mod 256, k ! 7 div 256, k ! 7 mod 256]"
  have q: "parseIPv4Fields (IP_String k) = Some (k ! 6 div 256, k ! 6 mod 256, k ! 7 div 256, k ! 7 mod 256)"
    unfolding IP_String_def using True g parseIPv4Fields_show
    by (simp add: less_mult_imp_div_less div_le_mono)
  obtain rest where "IP_String k = digits_of (k ! 6 div 256) @ CHR ''.'' # rest"
    using True by (simp add: IP_String_def)
  moreover have "\<forall>c \<in> set (digits_of (k ! 6 div 256)). \<not> addr_mark c"
    using digits_of_digits digit_not_mark by (auto simp: list_all_iff)
  moreover have "\<not> \<not> addr_mark (CHR ''.'')" by (simp add: addr_mark_def)
  ultimately have "dropWhile (\<lambda>c. \<not> addr_mark c) (IP_String k) = CHR ''.'' # rest"
    using drop_take_While_sep by metis
  with q k show ?thesis by (simp add: ParseIP_def v4_groups_def)
next
  case False
  have s: "IP_String k = show_v6 k" using False by (simp add: IP_String_def)
  have "\<forall>c \<in> set (show_v6 k). is_hex c \<or> c = CHR '':''" using v6_chars by blast
  from v6_mark [OF this show_v6_colon] assms parseIPv6_show [OF assms] s
  show ?thesis by (auto simp: ParseIP_def valid_key_def)
qed

section \<open>What is read is an address\<close>

lemma hex_val_less: "hex_val c = Some v \<Longrightarrow> v < 16"
  by (auto simp: hex_val_def is_digit_def split: if_splits)

lemma hex_value_less: "\<forall>c \<in> set s. is_hex c \<Longrightarrow> hex_value s < 16 ^ length s"
proof (induction s rule: rev_induct)
  case (snoc c s)
  then have "hex_value s < 16 ^ length s" by simp
  moreover obtain v where "hex_val c = Some v" "v < 16"
    using snoc.prems hex_val_less by (auto simp: is_hex_def)
  ultimately show ?case by (simp add: hex_value_snoc)
qed (simp add: hex_value_def)

lemma group_less: "length (takeWhile is_hex s) \<le> 4 \<Longrightarrow> hex_value (takeWhile is_hex s) < 65536"
proof -
  assume "length (takeWhile is_hex s) \<le> 4"
  then have "(16::nat) ^ length (takeWhile is_hex s) \<le> 16 ^ 4" by (intro power_increasing) simp_all
  moreover have "hex_value (takeWhile is_hex s) < 16 ^ length (takeWhile is_hex s)"
    by (rule hex_value_less) (auto dest: set_takeWhileD)
  ultimately show ?thesis by simp
qed

lemma parse_octet_le: "parse_octet s = Some n \<Longrightarrow> n \<le> 255"
  by (auto simp: parse_octet_def split: if_splits)

lemma v4_groups_less: "parseIPv4Fields s = Some q \<Longrightarrow> \<forall>g \<in> set (v4_groups q). g < 65536"
proof -
  assume "parseIPv4Fields s = Some q"
  then obtain a b c d where m: "map parse_octet (split_on CHR ''.'' s) = [Some a, Some b, Some c, Some d]"
    and q: "q = (a, b, c, d)"
    by (auto simp: parseIPv4Fields_def split: list.splits option.splits)
  then have "Some a \<in> parse_octet ` set (split_on CHR ''.'' s)" "Some b \<in> parse_octet ` set (split_on CHR ''.'' s)"
    "Some c \<in> parse_octet ` set (split_on CHR ''.'' s)" "Some d \<in> parse_octet ` set (split_on CHR ''.'' s)"
    by (simp_all flip: set_map)
  then have "a \<le> 255" "b \<le> 255" "c \<le> 255" "d \<le> 255" by (metis imageE parse_octet_le)+
  with q show ?thesis by (simp add: v4_groups_def)
qed

lemma v4_groups_length [simp]: "length (v4_groups q) = 2"
  by (simp add: v4_groups_def split: prod.splits)

lemma parse_groups_valid:
  "parse_groups acc ell s = Some (gs, e, r) \<Longrightarrow> length acc \<le> 8 \<Longrightarrow> \<forall>g \<in> set acc. g < 65536 \<Longrightarrow>
     length gs \<le> 8 \<and> (\<forall>g \<in> set gs. g < 65536)"
proof (induction acc ell s rule: parse_groups.induct)
  case (1 acc ell s)
  let ?g = "takeWhile is_hex s" and ?r = "dropWhile is_hex s"
  show ?case
  proof (cases "8 \<le> length acc \<or> ?g = [] \<or> 4 < length ?g")
    case True
    with 1(3-5) show ?thesis by (auto simp: parse_groups.simps [of acc ell s] split: if_splits)
  next
    case False
    then have c: "\<not> 8 \<le> length acc" "\<not> (?g = [] \<or> 4 < length ?g)" by auto
    from c(2) have less: "hex_value ?g < 65536" by (intro group_less) simp
    note step = 1(3)[unfolded parse_groups.simps [of acc ell s] Let_def if_not_P [OF c(1)] if_not_P [OF c(2)]]
    show ?thesis
    proof (cases "?r \<noteq> [] \<and> hd ?r = CHR ''.''")
      case True
      then show ?thesis
        using step 1(5) c(1) v4_groups_less by (auto split: if_splits option.splits)
    next
      case False
      show ?thesis
      proof (cases ?r)
        case Nil
        with step False 1(5) c(1) less show ?thesis by auto
      next
        case (Cons x r')
        then have x: "x = CHR '':''" "r' \<noteq> []"
          using step False by (auto split: if_splits)
        show ?thesis
        proof (cases "hd r' = CHR '':''")
          case True
          then show ?thesis
            using step False Cons x c 1(5) less
              1(1) [OF c(1) refl refl c(2) False Cons _ True]
            by (cases "tl r' = []") (auto split: if_splits)
        next
          case F: False
          have pg: "parse_groups (acc @ [hex_value ?g]) ell r' = Some (gs, e, r)"
            using step False Cons x F by simp
          have nx: "\<not> (x \<noteq> CHR '':'' \<or> r' = [])" using x by simp
          have len: "length (acc @ [hex_value ?g]) \<le> 8" using c(1) by simp
          have small: "\<forall>g \<in> set (acc @ [hex_value ?g]). g < 65536" using 1(5) less by simp
          show ?thesis by (rule 1(2) [OF c(1) refl refl c(2) False Cons nx F pg len small])
        qed
      qed
    qed
  qed
qed

lemma parseIPv6_valid: "parseIPv6 s = Some k \<Longrightarrow> valid_key k"
proof -
  assume p: "parseIPv6 s = Some k"
  let ?lead = "HasPrefix s ''::''"
  let ?body = "if ?lead then drop 2 s else s"
  show ?thesis
  proof (cases "?lead \<and> ?body = []")
    case True
    with p show ?thesis by (auto simp: parseIPv6_def valid_key_def split: if_splits)
  next
    case False
    then obtain gs e where g: "parse_groups [] (if ?lead then Some 0 else None) ?body = Some (gs, e, [])"
      and k: "k = (if length gs < 8 then take (the e) gs @ replicate (8 - length gs) 0 @ drop (the e) gs
                   else gs)"
      using p unfolding parseIPv6_def Let_def if_not_P [OF False]
      by (auto split: if_split_asm option.split_asm prod.split_asm)
    from parse_groups_valid [OF g] have v: "length gs \<le> 8" "\<forall>x \<in> set gs. x < 65536" by simp_all
    moreover have "set (take n gs) \<subseteq> set gs" "set (drop n gs) \<subseteq> set gs" for n
      by (simp_all add: set_take_subset set_drop_subset)
    ultimately show ?thesis unfolding valid_key_def k by (auto simp: subset_iff)
  qed
qed

lemma ParseIP_valid: "ParseIP s = Some k \<Longrightarrow> valid_key k"
proof -
  assume p: "ParseIP s = Some k"
  then obtain c t where d: "dropWhile (\<lambda>c. \<not> addr_mark c) s = c # t"
    by (auto simp: ParseIP_def split: list.splits)
  show ?thesis
  proof (cases "c = CHR ''.''")
    case True
    with p d obtain q where q: "parseIPv4Fields s = Some q" "k = v4_prefix @ v4_groups q"
      by (auto simp: ParseIP_def)
    from v4_groups_less [OF q(1)] q(2) show ?thesis
      by (auto simp: valid_key_def v4_prefix_def)
  next
    case False
    with p d show ?thesis by (auto simp: ParseIP_def intro: parseIPv6_valid split: if_splits)
  qed
qed

section \<open>The interface of a canonical text form\<close>

text \<open>What the rotation bookkeeping relies on: a reader and a printer of identities, each
  inverse to the other on identities that were read.\<close>

locale canonical_text =
  fixes parse :: "string \<Rightarrow> 'k option"
    and print_key :: "'k \<Rightarrow> string"
  assumes parse_print: "parse s = Some k \<Longrightarrow> parse (print_key k) = Some k"
begin

definition canonical :: "string \<Rightarrow> string" where
  "canonical s = (case parse s of None \<Rightarrow> s | Some k \<Rightarrow> print_key k)"

lemma parse_canonical: "parse (canonical s) = parse s"
  by (auto simp: canonical_def parse_print split: option.splits)

lemma canonical_idem: "canonical (canonical s) = canonical s"
  by (metis canonical_def parse_canonical option.case(1) option.case(2) option.exhaust)

lemma canonical_eq:
  "canonical a = canonical b \<longleftrightarrow> (if parse a = None \<and> parse b = None then a = b else parse a = parse b)"
proof (cases "parse a"; cases "parse b")
  fix k l assume "parse a = Some k" "parse b = Some l"
  then show ?thesis using parse_print by (auto simp: canonical_def) (metis option.inject)
next
  fix l assume "parse a = None" "parse b = Some l"
  then show ?thesis using parse_print by (auto simp: canonical_def)
next
  fix k assume "parse a = Some k" "parse b = None"
  then show ?thesis using parse_print by (auto simp: canonical_def)
qed (simp add: canonical_def)

end

interpretation egress: canonical_text IPIdentity IP_String
  by unfold_locales (auto simp: IPIdentity_def ParseIP_String ParseIP_valid)

lemma CanonicalIP_canonical: "CanonicalIP = egress.canonical"
  by (simp add: fun_eq_iff CanonicalIP_def egress.canonical_def)

text \<open>the single definition of the same egress address. Two texts are the same address
  exactly when both are address literals with the same 16 bytes, so an IPv4 address and its
  IPv4-mapped spelling, and all spellings of one IPv6 address, are one; a text that is not a
  literal is only the same as itself. Canonicalizing is idempotent and keeps the identity, so
  comparing stored canonical addresses is comparing addresses.\<close>

theorem SameIP_identity:
  "(SameIP a b \<longleftrightarrow> (if IPIdentity a = None \<and> IPIdentity b = None then a = b
                    else IPIdentity a = IPIdentity b)) \<and>
   CanonicalIP (CanonicalIP a) = CanonicalIP a \<and> IPIdentity (CanonicalIP a) = IPIdentity a"
  by (simp add: SameIP_def CanonicalIP_canonical egress.canonical_eq egress.canonical_idem
      egress.parse_canonical)

end
