(* ===== verification/Sanitize.thy ===== *)
theory Sanitize
  imports GoStrings
begin

text \<open>
  Safe diagnostics (internal/sanitize/sanitize.go): every error text that reaches a log line
  or \<^verbatim>\<open>/status\<close> goes through \<open>Sanitize_text\<close>. Strings are bytes; \<open>runes\<close> is Go's range
  over a string, with an ill-formed byte read as U+FFFD.
\<close>

section \<open>UTF-8\<close>

definition cont :: "char \<Rightarrow> bool" where
  "cont c \<longleftrightarrow> 128 \<le> ord c \<and> ord c < 192"

definition between :: "nat \<Rightarrow> nat \<Rightarrow> char \<Rightarrow> bool" where
  "between a b c \<longleftrightarrow> a \<le> ord c \<and> ord c \<le> b"

text \<open>Length of the well-formed sequence a string starts with, 0 when it starts with none.\<close>

fun rune_len :: "string \<Rightarrow> nat" where
  "rune_len [] = 0"
| "rune_len (a # s) =
     (if ord a < 128 then 1
      else if between 194 223 a then (case s of b # _ \<Rightarrow> if cont b then 2 else 0 | [] \<Rightarrow> 0)
      else if between 224 239 a then
        (case s of b # c # _ \<Rightarrow>
            if (if ord a = 224 then between 160 191 b
                else if ord a = 237 then between 128 159 b else cont b) \<and> cont c then 3 else 0
          | _ \<Rightarrow> 0)
      else if between 240 244 a then
        (case s of b # c # d # _ \<Rightarrow>
            if (if ord a = 240 then between 144 191 b
                else if ord a = 244 then between 128 143 b else cont b) \<and> cont c \<and> cont d
            then 4 else 0
          | _ \<Rightarrow> 0)
      else 0)"

definition replacement :: string where
  "replacement = [chr 239, chr 191, chr 189]"

definition ellipsis :: string where
  "ellipsis = [chr 226, chr 128, chr 166]"

function runes :: "string \<Rightarrow> string list" where
  "runes [] = []"
| "runes (a # s) =
     (if rune_len (a # s) = 0 then replacement # runes s
      else take (rune_len (a # s)) (a # s) # runes (drop (rune_len (a # s)) (a # s)))"
  by pat_completeness auto
termination
  by (relation "measure length") (auto simp del: rune_len.simps)

declare runes.simps(2) [simp del]

function valid_utf8 :: "string \<Rightarrow> bool" where
  "valid_utf8 [] = True"
| "valid_utf8 (a # s) =
     (if rune_len (a # s) = 0 then False else valid_utf8 (drop (rune_len (a # s)) (a # s)))"
  by pat_completeness auto
termination
  by (relation "measure length") (auto simp del: rune_len.simps)

declare valid_utf8.simps(2) [simp del]

section \<open>Redaction\<close>

definition MaxLength :: nat where
  "MaxLength = 512"

definition redacted :: string where
  "redacted = ''[redacted]@''"

definition isTokenBoundary :: "char \<Rightarrow> bool" where
  "isTokenBoundary c \<longleftrightarrow>
     ord c \<le> 32 \<or> ord c = 127 \<or> ord c = 34 \<or> ord c = 39 \<or> c = CHR ''<'' \<or> c = CHR ''>'' \<or> ord c = 96"

text \<open>What follows the last at sign, and whether a colon stands before it.\<close>

definition after_last_at :: "string \<Rightarrow> string" where
  "after_last_at s = rev (takeWhile (\<lambda>c. c \<noteq> CHR ''@'') (rev s))"

definition before_last_at :: "string \<Rightarrow> string" where
  "before_last_at s = rev (tl (dropWhile (\<lambda>c. c \<noteq> CHR ''@'') (rev s)))"

definition bare_userinfo :: "string \<Rightarrow> bool" where
  "bare_userinfo s \<longleftrightarrow> CHR ''@'' \<in> set s \<and> CHR '':'' \<in> set (before_last_at s)"

text \<open>The text up to the first \<^verbatim>\<open>://\<close> and what follows it.\<close>

fun cut_scheme :: "string \<Rightarrow> (string \<times> string) option" where
  "cut_scheme [] = None"
| "cut_scheme (c # s) =
     (if HasPrefix (c # s) ''://'' then Some ([], drop 3 (c # s))
      else map_option (\<lambda>(a, b). (c # a, b)) (cut_scheme s))"

definition redactToken :: "string \<Rightarrow> string" where
  "redactToken token =
     (case cut_scheme token of
        Some (scheme, rest) \<Rightarrow>
          if CHR ''@'' \<in> set rest then scheme @ ''://'' @ redacted @ after_last_at rest else token
      | None \<Rightarrow>
          if bare_userinfo token then redacted @ after_last_at token else token)"

function redact_tokens :: "string \<Rightarrow> string" where
  "redact_tokens [] = []"
| "redact_tokens (c # s) =
     (if isTokenBoundary c then c # redact_tokens s
      else redactToken (takeWhile (\<lambda>x. \<not> isTokenBoundary x) (c # s)) @
           redact_tokens (dropWhile (\<lambda>x. \<not> isTokenBoundary x) (c # s)))"
  by pat_completeness auto
termination
proof (relation "measure length", goal_cases)
  case (3 c s)
  then show ?case using length_dropWhile_le [of "\<lambda>x. \<not> isTokenBoundary x" s] by simp
qed simp_all

declare redact_tokens.simps(2) [simp del]

definition redactUserinfo :: "string \<Rightarrow> string" where
  "redactUserinfo s =
     (if \<not> Contains s ''://'' \<and> \<not> bare_userinfo s then s else redact_tokens s)"

section \<open>Terminal controls\<close>

definition is_control :: "char \<Rightarrow> bool" where
  "is_control c \<longleftrightarrow> ord c < 32 \<or> ord c = 127"

definition ESC :: char where
  "ESC = chr 27"

text \<open>The rest after a control sequence (\<^verbatim>\<open>ESC [\<close>) and after an operating system command
  (\<^verbatim>\<open>ESC ]\<close>).\<close>

fun skip_csi :: "string \<Rightarrow> string" where
  "skip_csi [] = []"
| "skip_csi (c # s) = (if between 64 126 c then s else skip_csi s)"

fun skip_osc :: "string \<Rightarrow> string" where
  "skip_osc [] = []"
| "skip_osc [c] = []"
| "skip_osc (c # d # s) =
     (if ord c = 7 then d # s
      else if c = ESC \<and> ord d = 92 then s
      else skip_osc (d # s))"

lemma length_skip_csi: "length (skip_csi s) \<le> length s"
  by (induction s) auto

lemma length_skip_osc: "length (skip_osc s) \<le> length s"
  by (induction s rule: skip_osc.induct) auto

function stripANSI :: "string \<Rightarrow> string" where
  "stripANSI [] = []"
| "stripANSI (c # s) =
     (if c \<noteq> ESC then c # stripANSI s
      else (case s of
          [] \<Rightarrow> []
        | d # t \<Rightarrow>
            if d = CHR ''['' then stripANSI (skip_csi t)
            else if d = CHR '']'' then stripANSI (skip_osc t)
            else if d = CHR ''('' \<or> d = CHR '')'' \<or> d = CHR ''#'' then stripANSI (drop 1 t)
            else stripANSI t))"
  by pat_completeness auto
termination
  by (relation "measure length")
    (auto intro: le_less_trans [OF length_skip_csi] le_less_trans [OF length_skip_osc])

text \<open>One rune of \<^verbatim>\<open>cleanControls\<close>; a control rune is one byte.\<close>

definition clean_rune :: "string \<Rightarrow> string" where
  "clean_rune r =
     (case r of
        [c] \<Rightarrow> if ord c = 10 \<or> ord c = 13 \<or> ord c = 9 then '' ''
               else if is_control c then [] else r
      | _ \<Rightarrow> r)"

definition cleanControls :: "string \<Rightarrow> string" where
  "cleanControls s = concat (map clean_rune (runes (stripANSI s)))"

definition bound_text :: "string \<Rightarrow> string" where
  "bound_text s =
     (if length (runes s) \<le> MaxLength then s
      else concat (take MaxLength (runes s)) @ ellipsis)"

section \<open>The entry points\<close>

definition needsSanitizing :: "string \<Rightarrow> bool" where
  "needsSanitizing s \<longleftrightarrow>
     MaxLength < length s \<or> list_ex is_control s \<or> Contains s ''://'' \<or> bare_userinfo s"

definition Sanitize_text :: "string \<Rightarrow> string" where
  "Sanitize_text s =
     (if \<not> needsSanitizing s then s else bound_text (cleanControls (redactUserinfo s)))"

definition ErrorString :: "string option \<Rightarrow> string" where
  "ErrorString err = (case err of None \<Rightarrow> [] | Some e \<Rightarrow> Sanitize_text e)"

section \<open>Runes\<close>

definition well_formed_rune :: "string \<Rightarrow> bool" where
  "well_formed_rune r \<longleftrightarrow> r \<noteq> [] \<and> (\<forall>t. rune_len (r @ t) = length r) \<and>
     (length r = 1 \<and> ord (hd r) < 128 \<or> (\<forall>c \<in> set r. 128 \<le> ord c))"

lemma rune_len_le: "rune_len s \<le> length s"
  by (cases s rule: rune_len.cases) (auto split: list.splits)

lemma rune_len_prefix:
  "rune_len s \<noteq> 0 \<Longrightarrow> well_formed_rune (take (rune_len s) s)"
proof (cases s)
  case (Cons a t)
  assume nz: "rune_len s \<noteq> 0"
  consider "ord a < 128" | "between 194 223 a" | "between 224 239 a" | "between 240 244 a"
    using nz Cons by (auto split: if_splits)
  then show ?thesis
  proof cases
    case 1
    then show ?thesis using Cons by (simp add: well_formed_rune_def)
  next
    case 2
    then show ?thesis using nz Cons
      by (auto simp: well_formed_rune_def between_def cont_def split: list.splits if_splits)
  next
    case 3
    with nz Cons obtain b c u where t: "t = b # c # u"
      by (auto simp: between_def split: list.splits if_splits)
    from 3 nz Cons t show ?thesis
      by (auto simp: well_formed_rune_def between_def cont_def split: if_splits)
  next
    case 4
    with nz Cons obtain b c d u where t: "t = b # c # d # u"
      by (auto simp: between_def split: list.splits if_splits)
    from 4 nz Cons t show ?thesis
      by (auto simp: well_formed_rune_def between_def cont_def split: if_splits)
  qed
qed simp

lemma well_formed_replacement: "well_formed_rune replacement"
  by (auto simp: well_formed_rune_def replacement_def between_def cont_def ord_chr numeral_3_eq_3)

lemma well_formed_ellipsis: "well_formed_rune ellipsis"
  by (auto simp: well_formed_rune_def ellipsis_def between_def cont_def ord_chr numeral_3_eq_3)

lemma runes_well_formed: "r \<in> set (runes s) \<Longrightarrow> well_formed_rune r"
proof (induction s rule: runes.induct)
  case (2 a s)
  show ?case
  proof (cases "rune_len (a # s) = 0")
    case True
    with 2 show ?thesis using well_formed_replacement by (auto simp: runes.simps(2) simp del: rune_len.simps)
  next
    case False
    with 2 show ?thesis using rune_len_prefix [of "a # s"]
      by (auto simp: runes.simps(2) simp del: rune_len.simps)
  qed
qed simp

lemma runes_append:
  assumes "well_formed_rune r"
  shows "runes (r @ t) = r # runes t"
proof -
  from assms obtain a r' where r: "r = a # r'" by (cases r) (auto simp: well_formed_rune_def)
  from assms have l: "rune_len (a # r' @ t) = length r"
    by (metis append_Cons r well_formed_rune_def)
  then show ?thesis
    by (simp add: r runes.simps(2) del: rune_len.simps)
qed

lemma runes_concat: "\<forall>r \<in> set rs. well_formed_rune r \<Longrightarrow> runes (concat rs @ t) = rs @ runes t"
  by (induction rs) (auto simp: runes_append)

lemma concat_runes: "valid_utf8 s \<Longrightarrow> concat (runes s) = s"
proof (induction s rule: valid_utf8.induct)
  case (2 a s)
  then have nz: "rune_len (a # s) \<noteq> 0" by (metis valid_utf8.simps(2))
  with 2 have "concat (runes (drop (rune_len (a # s)) (a # s))) = drop (rune_len (a # s)) (a # s)"
    by (simp add: valid_utf8.simps(2) del: rune_len.simps)
  with nz show ?case
    by (simp add: runes.simps(2) del: rune_len.simps)
qed simp

lemma length_runes: "length (runes s) \<le> length s"
proof (induction s rule: runes.induct)
  case (2 a s)
  show ?case
  proof (cases "rune_len (a # s) = 0")
    case True
    with 2 show ?thesis by (simp add: runes.simps(2) del: rune_len.simps)
  next
    case False
    with 2(2) have "length (runes (drop (rune_len (a # s)) (a # s))) \<le> length (a # s) - rune_len (a # s)"
      by simp
    with False rune_len_le [of "a # s"] show ?thesis
      by (simp add: runes.simps(2) del: rune_len.simps)
  qed
qed simp

section \<open>The stages\<close>

lemma rune_chars: "r \<in> set (runes s) \<Longrightarrow> c \<in> set r \<Longrightarrow> c \<in> set s \<or> 128 \<le> ord c"
proof (induction s rule: runes.induct)
  case (2 a s)
  show ?case
  proof (cases "rune_len (a # s) = 0")
    case True
    with 2 show ?thesis
      by (auto simp: runes.simps(2) replacement_def ord_chr simp del: rune_len.simps)
  next
    case False
    define n where "n = rune_len (a # s)"
    have sub: "set (take n (a # s)) \<subseteq> set (a # s)" "set (drop n (a # s)) \<subseteq> set (a # s)"
      by (simp_all add: set_take_subset set_drop_subset del: list.set)
    from False 2(3) have "r = take n (a # s) \<or> r \<in> set (runes (drop n (a # s)))"
      by (simp add: runes.simps(2) n_def del: rune_len.simps)
    with sub 2(2) [OF False] 2(4) show ?thesis unfolding n_def by blast
  qed
qed simp

lemma clean_rune_no_control:
  assumes "well_formed_rune r" and "c \<in> set (clean_rune r)"
  shows "\<not> is_control c"
proof (cases "length r = 1")
  case True
  then obtain x where "r = [x]" by (auto simp: length_Suc_conv)
  with assms show ?thesis
    by (auto simp: clean_rune_def is_control_def ord_def split: if_splits)
next
  case False
  then have "clean_rune r = r" by (auto simp: clean_rune_def split: list.splits)
  moreover from assms False have "\<forall>c \<in> set r. 128 \<le> ord c" by (auto simp: well_formed_rune_def)
  ultimately show ?thesis using assms by (fastforce simp: is_control_def)
qed

lemma cleanControls_no_control: "c \<in> set (cleanControls s) \<Longrightarrow> \<not> is_control c"
  unfolding cleanControls_def using clean_rune_no_control runes_well_formed by fastforce

lemma bound_chars: "c \<in> set (bound_text s) \<Longrightarrow> c \<in> set s \<or> 128 \<le> ord c"
  using rune_chars [of _ s c]
  by (auto simp: bound_text_def ellipsis_def ord_chr split: if_splits dest!: in_set_takeD)

lemma stripANSI_id: "ESC \<notin> set s \<Longrightarrow> stripANSI s = s"
  by (induction s rule: stripANSI.induct) auto

lemma clean_rune_id: "\<forall>c \<in> set r. \<not> is_control c \<Longrightarrow> clean_rune r = r"
  by (auto simp: clean_rune_def is_control_def split: list.splits)

lemma redact_tokens_boundary:
  "isTokenBoundary b \<Longrightarrow> redact_tokens (xs @ b # ys) = redact_tokens xs @ b # redact_tokens ys"
proof (induction xs rule: redact_tokens.induct)
  case 1
  then show ?case by (simp add: redact_tokens.simps(2))
next
  case (2 c s)
  show ?case
  proof (cases "isTokenBoundary c")
    case True
    with 2 show ?thesis by (simp add: redact_tokens.simps(2))
  next
    case False
    let ?P = "\<lambda>x. \<not> isTokenBoundary x"
    show ?thesis
    proof (cases "\<forall>x \<in> set s. ?P x")
      case True
      have tw: "takeWhile ?P (s @ b # ys) = s" "dropWhile ?P (s @ b # ys) = b # ys"
        "takeWhile ?P s = s" "dropWhile ?P s = []"
        using True \<open>isTokenBoundary b\<close> by (induction s) auto
      show ?thesis
        using False \<open>isTokenBoundary b\<close> by (simp add: redact_tokens.simps(2) tw)
    next
      case S: False
      then obtain x where "x \<in> set s" "\<not> ?P x" by blast
      then have "takeWhile ?P (s @ b # ys) = takeWhile ?P s"
        and "dropWhile ?P (s @ b # ys) = dropWhile ?P s @ b # ys"
        by (simp_all add: takeWhile_append1 dropWhile_append1)
      with False 2 show ?thesis by (simp add: redact_tokens.simps(2))
    qed
  qed
qed

lemma redact_tokens_single:
  assumes "token \<noteq> []" and "\<forall>x \<in> set token. \<not> isTokenBoundary x"
  shows "redact_tokens token = redactToken token"
proof -
  obtain c s where t: "token = c # s" using assms(1) by (cases token) auto
  have w: "takeWhile (\<lambda>x. \<not> isTokenBoundary x) token = token"
    "dropWhile (\<lambda>x. \<not> isTokenBoundary x) token = []"
    using assms(2) by (simp_all add: takeWhile_eq_all_conv dropWhile_eq_Nil_conv)
  have "\<not> isTokenBoundary c" using assms(2) t by simp
  then have "redact_tokens token = redactToken (takeWhile (\<lambda>x. \<not> isTokenBoundary x) token) @
      redact_tokens (dropWhile (\<lambda>x. \<not> isTokenBoundary x) token)"
    unfolding t by (simp add: redact_tokens.simps(2))
  then show ?thesis unfolding w by simp
qed

lemma cut_scheme_first:
  "CHR '':'' \<notin> set scheme \<Longrightarrow> cut_scheme (scheme @ ''://'' @ rest) = Some (scheme, rest)"
proof (induction scheme)
  case Nil
  then show ?case by (simp add: HasPrefix_def)
next
  case (Cons c s)
  then have "\<not> HasPrefix (c # s @ ''://'' @ rest) ''://''" by (auto simp: HasPrefix_def)
  with Cons show ?case by simp
qed

lemma after_last_at_host: "CHR ''@'' \<notin> set host \<Longrightarrow> after_last_at (ui @ CHR ''@'' # host) = host"
proof -
  assume "CHR ''@'' \<notin> set host"
  then have "takeWhile (\<lambda>c. c \<noteq> CHR ''@'') (rev host @ CHR ''@'' # rev ui) = rev host"
    by (subst takeWhile_append2) auto
  then show ?thesis by (simp add: after_last_at_def)
qed

lemma Contains_append: "Contains (p @ pat @ q) pat"
proof (induction p)
  case Nil
  have "HasPrefix (pat @ q) pat" by (auto simp: HasPrefix_iff)
  then show ?case by (cases "pat @ q") (auto simp: HasPrefix_def)
next
  case (Cons c p)
  then show ?case by simp
qed

section \<open>Properties of the sanitizer\<close>

text \<open>sanitized text carries no terminal control: whatever bytes go in, the result has
  no C0 control, no escape and no DEL, and at most 512 runes before the ellipsis.\<close>

theorem Sanitize_no_controls_bounded:
  "list_all (\<lambda>c. \<not> is_control c) (Sanitize_text s) \<and> length (runes (Sanitize_text s)) \<le> MaxLength + 1"
proof (cases "needsSanitizing s")
  case False
  then have "length (runes s) \<le> MaxLength" "\<not> list_ex is_control s"
    using length_runes [of s] by (auto simp: needsSanitizing_def)
  with False show ?thesis by (simp add: Sanitize_text_def list_ex_iff list_all_iff)
next
  case True
  let ?v = "cleanControls (redactUserinfo s)"
  have "\<not> is_control c" if "c \<in> set (bound_text ?v)" for c
    using bound_chars [OF that] cleanControls_no_control by (auto simp: is_control_def)
  moreover have "length (runes (bound_text ?v)) \<le> MaxLength + 1"
  proof (cases "length (runes ?v) \<le> MaxLength")
    case False
    have wf: "\<forall>r \<in> set (take MaxLength (runes ?v)). well_formed_rune r"
      using runes_well_formed in_set_takeD by fast
    have "runes ellipsis = [ellipsis]"
      using runes_append [OF well_formed_ellipsis, of "[]"] by simp
    with False runes_concat [OF wf, of ellipsis] show ?thesis by (simp add: bound_text_def)
  qed (simp add: bound_text_def)
  ultimately show ?thesis using True by (simp add: Sanitize_text_def list_all_iff)
qed

text \<open>the fast path is exact. For well-formed UTF-8 the single scan that skips the
  pipeline skips it only where the pipeline would return the text unchanged.\<close>

theorem Sanitize_fast_path:
  assumes "valid_utf8 s"
  shows "Sanitize_text s = bound_text (cleanControls (redactUserinfo s))"
proof (cases "needsSanitizing s")
  case False
  then have no: "\<forall>c \<in> set s. \<not> is_control c" and len: "length s \<le> MaxLength"
    and red: "redactUserinfo s = s"
    by (auto simp: needsSanitizing_def redactUserinfo_def list_ex_iff)
  have "is_control ESC" by (simp add: is_control_def ESC_def ord_chr)
  with no have "stripANSI s = s" by (intro stripANSI_id) auto
  moreover have "map clean_rune (runes s) = runes s"
  proof (rule map_idI)
    fix r assume r: "r \<in> set (runes s)"
    have "\<not> is_control c" if "c \<in> set r" for c
      using rune_chars [OF r that] no by (auto simp: is_control_def)
    then show "clean_rune r = r" by (simp add: clean_rune_id)
  qed
  ultimately have "cleanControls s = s" by (simp add: cleanControls_def concat_runes [OF assms])
  with False len length_runes [of s] red show ?thesis
    by (simp add: Sanitize_text_def bound_text_def)
qed (simp add: Sanitize_text_def)

theorem Sanitize_fast_path_witness:
  "Sanitize_text ''dial h:1'' = bound_text (cleanControls (redactUserinfo ''dial h:1''))"
  by (rule Sanitize_fast_path) code_simp

text \<open>credentials in a URL do not survive redaction. A \<^verbatim>\<open>scheme://userinfo@host\<close>
  token anywhere in a diagnostic comes out with everything between the scheme and the last at
  sign replaced by the fixed mark, whatever slashes, colons or at signs the secret contains,
  and the text on both sides of the token is redacted independently of it.\<close>

theorem redactUserinfo_url:
  assumes "isTokenBoundary b" and "isTokenBoundary d"
    and "\<forall>x \<in> set (scheme @ ui @ host). \<not> isTokenBoundary x"
    and "CHR '':'' \<notin> set scheme" and "CHR ''@'' \<notin> set host"
  shows "redactUserinfo (pre @ b # (scheme @ ''://'' @ ui @ ''@'' @ host) @ d # post) =
    redact_tokens pre @ b # (scheme @ ''://[redacted]@'' @ host) @ d # redact_tokens post"
proof -
  let ?token = "scheme @ ''://'' @ ui @ ''@'' @ host"
  let ?s = "pre @ b # ?token @ d # post"
  have "?s = (pre @ b # scheme) @ ''://'' @ (ui @ ''@'' @ host @ d # post)" by simp
  then have "Contains ?s ''://''" by (metis Contains_append)
  then have "redactUserinfo ?s = redact_tokens ?s" by (simp add: redactUserinfo_def)
  also have "\<dots> = redact_tokens pre @ b # redact_tokens ?token @ d # redact_tokens post"
    using assms(1,2) redact_tokens_boundary [of b pre "?token @ d # post"]
      redact_tokens_boundary [of d ?token post] by simp
  also have "redact_tokens ?token = redactToken ?token"
  proof (rule redact_tokens_single)
    have "\<not> isTokenBoundary x" if "x \<in> set ''://@''" for x
      using that by (auto simp: isTokenBoundary_def ord_def)
    with assms(3) show "\<forall>x \<in> set ?token. \<not> isTokenBoundary x" by auto
  qed simp
  also have "\<dots> = scheme @ ''://[redacted]@'' @ host"
    using cut_scheme_first [OF assms(4), of "ui @ ''@'' @ host"] after_last_at_host [OF assms(5), of ui]
    by (simp add: redactToken_def redacted_def)
  finally show ?thesis by simp
qed

theorem redactUserinfo_url_witness:
  "redactUserinfo ''at socks5://u:p/@x@h:1 now'' = ''at socks5://[redacted]@h:1 now''"
proof -
  have b: "isTokenBoundary (CHR '' '')" by code_simp
  have n: "\<forall>x \<in> set (''socks5'' @ ''u:p/@x'' @ ''h:1''). \<not> isTokenBoundary x" by code_simp
  have "redact_tokens ''at'' = ''at''" "redact_tokens ''now'' = ''now''" by code_simp+
  with redactUserinfo_url [OF b b n, of "''at''" "''now''"] show ?thesis by simp
qed

end
