(* ===== verification/Proxy.thy ===== *)
theory Proxy
  imports Cooldown Settings Egress Sanitize
begin

text \<open>
  One upstream route (\<^verbatim>\<open>Proxy\<close> of internal/pool/pool.go and internal/pool/rotation.go): its
  state as the record \<open>proxy\<close>, and every method of \<^verbatim>\<open>*Proxy\<close> as a function on it. A method
  body is one critical section or a short run of atomics, so it is one step of the model. The
  map of target cooldowns is an association list whose keys are kept distinct; \<open>targetPairs\<close> is
  the cached size the code keeps beside it. Counters Go declares unsigned are \<open>64 word\<close>;
  the \<^verbatim>\<open>int\<close> streak counters are \<open>int\<close>.
\<close>

section \<open>State\<close>

datatype rotation_state =
    RotationNone
  | RotationIdle
  | RotationDraining
  | RotationRotating
  | RotationVerifying
  | RotationStale

record target_cooldown =
  deadline :: int
  consecutive :: int

record proxy =
  URL :: url
  Kind :: egress_kind
  Origin :: route_origin
  pass :: u64
  inFlight :: int
  cooldownUntil :: int
  authBlocked :: bool
  rotating :: bool
  rotationEpoch :: u64
  routeID :: string
  targetCool :: "(string \<times> target_cooldown) list"
  targetPairs :: int
  consecutiveFailures :: int
  lastDialError :: string
  authFailures :: u64
  lastAuthError :: string
  successes :: u64
  failures :: u64
  targetFailures :: u64
  rotationState :: rotation_state
  lastIP :: string
  lastRotationAt :: "instant option"
  nextRetryIn :: duration
  consecutiveSameIP :: int
  rotationCount :: int
  ipRevisitCount :: int
  verifiedIPs :: "ip_key set"

text \<open>\<^verbatim>\<open>relNanos\<close>: \<^verbatim>\<open>Time.Sub\<close> saturates.\<close>

definition relNanos :: "instant \<Rightarrow> int" where
  "relNanos t = sat64 t"

definition newProxy :: "route_spec \<Rightarrow> u64 \<Rightarrow> proxy" where
  "newProxy route anchor =
     (let origin = effectiveOrigin (spec_Origin route) in
      \<lparr>URL = spec_URL route, Kind = spec_Kind route, Origin = origin, pass = anchor,
       inFlight = 0, cooldownUntil = 0, authBlocked = False, rotating = False, rotationEpoch = 0,
       routeID = spec_ID route, targetCool = [], targetPairs = 0, consecutiveFailures = 0,
       lastDialError = [], authFailures = 0, lastAuthError = [], successes = 0, failures = 0,
       targetFailures = 0,
       rotationState = (if origin = RouteOriginManual then RotationIdle else RotationNone),
       lastIP = [], lastRotationAt = None, nextRetryIn = 0, consecutiveSameIP = 0,
       rotationCount = 0, ipRevisitCount = 0, verifiedIPs = {}\<rparr>)"

section \<open>Availability\<close>

definition maxTrackedTargetPairs :: nat where
  "maxTrackedTargetPairs = 1024"

definition pairDeadlineNano :: "proxy \<Rightarrow> string \<Rightarrow> int" where
  "pairDeadlineNano p target =
     (if targetPairs p = 0 then 0
      else (case map_of (targetCool p) target of None \<Rightarrow> 0 | Some e \<Rightarrow> deadline e))"

definition availableAt :: "proxy \<Rightarrow> int \<Rightarrow> bool" where
  "availableAt p nowNano \<longleftrightarrow>
     \<not> authBlocked p \<and> \<not> rotating p \<and> (cooldownUntil p = 0 \<or> cooldownUntil p \<le> nowNano)"

definition availableForAt :: "proxy \<Rightarrow> string \<Rightarrow> int \<Rightarrow> bool" where
  "availableForAt p target nowNano \<longleftrightarrow>
     availableAt p nowNano \<and>
     (let d = pairDeadlineNano p target in d = 0 \<or> d \<le> nowNano)"

definition effectiveCooldownNano :: "proxy \<Rightarrow> string \<Rightarrow> int" where
  "effectiveCooldownNano p target =
     (let d = cooldownUntil p; pd = pairDeadlineNano p target
      in if pd \<noteq> 0 \<and> (d = 0 \<or> d < pd) then pd else d)"

definition coolingTargetPairs :: "proxy \<Rightarrow> int \<Rightarrow> int" where
  "coolingTargetPairs p nowNano =
     int (length (filter (\<lambda>(t, tc). deadline tc \<noteq> 0 \<and> nowNano < deadline tc) (targetCool p)))"

definition CooldownActive :: "proxy \<Rightarrow> instant \<Rightarrow> bool" where
  "CooldownActive p now \<longleftrightarrow> cooldownUntil p \<noteq> 0 \<and> relNanos now < cooldownUntil p"

section \<open>Target cooldowns\<close>

definition clearTargetCooldown :: "string \<Rightarrow> proxy \<Rightarrow> proxy" where
  "clearTargetCooldown target p =
     (if targetPairs p = 0 then p
      else if target \<in> set (keys (targetCool p)) then
        (let m = AList.delete target (targetCool p)
         in p\<lparr>targetCool := m, targetPairs := int (length m)\<rparr>)
      else p)"

definition clearAllTargetCooldowns :: "proxy \<Rightarrow> proxy" where
  "clearAllTargetCooldowns p =
     (if targetPairs p = 0 then p else p\<lparr>targetCool := [], targetPairs := 0\<rparr>)"

text \<open>
  The eviction scan. Go visits a map in an arbitrary order: \<open>order\<close> is the order of this visit,
  a permutation of the entries. The state is the soonest deadline and its key.
\<close>

fun evict_scan :: "int \<Rightarrow> (string \<times> target_cooldown) list \<Rightarrow> int \<Rightarrow> string \<Rightarrow> string option" where
  "evict_scan nowNano [] soonest soonestKey = (if soonestKey \<noteq> [] then Some soonestKey else None)"
| "evict_scan nowNano ((k, e) # es) soonest soonestKey =
     (let d = deadline e in
      if d \<noteq> 0 \<and> d \<le> nowNano then Some k
      else if d < soonest then evict_scan nowNano es d k
      else evict_scan nowNano es soonest soonestKey)"

definition evictTargetPair ::
    "((string \<times> target_cooldown) list \<Rightarrow> (string \<times> target_cooldown) list) \<Rightarrow>
     (string \<times> target_cooldown) list \<Rightarrow> int \<Rightarrow> (string \<times> target_cooldown) list" where
  "evictTargetPair order m nowNano =
     (case evict_scan nowNano (order m) max_int64 [] of
        None \<Rightarrow> m
      | Some k \<Rightarrow> AList.delete k m)"

section \<open>Health\<close>

definition Release :: "proxy \<Rightarrow> proxy" where
  "Release p = (if inFlight p \<le> 0 then p else p\<lparr>inFlight := inFlight p - 1\<rparr>)"

definition serve :: "proxy \<Rightarrow> proxy" where
  "serve p = p\<lparr>inFlight := inFlight p + 1, pass := pass p + 1\<rparr>"

definition report_success :: "string \<Rightarrow> proxy \<Rightarrow> proxy" where
  "report_success target p =
     (let p = p\<lparr>consecutiveFailures := 0, lastDialError := [], successes := successes p + 1,
                cooldownUntil := 0\<rparr>;
          p = clearTargetCooldown target p
      in p\<lparr>pass := pass p + 1\<rparr>)"

definition report_failure :: "duration \<Rightarrow> duration \<Rightarrow> instant \<Rightarrow> string option \<Rightarrow> proxy \<Rightarrow> proxy \<times> duration" where
  "report_failure bs mx now err p =
     (let p = p\<lparr>consecutiveFailures := consecutiveFailures p + 1, failures := failures p + 1\<rparr>;
          p = (if err \<noteq> None then p\<lparr>lastDialError := ErrorString err\<rparr> else p);
          cd = SaturatingCooldown bs mx (consecutiveFailures p)
      in (p\<lparr>cooldownUntil := relNanos (now + cd)\<rparr>, cd))"

definition report_target_failure ::
    "((string \<times> target_cooldown) list \<Rightarrow> (string \<times> target_cooldown) list) \<Rightarrow>
     duration \<Rightarrow> duration \<Rightarrow> instant \<Rightarrow> string \<Rightarrow> proxy \<Rightarrow> proxy \<times> duration" where
  "report_target_failure order bs mx now target p =
     (let p = p\<lparr>targetFailures := targetFailures p + 1\<rparr>;
          fresh = (map_of (targetCool p) target = None);
          m = (if fresh \<and> maxTrackedTargetPairs \<le> length (targetCool p)
               then evictTargetPair order (targetCool p) (relNanos now) else targetCool p);
          e = (case map_of m target of None \<Rightarrow> \<lparr>deadline = 0, consecutive = 0\<rparr> | Some e \<Rightarrow> e);
          p = (if fresh
               then p\<lparr>targetCool := AList.update target e m,
                      targetPairs := int (length (AList.update target e m))\<rparr>
               else p);
          e = e\<lparr>consecutive := consecutive e + 1\<rparr>;
          cd = SaturatingCooldown bs mx (consecutive e);
          e = e\<lparr>deadline := relNanos (now + cd)\<rparr>
      in (p\<lparr>targetCool := AList.update target e (targetCool p)\<rparr>, cd))"

definition sanitizeAuthError :: "string option \<Rightarrow> string" where
  "sanitizeAuthError err =
     (let msg = ErrorString err in
      if Contains msg ''endpoint requires credentials but none are configured''
      then ''endpoint requires credentials but none are configured''
      else if Contains msg ''endpoint accepted no offered authentication method''
      then ''endpoint accepted no offered authentication method''
      else if Contains msg ''endpoint rejected credentials''
      then ''endpoint rejected credentials''
      else ''SOCKS authentication failed'')"

definition report_auth_blocked :: "string option \<Rightarrow> proxy \<Rightarrow> proxy" where
  "report_auth_blocked err p =
     (let p = p\<lparr>authFailures := authFailures p + 1\<rparr>;
          p = (if err \<noteq> None then p\<lparr>lastAuthError := sanitizeAuthError err\<rparr> else p)
      in p\<lparr>authBlocked := True\<rparr>)"

section \<open>Rotation transitions\<close>

definition recordVerifiedIP :: "ip_key \<Rightarrow> proxy \<Rightarrow> proxy" where
  "recordVerifiedIP key p = p\<lparr>verifiedIPs := insert key (verifiedIPs p)\<rparr>"

definition BeginRotation :: "rotation_state \<Rightarrow> proxy \<Rightarrow> proxy" where
  "BeginRotation phase p =
     p\<lparr>rotating := True, rotationEpoch := rotationEpoch p + 1, rotationState := phase,
       nextRetryIn := 0\<rparr>"

definition SetRotationPhase :: "rotation_state \<Rightarrow> proxy \<Rightarrow> proxy" where
  "SetRotationPhase phase p = (if rotating p then p\<lparr>rotationState := phase\<rparr> else p)"

definition EndRotation :: "string \<Rightarrow> instant \<Rightarrow> proxy \<Rightarrow> proxy \<times> bool" where
  "EndRotation ip at p =
     (let revisit = (case IPIdentity ip of None \<Rightarrow> False | Some key \<Rightarrow> key \<in> verifiedIPs p);
          p = p\<lparr>rotationState := RotationIdle, lastIP := CanonicalIP ip, lastRotationAt := Some at,
                nextRetryIn := 0, consecutiveSameIP := 0\<rparr>;
          p = (case IPIdentity ip of None \<Rightarrow> p | Some key \<Rightarrow> recordVerifiedIP key p);
          p = p\<lparr>rotationCount := rotationCount p + 1\<rparr>;
          p = (if revisit then p\<lparr>ipRevisitCount := ipRevisitCount p + 1\<rparr> else p)
      in (p\<lparr>rotating := False\<rparr>, revisit))"

definition mark_stale :: "duration \<Rightarrow> int \<Rightarrow> proxy \<Rightarrow> proxy" where
  "mark_stale retry sameIP p =
     p\<lparr>rotationState := RotationStale, nextRetryIn := retry, consecutiveSameIP := sameIP,
       rotating := False\<rparr>"

definition MarkRotated :: "proxy \<Rightarrow> proxy" where
  "MarkRotated p =
     clearAllTargetCooldowns
       ((p\<lparr>consecutiveFailures := 0, lastDialError := []\<rparr>)\<lparr>cooldownUntil := 0\<rparr>)"

definition in_rotation :: "rotation_state \<Rightarrow> bool" where
  "in_rotation s \<longleftrightarrow> s = RotationDraining \<or> s = RotationRotating \<or> s = RotationVerifying"

definition AbandonRotation :: "proxy \<Rightarrow> proxy" where
  "AbandonRotation p =
     (let p = (if in_rotation (rotationState p)
               then p\<lparr>rotationState := (if 0 < consecutiveSameIP p then RotationStale else RotationIdle)\<rparr>
               else p)
      in p\<lparr>nextRetryIn := 0, rotating := False\<rparr>)"

definition SetBaselineIP :: "string \<Rightarrow> proxy \<Rightarrow> proxy" where
  "SetBaselineIP ip p =
     (if lastIP p = [] then
        (let p = p\<lparr>lastIP := CanonicalIP ip\<rparr>
         in (case IPIdentity ip of None \<Rightarrow> p | Some key \<Rightarrow> recordVerifiedIP key p))
      else p)"

end
