(* ===== verification/Pool.thy ===== *)
theory Pool
  imports Proxy
begin

text \<open>
  The shared pool (internal/pool/pool.go), the rotation commit (internal/pool/rotation.go) and
  the published generation (internal/pool/generation.go). Routes are shared by pointer: a
  reload's new pool points at the same \<open>proxy\<close> cells as the old one, and a request keys its
  exclusions and scopes by pointer. So routes live in a \<open>heap\<close>, a \<open>pref\<close> is an address in
  it, and a pool is a list of addresses. \<open>pool_id\<close> is the address of the pool itself, which the
  commit compares. The clock \<^verbatim>\<open>pl.Now\<close> is an argument of the operations that read it.
\<close>

section \<open>State\<close>

type_synonym pref = nat

record heap =
  cells :: "pref \<Rightarrow> proxy"
  brk :: nat

record pool =
  pool_id :: nat
  entries :: "pref list"
  ids :: "pref \<Rightarrow> string option"
  base :: duration
  maxCooldown :: duration

definition upd :: "pref \<Rightarrow> (proxy \<Rightarrow> proxy) \<Rightarrow> heap \<Rightarrow> heap" where
  "upd p f h = h\<lparr>cells := (cells h)(p := f (cells h p))\<rparr>"

definition alloc :: "proxy \<Rightarrow> heap \<Rightarrow> heap \<times> pref" where
  "alloc x h = (h\<lparr>cells := (cells h)(brk h := x), brk := brk h + 1\<rparr>, brk h)"

text \<open>The label of a route in a pool; a missing key reads as the empty label.\<close>

definition label :: "pool \<Rightarrow> pref \<Rightarrow> string" where
  "label pl p = (case ids pl p of None \<Rightarrow> [] | Some i \<Rightarrow> i)"

section \<open>Construction and reload\<close>

definition labelView :: "heap \<Rightarrow> pref list \<Rightarrow> pref \<Rightarrow> string option" where
  "labelView h es p = (if p \<in> set es \<and> routeID (cells h p) \<noteq> [] then Some (routeID (cells h p)) else None)"

fun new_entries :: "route_spec list \<Rightarrow> heap \<Rightarrow> heap \<times> pref list" where
  "new_entries [] h = (h, [])"
| "new_entries (r # rs) h =
     (let (h, p) = alloc (newProxy r 0) h; (h, ps) = new_entries rs h in (h, p # ps))"

definition NewRoutes :: "route_spec list \<Rightarrow> duration \<Rightarrow> duration \<Rightarrow> heap \<Rightarrow> heap \<times> pool" where
  "NewRoutes rs bs mx h =
     (let (h, es) = new_entries rs h;
          pl = \<lparr>pool_id = brk h, entries = es, ids = labelView h es, base = bs, maxCooldown = mx\<rparr>
      in (h\<lparr>brk := brk h + 1\<rparr>, pl))"

definition minPass :: "heap \<Rightarrow> pref list \<Rightarrow> u64" where
  "minPass h es =
     (case es of [] \<Rightarrow> 0
      | e # es \<Rightarrow> foldl (\<lambda>m e. if pass (cells h e) < m then pass (cells h e) else m) (pass (cells h e)) es)"

definition route_key :: "proxy \<Rightarrow> string" where
  "route_key p = routeKey (URL p) (Kind p) (Origin p)"

definition spec_key :: "route_spec \<Rightarrow> string" where
  "spec_key r = routeKey (spec_URL r) (spec_Kind r) (spec_Origin r)"

text \<open>The \<^verbatim>\<open>kept\<close> map: a later entry with the same key overwrites an earlier one.\<close>

definition kept :: "heap \<Rightarrow> pref list \<Rightarrow> string \<Rightarrow> pref option" where
  "kept h es = map_of (rev (map (\<lambda>e. (route_key (cells h e), e)) es))"

fun reconfigure_entries ::
    "(string \<Rightarrow> pref option) \<Rightarrow> u64 \<Rightarrow> route_spec list \<Rightarrow> heap \<Rightarrow> (pref \<Rightarrow> string option) \<Rightarrow>
     heap \<times> pref list \<times> (pref \<Rightarrow> string option)" where
  "reconfigure_entries kp anchor [] h lab = (h, [], lab)"
| "reconfigure_entries kp anchor (r # rs) h lab =
     (let (h, p) = (case kp (spec_key r) of
            Some prior \<Rightarrow> (h, prior)
          | None \<Rightarrow> alloc (newProxy r anchor) h);
          lab = (if spec_ID r \<noteq> [] then lab(p \<mapsto> spec_ID r) else lab);
          (h, ps, lab) = reconfigure_entries kp anchor rs h lab
      in (h, p # ps, lab))"

definition Reconfigure :: "pool \<Rightarrow> route_spec list \<Rightarrow> duration \<Rightarrow> duration \<Rightarrow> heap \<Rightarrow> heap \<times> pool" where
  "Reconfigure pl rs bs mx h =
     (let (h', es, lab) =
            reconfigure_entries (kept h (entries pl)) (minPass h (entries pl)) rs h Map.empty
      in (h'\<lparr>brk := brk h' + 1\<rparr>,
          \<lparr>pool_id = brk h', entries = es, ids = lab, base = bs, maxCooldown = mx\<rparr>))"

definition Scope :: "pool \<Rightarrow> route_set option \<Rightarrow> pref set option" where
  "Scope pl s =
     (case s of None \<Rightarrow> None
      | Some S \<Rightarrow> Some {p \<in> set (entries pl). Allows s (label pl p)})"

section \<open>Selection\<close>

definition minRecencyPass :: "heap \<Rightarrow> pref list \<Rightarrow> pref" where
  "minRecencyPass h candidates =
     argmin_from (\<lambda>e. pass (cells h e)) (hd candidates) (tl candidates)"

definition jumpToBack :: "pool \<Rightarrow> pref \<Rightarrow> heap \<Rightarrow> heap" where
  "jumpToBack pl p h =
     (let bs = foldl (\<lambda>b e. if b < pass (cells h e) then pass (cells h e) else b)
                 (pass (cells h p)) (entries pl)
      in upd p (\<lambda>x. x\<lparr>pass := bs + 1\<rparr>) h)"

definition allowed_by :: "(pref \<Rightarrow> bool) option \<Rightarrow> pref \<Rightarrow> bool" where
  "allowed_by allow p \<longleftrightarrow> (case allow of None \<Rightarrow> True | Some f \<Rightarrow> f p)"

text \<open>The fused scan: available routes in order, and the soonest-recovering cooling one.\<close>

fun pick_scan ::
    "heap \<Rightarrow> (pref \<Rightarrow> bool) \<Rightarrow> (pref \<Rightarrow> bool) option \<Rightarrow> string \<Rightarrow> int \<Rightarrow> pref list \<Rightarrow>
     pref list \<Rightarrow> (pref \<times> int) option \<Rightarrow> pref list \<times> (pref \<times> int) option" where
  "pick_scan h exclude allow target nowNano [] avail fallback = (avail, fallback)"
| "pick_scan h exclude allow target nowNano (e # es) avail fallback =
     (if \<not> allowed_by allow e \<or> exclude e then pick_scan h exclude allow target nowNano es avail fallback
      else if availableForAt (cells h e) target nowNano
        then pick_scan h exclude allow target nowNano es (avail @ [e]) fallback
      else if \<not> authBlocked (cells h e) \<and> \<not> rotating (cells h e) then
        (let cu = effectiveCooldownNano (cells h e) target;
             better = (case fallback of None \<Rightarrow> True | Some (f, fc) \<Rightarrow> cu < fc)
         in pick_scan h exclude allow target nowNano es avail (if better then Some (e, cu) else fallback))
      else pick_scan h exclude allow target nowNano es avail fallback)"

definition PickFor ::
    "pool \<Rightarrow> (pref \<Rightarrow> bool) \<Rightarrow> (pref \<Rightarrow> bool) option \<Rightarrow> string \<Rightarrow> instant \<Rightarrow> heap \<Rightarrow> pref option \<times> heap" where
  "PickFor pl exclude allow target now h =
     (let (avail, fallback) = pick_scan h exclude allow target (relNanos now) (entries pl) [] None in
      if avail = [] then
        (case fallback of
           None \<Rightarrow> (None, h)
         | Some (f, fc) \<Rightarrow> (Some f, upd f serve h))
      else let chosen = minRecencyPass h avail in (Some chosen, upd chosen serve h))"

definition CoolingFor :: "heap \<Rightarrow> pref \<Rightarrow> string \<Rightarrow> instant \<Rightarrow> duration" where
  "CoolingFor h p target now =
     (let cu = effectiveCooldownNano (cells h p) target; nowNano = relNanos now in
      if cu = 0 then 0 else if cu \<le> nowNano then 0 else wrap64 (cu - nowNano))"

definition Size :: "pool \<Rightarrow> nat" where
  "Size pl = length (entries pl)"

definition RoutePointers :: "pool \<Rightarrow> pref list" where
  "RoutePointers pl = entries pl"

definition CountAllowed :: "pool \<Rightarrow> (pref \<Rightarrow> bool) option \<Rightarrow> nat" where
  "CountAllowed pl allow = length (filter (allowed_by allow) (entries pl))"

section \<open>Reports\<close>

definition ReportSuccess :: "pref \<Rightarrow> string \<Rightarrow> heap \<Rightarrow> heap" where
  "ReportSuccess p target h = upd p (report_success target) h"

definition ReportFailure :: "pool \<Rightarrow> pref \<Rightarrow> string option \<Rightarrow> instant \<Rightarrow> heap \<Rightarrow> heap \<times> duration" where
  "ReportFailure pl p err now h =
     (let (x, cd) = report_failure (base pl) (maxCooldown pl) now err (cells h p)
      in (upd p (\<lambda>_. x) h, cd))"

definition ReportTargetFailure ::
    "((string \<times> target_cooldown) list \<Rightarrow> (string \<times> target_cooldown) list) \<Rightarrow>
     pool \<Rightarrow> pref \<Rightarrow> string \<Rightarrow> instant \<Rightarrow> heap \<Rightarrow> heap \<times> duration" where
  "ReportTargetFailure order pl p target now h =
     (let (x, cd) = report_target_failure order (base pl) (maxCooldown pl) now target (cells h p)
      in (upd p (\<lambda>_. x) h, cd))"

definition ReportAuthBlocked :: "pref \<Rightarrow> string option \<Rightarrow> heap \<Rightarrow> heap" where
  "ReportAuthBlocked p err h = upd p (report_auth_blocked err) h"

section \<open>Status\<close>

text \<open>Durations are kept as numbers; the code renders them with \<^verbatim>\<open>Duration.String\<close>.\<close>

record rotation_status =
  st_State :: rotation_state
  st_LastIP :: string
  st_LastRotationAt :: "instant option"
  st_NextRetryIn :: "duration option"
  st_ConsecutiveSameIP :: int
  st_RotationCount :: int
  st_IPRevisitCount :: int

record status =
  st_Proxy :: string
  st_Kind :: egress_kind
  st_Origin :: route_origin
  st_ID :: string
  st_Available :: bool
  st_InFlight :: int
  st_ConsecutiveFailures :: int
  st_CooldownFor :: duration
  st_Successes :: u64
  st_Failures :: u64
  st_LastDialError :: string
  st_AuthFailures :: u64
  st_AuthBlocked :: bool
  st_LastAuthError :: string
  st_TargetCooldowns :: int
  st_TargetFailures :: u64
  st_Rotation :: "rotation_status option"

definition truncate_ms :: "duration \<Rightarrow> duration" where
  "truncate_ms d = d - (d - quot64 d millisecond * millisecond)"

definition rotationStatus :: "proxy \<Rightarrow> rotation_status option" where
  "rotationStatus p =
     (if Origin p \<noteq> RouteOriginManual then None
      else Some \<lparr>st_State = rotationState p, st_LastIP = lastIP p,
        st_LastRotationAt = lastRotationAt p,
        st_NextRetryIn = (if 0 < nextRetryIn p then Some (truncate_ms (nextRetryIn p)) else None),
        st_ConsecutiveSameIP = consecutiveSameIP p, st_RotationCount = rotationCount p,
        st_IPRevisitCount = ipRevisitCount p\<rparr>)"

definition entry_status :: "pool \<Rightarrow> heap \<Rightarrow> int \<Rightarrow> pref \<Rightarrow> status" where
  "entry_status pl h nowNano e =
     (let p = cells h e; cu = cooldownUntil p; cooling = (cu \<noteq> 0 \<and> nowNano < cu) in
      \<lparr>st_Proxy = url_Host (URL p), st_Kind = Kind p, st_Origin = Origin p, st_ID = label pl e,
       st_Available = (\<not> authBlocked p \<and> \<not> rotating p \<and> \<not> cooling),
       st_InFlight = inFlight p, st_ConsecutiveFailures = consecutiveFailures p,
       st_CooldownFor = (if cooling then truncate_ms (wrap64 (cu - nowNano)) else 0),
       st_Successes = successes p, st_Failures = failures p, st_LastDialError = lastDialError p,
       st_AuthFailures = authFailures p, st_AuthBlocked = authBlocked p,
       st_LastAuthError = lastAuthError p, st_TargetCooldowns = coolingTargetPairs p nowNano,
       st_TargetFailures = targetFailures p, st_Rotation = rotationStatus p\<rparr>)"

definition Snapshot :: "pool \<Rightarrow> instant \<Rightarrow> heap \<Rightarrow> status list" where
  "Snapshot pl now h = map (entry_status pl h (relNanos now)) (entries pl)"

section \<open>Rotation operations of the pool\<close>

definition containsLocked :: "pool \<Rightarrow> pref option \<Rightarrow> bool" where
  "containsLocked pl p = (case p of None \<Rightarrow> False | Some p \<Rightarrow> p \<in> set (entries pl))"

definition Contains_route :: "pool \<Rightarrow> pref option \<Rightarrow> bool" where
  "Contains_route pl p = containsLocked pl p"

definition Lookup :: "pool \<Rightarrow> heap \<Rightarrow> string \<Rightarrow> pref option" where
  "Lookup pl h i =
     find (\<lambda>e. CanonicalRouteID (URL (cells h e)) @ ''|'' @ kind_string (Kind (cells h e)) = i)
       (entries pl)"

definition LastIPs :: "pool \<Rightarrow> pref \<Rightarrow> heap \<Rightarrow> string set" where
  "LastIPs pl exclude h =
     (\<lambda>e. lastIP (cells h e)) `
       {e \<in> set (entries pl). e \<noteq> exclude \<and> Origin (cells h e) = RouteOriginManual \<and>
          lastIP (cells h e) \<noteq> []}"

definition MarkStale :: "pool \<Rightarrow> pref \<Rightarrow> duration \<Rightarrow> int \<Rightarrow> heap \<Rightarrow> heap" where
  "MarkStale pl p retry sameIP h = jumpToBack pl p (upd p (mark_stale retry sameIP) h)"

section \<open>Generations\<close>

record generation =
  gen_Config :: runtime_config
  gen_Pool :: pool
  gen_Router :: "router option"

text \<open>A store holds a pointer to its generation; \<open>None\<close> is the nil pointer.\<close>

type_synonym store = "generation option"

definition NewGeneration :: "runtime_config \<Rightarrow> pool \<Rightarrow> generation" where
  "NewGeneration cfg pl = \<lparr>gen_Config = cfg, gen_Pool = pl, gen_Router = Routing cfg\<rparr>"

definition NewStore :: "runtime_config \<Rightarrow> pool \<Rightarrow> store" where
  "NewStore cfg pl = Some (NewGeneration cfg pl)"

text \<open>\<^verbatim>\<open>Store.Store\<close>: \<open>None\<close> as the result is the panic.\<close>

definition Store_generation :: "generation option \<Rightarrow> store \<Rightarrow> store option" where
  "Store_generation gen s =
     (case gen of
        None \<Rightarrow> None
      | Some g \<Rightarrow> if gen_Router g \<noteq> Routing (gen_Config g) then None else Some (Some g))"

definition Publish :: "runtime_config \<Rightarrow> generation \<Rightarrow> heap \<Rightarrow> heap \<times> generation" where
  "Publish cfg current h =
     (let (h, pl) = Reconfigure (gen_Pool current) (AllRoutes cfg) (CooldownBase cfg) (CooldownMax cfg) h
      in (h, NewGeneration cfg pl))"

datatype commit_error = ErrRotationRouteGone | ErrRotationCollision

definition collides :: "heap \<Rightarrow> pref \<Rightarrow> string \<Rightarrow> pref \<Rightarrow> bool" where
  "collides h p ip e \<longleftrightarrow>
     e \<noteq> p \<and> Origin (cells h e) = RouteOriginManual \<and>
     lastIP (cells h e) \<noteq> [] \<and> SameIP (lastIP (cells h e)) ip"

definition CommitRotation ::
    "pool \<Rightarrow> store option \<Rightarrow> pref option \<Rightarrow> string \<Rightarrow> instant \<Rightarrow> heap \<Rightarrow> (commit_error + bool) \<times> heap" where
  "CommitRotation pl st p ip at h =
     (case st of
        None \<Rightarrow> (Inl ErrRotationRouteGone, h)
      | Some cur \<Rightarrow>
          (case cur of
             None \<Rightarrow> (Inl ErrRotationRouteGone, h)
           | Some g \<Rightarrow>
               if pool_id (gen_Pool g) \<noteq> pool_id pl then (Inl ErrRotationRouteGone, h)
               else if \<not> containsLocked pl p then (Inl ErrRotationRouteGone, h)
               else if list_ex (collides h (the p) ip) (entries pl) then (Inl ErrRotationCollision, h)
               else let (x, revisit) = EndRotation ip at (cells h (the p))
                    in (Inr revisit, upd (the p) (\<lambda>_. x) h)))"

end
