(* ===== verification/PoolSelect.thy ===== *)
theory PoolSelect
  imports Pool
begin

text \<open>
  What \<^verbatim>\<open>PickFor\<close> promises. The fused scan is first shown equal to a direct description (filter
  the available candidates, else the cooling ones, and take the first minimum), then the
  selection properties follow: who may be picked, in which order, and the exact effect of a
  pick on the shared routes.
\<close>

section \<open>The scan and its reference form\<close>

definition candidate :: "(pref \<Rightarrow> bool) \<Rightarrow> (pref \<Rightarrow> bool) option \<Rightarrow> pref \<Rightarrow> bool" where
  "candidate exclude allow e \<longleftrightarrow> allowed_by allow e \<and> \<not> exclude e"

definition ready :: "heap \<Rightarrow> (pref \<Rightarrow> bool) \<Rightarrow> (pref \<Rightarrow> bool) option \<Rightarrow> string \<Rightarrow> instant \<Rightarrow> pref \<Rightarrow> bool" where
  "ready h exclude allow target now e \<longleftrightarrow>
     candidate exclude allow e \<and> availableForAt (cells h e) target (relNanos now)"

definition cooling :: "heap \<Rightarrow> (pref \<Rightarrow> bool) \<Rightarrow> (pref \<Rightarrow> bool) option \<Rightarrow> string \<Rightarrow> instant \<Rightarrow> pref \<Rightarrow> bool" where
  "cooling h exclude allow target now e \<longleftrightarrow>
     candidate exclude allow e \<and> \<not> availableForAt (cells h e) target (relNanos now) \<and>
     \<not> authBlocked (cells h e) \<and> \<not> rotating (cells h e)"

definition first_min :: "('a \<Rightarrow> 'b::linorder) \<Rightarrow> 'a list \<Rightarrow> 'a option" where
  "first_min f xs = (case xs of [] \<Rightarrow> None | x # xs \<Rightarrow> Some (argmin_from f x xs))"

definition choice :: "pool \<Rightarrow> (pref \<Rightarrow> bool) \<Rightarrow> (pref \<Rightarrow> bool) option \<Rightarrow> string \<Rightarrow> instant \<Rightarrow> heap \<Rightarrow> pref option" where
  "choice pl exclude allow target now h =
     (let A = filter (ready h exclude allow target now) (entries pl);
          F = filter (cooling h exclude allow target now) (entries pl)
      in if A \<noteq> [] then first_min (\<lambda>e. pass (cells h e)) A
         else first_min (\<lambda>e. effectiveCooldownNano (cells h e) target) F)"

text \<open>The running fallback of the scan, from a start that carries its own cost.\<close>

definition merge_fallback ::
    "(pref \<Rightarrow> int) \<Rightarrow> (pref \<times> int) option \<Rightarrow> pref list \<Rightarrow> (pref \<times> int) option" where
  "merge_fallback c fb xs =
     (case fb of
        Some (f, fc) \<Rightarrow> Some (let m = argmin_from c f xs in (m, c m))
      | None \<Rightarrow> (case xs of [] \<Rightarrow> None | x # xs \<Rightarrow> Some (let m = argmin_from c x xs in (m, c m))))"

lemma merge_fallback_simps:
  "merge_fallback c None [] = None"
  "merge_fallback c None (x # xs) = merge_fallback c (Some (x, c x)) xs"
  "merge_fallback c (Some (f, c f)) [] = Some (f, c f)"
  "merge_fallback c (Some (f, c f)) (x # xs) =
     merge_fallback c (Some (if c x < c f then (x, c x) else (f, c f))) xs"
  by (simp_all add: merge_fallback_def Let_def)

lemma pick_scan_filters:
  assumes "\<And>f fc. fb = Some (f, fc) \<Longrightarrow> fc = effectiveCooldownNano (cells h f) target"
  shows "pick_scan h exclude allow target (relNanos now) es avail fb =
    (avail @ filter (ready h exclude allow target now) es,
     merge_fallback (\<lambda>e. effectiveCooldownNano (cells h e) target) fb
       (filter (cooling h exclude allow target now) es))"
  using assms
proof (induction es arbitrary: avail fb)
  case Nil
  then show ?case by (cases fb) (auto simp: merge_fallback_def Let_def)
next
  case (Cons e es)
  let ?c = "\<lambda>e. effectiveCooldownNano (cells h e) target"
  consider "\<not> candidate exclude allow e" | "ready h exclude allow target now e"
    | "cooling h exclude allow target now e"
    | "candidate exclude allow e" "\<not> ready h exclude allow target now e"
      "\<not> cooling h exclude allow target now e"
    by blast
  then show ?case
  proof cases
    case 1
    then show ?thesis using Cons.IH [of fb avail] Cons.prems
      by (auto simp: candidate_def ready_def cooling_def)
  next
    case 2
    then show ?thesis using Cons.IH [of fb "avail @ [e]"] Cons.prems
      by (auto simp: candidate_def ready_def cooling_def)
  next
    case 3
    have c: "allowed_by allow e" "\<not> exclude e" "\<not> availableForAt (cells h e) target (relNanos now)"
      "\<not> authBlocked (cells h e)" "\<not> rotating (cells h e)" "\<not> ready h exclude allow target now e"
      using 3 by (auto simp: candidate_def ready_def cooling_def)
    show ?thesis
    proof (cases fb)
      case None
      then show ?thesis using c 3 Cons.IH [of "Some (e, ?c e)" avail]
        by (simp add: Let_def merge_fallback_simps)
    next
      case (Some f)
      then obtain g where fb: "fb = Some (g, ?c g)" using Cons.prems by (cases f) auto
      show ?thesis
      proof (cases "?c e < ?c g")
        case True
        then show ?thesis using c 3 Cons.IH [of "Some (e, ?c e)" avail]
          by (simp add: fb Let_def merge_fallback_simps(4) [of ?c g e])
      next
        case False
        then show ?thesis using c 3 Cons.IH [of "Some (g, ?c g)" avail]
          by (simp add: fb Let_def merge_fallback_simps(4) [of ?c g e])
      qed
    qed
  next
    case 4
    then show ?thesis using Cons.IH [of fb avail] Cons.prems
      by (auto simp: candidate_def ready_def cooling_def)
  qed
qed

lemma PickFor_choice:
  "PickFor pl exclude allow target now h =
    (case choice pl exclude allow target now h of
       None \<Rightarrow> (None, h) | Some p \<Rightarrow> (Some p, upd p serve h))"
proof -
  have f: "merge_fallback c None xs = map_option (\<lambda>m. (m, c m)) (first_min c xs)" for c xs
    by (cases xs) (simp_all add: merge_fallback_def first_min_def Let_def)
  have m: "xs \<noteq> [] \<Longrightarrow> first_min (\<lambda>e. pass (cells h e)) xs = Some (minRecencyPass h xs)" for xs
    by (cases xs) (simp_all add: first_min_def minRecencyPass_def)
  let ?A = "filter (ready h exclude allow target now) (entries pl)"
  have ps: "pick_scan h exclude allow target (relNanos now) (entries pl) [] None =
    (?A, merge_fallback (\<lambda>e. effectiveCooldownNano (cells h e) target) None
       (filter (cooling h exclude allow target now) (entries pl)))"
    using pick_scan_filters [of None h target exclude allow now "entries pl" "[]"] by simp
  show ?thesis
  proof (cases "?A = []")
    case True
    then show ?thesis
      by (simp add: PickFor_def ps choice_def f Let_def split: option.splits)
  next
    case False
    then show ?thesis by (simp add: PickFor_def ps choice_def m Let_def)
  qed
qed

lemma first_min_None [simp]: "first_min f xs = None \<longleftrightarrow> xs = []"
  by (simp add: first_min_def split: list.splits)

lemma first_min_Some:
  assumes "first_min f xs = Some m"
  shows "m \<in> set xs" and "\<And>y. y \<in> set xs \<Longrightarrow> f m \<le> f y"
    and "\<exists>pre post. xs = pre @ m # post \<and> (\<forall>y \<in> set pre. f m < f y)"
proof -
  obtain x ys where xs: "xs = x # ys" "m = argmin_from f x ys"
    using assms by (auto simp: first_min_def split: list.splits)
  show "m \<in> set xs" unfolding xs by (rule argmin_from_mem)
  show "f m \<le> f y" if "y \<in> set xs" for y
    using that unfolding xs by (rule argmin_from_le)
  show "\<exists>pre post. xs = pre @ m # post \<and> (\<forall>y \<in> set pre. f m < f y)"
    unfolding xs by (rule argmin_from_first)
qed

lemma filter_split:
  "filter P xs = pre @ m # post \<Longrightarrow> \<exists>us vs. xs = us @ m # vs \<and> filter P us = pre"
proof (induction xs arbitrary: pre)
  case (Cons x xs)
  show ?case
  proof (cases "P x \<and> pre = []")
    case True
    with Cons.prems show ?thesis by (intro exI [of _ "[]"] exI [of _ xs]) simp
  next
    case False
    then obtain pre' where f: "filter P xs = pre' @ m # post" "pre = (if P x then x # pre' else pre')"
      using Cons.prems by (cases pre) (auto split: if_splits)
    from Cons.IH [OF f(1)] obtain us vs where "xs = us @ m # vs" "filter P us = pre'" by blast
    with f(2) show ?thesis by (intro exI [of _ "x # us"] exI [of _ vs]) simp
  qed
qed simp

lemma choice_cases:
  assumes "choice pl exclude allow target now h = Some p"
  obtains (ready) "ready h exclude allow target now p"
      "\<forall>q \<in> set (entries pl). ready h exclude allow target now q \<longrightarrow> pass (cells h p) \<le> pass (cells h q)"
      "\<exists>us vs. entries pl = us @ p # vs \<and>
         (\<forall>q \<in> set us. ready h exclude allow target now q \<longrightarrow> pass (cells h p) < pass (cells h q))"
    | (cooling) "cooling h exclude allow target now p"
      "\<forall>q \<in> set (entries pl). \<not> ready h exclude allow target now q"
      "\<forall>q \<in> set (entries pl). cooling h exclude allow target now q \<longrightarrow>
         effectiveCooldownNano (cells h p) target \<le> effectiveCooldownNano (cells h q) target"
      "p \<in> set (entries pl)"
proof (cases "filter (ready h exclude allow target now) (entries pl) = []")
  case True
  with assms have m: "first_min (\<lambda>e. effectiveCooldownNano (cells h e) target)
      (filter (cooling h exclude allow target now) (entries pl)) = Some p"
    by (simp add: choice_def)
  from first_min_Some(1,2) [OF m] True show thesis
    by (intro cooling) (auto simp: filter_empty_conv)
next
  case False
  with assms have m: "first_min (\<lambda>e. pass (cells h e))
      (filter (ready h exclude allow target now) (entries pl)) = Some p"
    by (simp add: choice_def)
  obtain pre post where s: "filter (ready h exclude allow target now) (entries pl) = pre @ p # post"
    and lt: "\<forall>y \<in> set pre. pass (cells h p) < pass (cells h y)"
    using first_min_Some(3) [OF m] by blast
  obtain us vs where e: "entries pl = us @ p # vs" "filter (ready h exclude allow target now) us = pre"
    using filter_split [OF s] by blast
  have f: "\<forall>q \<in> set us. ready h exclude allow target now q \<longrightarrow> pass (cells h p) < pass (cells h q)"
    using lt e(2) by auto
  have "ready h exclude allow target now p" using first_min_Some(1) [OF m] by simp
  moreover have "\<forall>q \<in> set (entries pl). ready h exclude allow target now q \<longrightarrow>
      pass (cells h p) \<le> pass (cells h q)"
    using first_min_Some(2) [OF m] by simp
  ultimately show thesis using e(1) f by (intro ready) blast+
qed

lemma choice_mem: "choice pl exclude allow target now h = Some p \<Longrightarrow> p \<in> set (entries pl)"
  by (elim choice_cases) auto

lemma choice_candidate:
  "choice pl exclude allow target now h = Some p \<Longrightarrow> candidate exclude allow p"
  by (elim choice_cases) (auto simp: ready_def cooling_def)

lemma choice_serving:
  "choice pl exclude allow target now h = Some p \<Longrightarrow> \<not> authBlocked (cells h p) \<and> \<not> rotating (cells h p)"
  by (elim choice_cases) (auto simp: ready_def cooling_def availableForAt_def availableAt_def)

lemma choice_None:
  "choice pl exclude allow target now h = None \<longleftrightarrow>
     (\<forall>q \<in> set (entries pl). candidate exclude allow q \<longrightarrow> authBlocked (cells h q) \<or> rotating (cells h q))"
  by (auto simp: choice_def Let_def filter_empty_conv ready_def cooling_def availableForAt_def
      availableAt_def split: if_splits)

lemma upd_simps [simp]:
  "cells (upd p f h) q = (if q = p then f (cells h p) else cells h q)" "brk (upd p f h) = brk h"
  by (auto simp: upd_def)

lemma serve_simps [simp]:
  "inFlight (serve p) = inFlight p + 1" "pass (serve p) = pass p + 1"
  "authBlocked (serve p) = authBlocked p" "rotating (serve p) = rotating p"
  "cooldownUntil (serve p) = cooldownUntil p" "targetCool (serve p) = targetCool p"
  "targetPairs (serve p) = targetPairs p" "rotationEpoch (serve p) = rotationEpoch p"
  "Origin (serve p) = Origin p" "URL (serve p) = URL p" "Kind (serve p) = Kind p"
  "lastIP (serve p) = lastIP p" "rotationState (serve p) = rotationState p"
  by (simp_all add: serve_def)

section \<open>The interface of a selector\<close>

text \<open>
  What the serving path relies on when it asks for one route after another: a route that is
  handed out is a member, passes the filter, has not been tried, may serve, and is the only
  thing that changed; and a refusal means that no untried allowed route could serve. The state
  the selector works on and the way a pick marks it are part of the interface.
\<close>

locale route_selector =
  fixes members :: "'r set"
    and pick :: "('r \<Rightarrow> bool) \<Rightarrow> ('r \<Rightarrow> bool) \<Rightarrow> 's \<Rightarrow> 'r option \<times> 's"
    and serving :: "'s \<Rightarrow> 'r \<Rightarrow> bool"
    and mark :: "'r \<Rightarrow> 's \<Rightarrow> 's"
  assumes pick_some: "pick ex al s = (Some r, s') \<Longrightarrow>
      r \<in> members \<and> al r \<and> \<not> ex r \<and> serving s r \<and> s' = mark r s"
    and pick_none: "pick ex al s = (None, s') \<Longrightarrow>
      s' = s \<and> (\<forall>r \<in> members. al r \<and> \<not> ex r \<longrightarrow> \<not> serving s r)"
begin

text \<open>Asking again with everything already handed out excluded: the routes are distinct members,
  so the asking ends after at most as many rounds as there are members.\<close>

fun ask :: "nat \<Rightarrow> ('r \<Rightarrow> bool) \<Rightarrow> 'r list \<Rightarrow> 's \<Rightarrow> 'r list \<times> 's" where
  "ask 0 al tried s = (tried, s)"
| "ask (Suc n) al tried s =
     (case pick (\<lambda>r. r \<in> set tried) al s of
        (None, s') \<Rightarrow> (tried, s')
      | (Some r, s') \<Rightarrow> ask n al (tried @ [r]) s')"

lemma ask_distinct:
  "distinct tried \<Longrightarrow> set tried \<subseteq> members \<Longrightarrow> ask n al tried s = (rs, s') \<Longrightarrow>
     distinct rs \<and> set rs \<subseteq> members \<and> length rs \<le> length tried + n"
proof (induction n al tried s rule: ask.induct)
  case (2 n al tried s)
  obtain r s1 where p: "pick (\<lambda>r. r \<in> set tried) al s = (r, s1)" by fastforce
  show ?case
  proof (cases r)
    case None
    with 2 p show ?thesis by auto
  next
    case (Some x)
    with pick_some p have "x \<in> members" "x \<notin> set tried" by blast+
    with 2 p Some show ?thesis by fastforce
  qed
qed simp

text \<open>With enough rounds the asking stops because nothing that may serve is left.\<close>

lemma ask_exhausts:
  assumes "finite members"
  shows "distinct tried \<Longrightarrow> set tried \<subseteq> members \<Longrightarrow> card members < length tried + n \<Longrightarrow>
     ask n al tried s = (rs, s') \<Longrightarrow> \<forall>r \<in> members. al r \<and> serving s' r \<longrightarrow> r \<in> set rs"
proof (induction n al tried s rule: ask.induct)
  case (1 al tried s)
  then have "length tried \<le> card members"
    by (metis assms card_mono distinct_card)
  with 1 show ?case by simp
next
  case (2 n al tried s)
  obtain r s1 where p: "pick (\<lambda>r. r \<in> set tried) al s = (r, s1)" by fastforce
  show ?case
  proof (cases r)
    case None
    with 2 p show ?thesis by (auto dest: pick_none)
  next
    case (Some x)
    with pick_some p have x: "x \<in> members" "x \<notin> set tried" by blast+
    have "ask n al (tried @ [x]) s1 = (rs, s')" using 2(5) p Some by simp
    then show ?thesis using 2 p Some x by (intro 2(1) [OF p [symmetric] Some]) auto
  qed
qed

end

definition pool_pick ::
    "pool \<Rightarrow> string \<Rightarrow> instant \<Rightarrow> (pref \<Rightarrow> bool) \<Rightarrow> (pref \<Rightarrow> bool) \<Rightarrow> heap \<Rightarrow> pref option \<times> heap" where
  "pool_pick pl target now exclude allow h = PickFor pl exclude (Some allow) target now h"

definition may_serve :: "heap \<Rightarrow> pref \<Rightarrow> bool" where
  "may_serve h p \<longleftrightarrow> \<not> authBlocked (cells h p) \<and> \<not> rotating (cells h p)"

interpretation selector: route_selector "set (entries pl)" "pool_pick pl target now" may_serve
    "\<lambda>p. upd p serve" for pl target now
proof
  show "r \<in> set (entries pl) \<and> al r \<and> \<not> ex r \<and> may_serve s r \<and> s' = upd r serve s"
    if "pool_pick pl target now ex al s = (Some r, s')" for ex al s r s'
    using that
    by (auto simp: pool_pick_def PickFor_choice candidate_def allowed_by_def may_serve_def
        split: option.splits dest: choice_mem choice_candidate choice_serving)
  show "s' = s \<and> (\<forall>r \<in> set (entries pl). al r \<and> \<not> ex r \<longrightarrow> \<not> may_serve s r)"
    if "pool_pick pl target now ex al s = (None, s')" for ex al s s'
    using that
    by (auto simp: pool_pick_def PickFor_choice choice_None candidate_def allowed_by_def
        may_serve_def split: option.splits)
qed

section \<open>Round robin\<close>

lemma first_min_eqI:
  assumes "r < length xs" and "\<And>i. i < r \<Longrightarrow> f (xs ! r) < f (xs ! i)"
    and "\<And>i. i < length xs \<Longrightarrow> f (xs ! r) \<le> f (xs ! i)"
  shows "first_min f xs = Some (xs ! r)"
proof (cases "first_min f xs")
  case None
  with assms(1) show ?thesis by simp
next
  case (Some m)
  obtain pre post where xs: "xs = pre @ m # post" and lt: "\<forall>y \<in> set pre. f m < f y"
    using first_min_Some(3) [OF Some] by blast
  have m: "m = xs ! length pre" "length pre < length xs" by (simp_all add: xs)
  have "f m \<le> f (xs ! r)" using first_min_Some(2) [OF Some] assms(1) by simp
  with assms(2) m have "\<not> length pre < r" by (metis leD)
  moreover have "\<not> r < length pre"
  proof
    assume "r < length pre"
    then have "xs ! r \<in> set pre" by (simp add: xs nth_append)
    with lt assms(3) m show False by (metis leD)
  qed
  ultimately show ?thesis using Some m by simp
qed

text \<open>Repeated picks for one target, each at its own time, with nothing excluded.\<close>

fun picks :: "pool \<Rightarrow> string \<Rightarrow> instant list \<Rightarrow> heap \<Rightarrow> pref option list" where
  "picks pl target [] h = []"
| "picks pl target (t # ts) h =
     (let (r, h') = PickFor pl (\<lambda>_. False) None target t h in r # picks pl target ts h')"

definition idle_route :: "proxy \<Rightarrow> bool" where
  "idle_route p \<longleftrightarrow> \<not> authBlocked p \<and> \<not> rotating p \<and> cooldownUntil p = 0 \<and> targetPairs p = 0"

definition rotation_at :: "pool \<Rightarrow> nat \<Rightarrow> nat \<Rightarrow> heap \<Rightarrow> bool" where
  "rotation_at pl n k h \<longleftrightarrow>
     (\<forall>i < length (entries pl). idle_route (cells h (entries pl ! i)) \<and>
        pass (cells h (entries pl ! i)) =
          of_nat (n + k div length (entries pl) + (if i < k mod length (entries pl) then 1 else 0)))"

lemma idle_available: "idle_route p \<Longrightarrow> availableForAt p target now"
  by (simp add: idle_route_def availableForAt_def availableAt_def pairDeadlineNano_def)

lemma Suc_div_mod:
  "0 < L \<Longrightarrow> Suc k div L = (if Suc (k mod L) = L then Suc (k div L) else k div L)"
  "0 < L \<Longrightarrow> Suc k mod L = (if Suc (k mod L) = L then 0 else Suc (k mod L))"
  by (simp_all add: div_Suc mod_Suc)

lemma of_nat_less_next: "m + 1 < 2 ^ 64 \<Longrightarrow> (of_nat m :: u64) < of_nat (m + 1)"
  by (simp add: word_less_nat_alt unat_of_nat del: of_nat_Suc of_nat_add)

lemma rotation_step:
  assumes "distinct (entries pl)" and "entries pl \<noteq> []" and "rotation_at pl n k h"
    and bound: "n + k div length (entries pl) + 1 < 2 ^ 64"
  shows "PickFor pl (\<lambda>_. False) None target t h =
      (Some (entries pl ! (k mod length (entries pl))),
       upd (entries pl ! (k mod length (entries pl))) serve h)" (is ?pick)
    and "rotation_at pl n (Suc k) (upd (entries pl ! (k mod length (entries pl))) serve h)" (is ?inv)
proof -
  let ?L = "length (entries pl)" and ?r = "k mod length (entries pl)" and ?q = "k div length (entries pl)"
  have L: "0 < ?L" "?r < ?L" using assms(2) by simp_all
  have at: "pass (cells h (entries pl ! i)) = of_nat (n + ?q + (if i < ?r then 1 else 0))"
    and idle: "idle_route (cells h (entries pl ! i))" if "i < ?L" for i
    using assms(3) that by (simp_all add: rotation_at_def)
  have lt: "(of_nat (n + ?q) :: u64) < of_nat (n + ?q + 1)"
    using bound by (intro of_nat_less_next)
  have all: "filter (ready h (\<lambda>_. False) None target t) (entries pl) = entries pl"
    using idle idle_available
    by (auto simp: filter_id_conv ready_def candidate_def allowed_by_def in_set_conv_nth)
  have "first_min (\<lambda>e. pass (cells h e)) (entries pl) = Some (entries pl ! ?r)"
  proof (rule first_min_eqI)
    show "pass (cells h (entries pl ! ?r)) < pass (cells h (entries pl ! i))" if "i < ?r" for i
      using that at [OF less_trans [OF that L(2)]] at [OF L(2)] lt by (simp add: add.commute)
    show "pass (cells h (entries pl ! ?r)) \<le> pass (cells h (entries pl ! i))" if "i < ?L" for i
      using at [OF that] at [OF L(2)] lt by (auto simp: order.strict_implies_order add.commute)
  qed (rule L)
  with all assms(2) show ?pick by (simp add: PickFor_choice choice_def Let_def)
  show ?inv
    unfolding rotation_at_def
  proof (intro allI impI conjI)
    fix i assume i: "i < ?L"
    have eq: "entries pl ! i = entries pl ! ?r \<longleftrightarrow> i = ?r"
      using assms(1) i L by (simp add: nth_eq_iff_index_eq)
    show "idle_route (cells (upd (entries pl ! ?r) serve h) (entries pl ! i))"
      using idle [OF i] idle [OF L(2)] by (simp add: idle_route_def)
    show "pass (cells (upd (entries pl ! ?r) serve h) (entries pl ! i)) =
        of_nat (n + Suc k div ?L + (if i < Suc k mod ?L then 1 else 0))"
      unfolding Suc_div_mod [OF L(1)] upd_simps eq
      using at [OF i] at [OF L(2)] i by (auto simp: less_Suc_eq)
  qed
qed

lemma picks_from:
  assumes "distinct (entries pl)" and "entries pl \<noteq> []"
  shows "rotation_at pl n k h \<Longrightarrow> n + (k + length ts) div length (entries pl) + 1 < 2 ^ 64 \<Longrightarrow>
    picks pl target ts h =
      map (\<lambda>j. Some (entries pl ! (j mod length (entries pl)))) [k ..< k + length ts]"
proof (induction ts arbitrary: k h)
  case (Cons t ts)
  have "k div length (entries pl) \<le> (k + length (t # ts)) div length (entries pl)"
    by (rule div_le_mono) simp
  with Cons.prems have b: "n + k div length (entries pl) + 1 < 2 ^ 64" by linarith
  from rotation_step(1) [OF assms Cons.prems(1) b, of target t] rotation_step(2) [OF assms Cons.prems(1) b]
  show ?case using Cons.IH [of "Suc k"] Cons.prems(2)
    by (simp add: upt_conv_Cons del: upt_Suc)
qed simp

section \<open>Properties of selection\<close>

text \<open>Claim C1: the contract of a pick. A route that is returned belongs to the pool, passes the
  filter, is not excluded, is neither auth-blocked nor rotating, and the only change to the shared
  state is one in-flight hold and one recency step on it. If any allowed route is available for the
  target, the pick is the available one with the smallest recency pass, the first in pool order
  among equals; if all are cooling, it is the one that recovers soonest for this target under
  both cooldown scopes. No route is returned exactly when every candidate is blocked or rotating,
  and then nothing changes.\<close>

theorem PickFor_contract:
  "case PickFor pl exclude allow target now h of
     (None, h') \<Rightarrow> h' = h \<and>
       (\<forall>q \<in> set (entries pl). candidate exclude allow q \<longrightarrow> \<not> may_serve h q)
   | (Some p, h') \<Rightarrow>
       p \<in> set (entries pl) \<and> candidate exclude allow p \<and> may_serve h p \<and> h' = upd p serve h \<and>
       (if \<exists>q \<in> set (entries pl). ready h exclude allow target now q
        then ready h exclude allow target now p \<and>
          (\<forall>q \<in> set (entries pl). ready h exclude allow target now q \<longrightarrow>
             pass (cells h p) \<le> pass (cells h q)) \<and>
          (\<exists>us vs. entries pl = us @ p # vs \<and>
             (\<forall>q \<in> set us. ready h exclude allow target now q \<longrightarrow> pass (cells h p) < pass (cells h q)))
        else \<forall>q \<in> set (entries pl). cooling h exclude allow target now q \<longrightarrow>
               effectiveCooldownNano (cells h p) target \<le> effectiveCooldownNano (cells h q) target)"
proof (cases "choice pl exclude allow target now h")
  case None
  from iffD1 [OF choice_None None] None show ?thesis
    by (simp add: PickFor_choice may_serve_def)
next
  case (Some p)
  have mem: "p \<in> set (entries pl)" "candidate exclude allow p" "may_serve h p"
    using choice_mem [OF Some] choice_candidate [OF Some] choice_serving [OF Some]
    by (simp_all add: may_serve_def)
  from Some show ?thesis
  proof (cases rule: choice_cases)
    case ready
    with mem Some show ?thesis by (auto simp: PickFor_choice)
  next
    case cooling
    with mem Some show ?thesis by (auto simp: PickFor_choice)
  qed
qed

definition demo_spec_route :: "string \<Rightarrow> route_origin \<Rightarrow> route_spec" where
  "demo_spec_route h og = \<lparr>spec_ID = h, spec_URL = demo_url None (h @ '':1''), spec_Kind = EgressV4, spec_Origin = og\<rparr>"

definition demo_heap :: "nat \<Rightarrow> heap" where
  "demo_heap n = \<lparr>cells = (\<lambda>i. newProxy (demo_spec_route (Itoa (int i)) RouteOriginManual) 0), brk = n\<rparr>"

definition demo_pool :: "nat \<Rightarrow> pool" where
  "demo_pool n = \<lparr>pool_id = 100, entries = [0..<n], ids = (\<lambda>i. Some (Itoa (int i))),
     base = second, maxCooldown = 60 * second\<rparr>"

theorem PickFor_contract_witness:
  "\<exists>h'. PickFor (demo_pool 3) (\<lambda>p. p = 0) None ''a:1'' 5 (demo_heap 3) = (Some 1, h') \<and>
     inFlight (cells h' 1) = 1 \<and> inFlight (cells h' 2) = 0"
proof -
  have "fst (PickFor (demo_pool 3) (\<lambda>p. p = 0) None ''a:1'' 5 (demo_heap 3)) = Some 1" by code_simp
  then obtain h' where p: "PickFor (demo_pool 3) (\<lambda>p. p = 0) None ''a:1'' 5 (demo_heap 3) = (Some 1, h')"
    by (metis prod.collapse)
  from PickFor_contract [where pl = "demo_pool 3" and exclude = "\<lambda>p. p = 0" and allow = None
      and target = "''a:1''" and now = 5 and h = "demo_heap 3"] p
  have "h' = upd 1 serve (demo_heap 3)" by simp
  with p show ?thesis by (simp add: demo_heap_def newProxy_def Let_def)
qed

text \<open>round robin. On a pool of routes with equal recency that stay eligible, the
  \<open>k\<close>-th pick is the route at position \<open>k mod n\<close> in pool order: in any run each route is handed
  out equally often up to one, whatever the times of the picks, as long as the 64-bit recency
  clock does not wrap.\<close>

theorem PickFor_round_robin:
  assumes "distinct (entries pl)" and "entries pl \<noteq> []"
    and "\<forall>e \<in> set (entries pl). idle_route (cells h e) \<and> pass (cells h e) = of_nat n"
    and "n + length ts div length (entries pl) + 1 < 2 ^ 64"
  shows "picks pl target ts h =
    map (\<lambda>k. Some (entries pl ! (k mod length (entries pl)))) [0 ..< length ts]"
  using assms by (intro picks_from [where k = 0 and n = n, simplified]) (auto simp: rotation_at_def)

theorem PickFor_round_robin_witness:
  "picks (demo_pool 3) ''a:1'' [0, 1, 2, 3, 4] (demo_heap 3) = [Some 0, Some 1, Some 2, Some 0, Some 1]"
  using PickFor_round_robin [of "demo_pool 3" "demo_heap 3" 0 "[0, 1, 2, 3, 4]" "''a:1''"]
  by (simp add: demo_pool_def demo_heap_def newProxy_def idle_route_def Let_def upt_rec)

text \<open>a request that keeps asking with everything it was already given excluded never
  receives a route twice, and within one more round than the pool has routes it has been given
  every allowed route that may serve.\<close>

theorem PickFor_exhausts:
  assumes "selector.ask pl target now (Suc (length (entries pl))) allow [] h = (rs, h')"
  shows "distinct rs \<and> set rs \<subseteq> set (entries pl) \<and>
    (\<forall>r \<in> set (entries pl). allow r \<and> may_serve h' r \<longrightarrow> r \<in> set rs)"
proof -
  have "card (set (entries pl)) < length [] + Suc (length (entries pl))"
    using card_length [of "entries pl"] by simp
  with selector.ask_exhausts [OF _ _ _ this assms] selector.ask_distinct [OF _ _ assms]
  show ?thesis by simp
qed

theorem PickFor_exhausts_witness:
  "\<exists>rs h'. selector.ask (demo_pool 3) ''a:1'' 5 4 (\<lambda>_. True) [] (demo_heap 3) = (rs, h') \<and> distinct rs"
proof -
  obtain rs h' where a: "selector.ask (demo_pool 3) ''a:1'' 5 (Suc (length (entries (demo_pool 3)))) (\<lambda>_. True) []
      (demo_heap 3) = (rs, h')" by fastforce
  moreover have "Suc (length (entries (demo_pool 3))) = 4" by (simp add: demo_pool_def)
  ultimately show ?thesis using PickFor_exhausts [OF a] by auto
qed

end
