(* ===== verification/RouteHealth.thy ===== *)
theory RouteHealth
  imports PoolSelect
begin

text \<open>
  Correctness of the state one route keeps: the bounded map of target cooldowns with its cached
  size, the streak curves, what a success and a verified rotation clear, the rotation phase and
  the exact counters of successful rotations. \<open>route_step\<close> is every operation the program
  performs on a route; the invariant holds in every reachable state.
\<close>

section \<open>The target map\<close>

definition pairs_ok :: "proxy \<Rightarrow> bool" where
  "pairs_ok p \<longleftrightarrow> distinct (keys (targetCool p)) \<and>
     targetPairs p = int (length (targetCool p)) \<and>
     length (targetCool p) \<le> maxTrackedTargetPairs \<and>
     (\<forall>x \<in> set (targetCool p). fst x \<noteq> [] \<and> deadline (snd x) < max_int64)"

definition expired :: "int \<Rightarrow> target_cooldown \<Rightarrow> bool" where
  "expired nowNano e \<longleftrightarrow> deadline e \<noteq> 0 \<and> deadline e \<le> nowNano"

lemma evict_scan_step:
  "evict_scan nowNano (x # es) soonest sk =
     (if expired nowNano (snd x) then Some (fst x)
      else if deadline (snd x) < soonest then evict_scan nowNano es (deadline (snd x)) (fst x)
      else evict_scan nowNano es soonest sk)"
  by (cases x) (simp add: Let_def expired_def)

declare evict_scan.simps(2) [simp del]

lemma evict_scan_expired:
  "\<exists>y \<in> set es. expired nowNano (snd y) \<Longrightarrow>
     \<exists>y \<in> set es. evict_scan nowNano es soonest sk = Some (fst y) \<and> expired nowNano (snd y)"
proof (induction es arbitrary: soonest sk)
  case (Cons x es)
  show ?case
  proof (cases "expired nowNano (snd x)")
    case True
    then show ?thesis by (simp add: evict_scan_step)
  next
    case False
    with Cons.prems have "\<exists>y \<in> set es. expired nowNano (snd y)" by simp
    note ih = Cons.IH [OF this]
    from ih [of "deadline (snd x)" "fst x"] ih [of soonest sk] False show ?thesis
      by (simp add: evict_scan_step)
  qed
qed simp

lemma evict_scan_tracking:
  assumes "\<forall>y \<in> set es. \<not> expired nowNano (snd y) \<and> fst y \<noteq> []" and "sk \<noteq> []"
  shows "(evict_scan nowNano es soonest sk = Some sk \<and> (\<forall>y \<in> set es. soonest \<le> deadline (snd y))) \<or>
    (\<exists>z \<in> set es. evict_scan nowNano es soonest sk = Some (fst z) \<and> deadline (snd z) < soonest \<and>
       (\<forall>y \<in> set es. deadline (snd z) \<le> deadline (snd y)))"
  using assms
proof (induction es arbitrary: soonest sk)
  case (Cons x es)
  have h: "\<not> expired nowNano (snd x)" "fst x \<noteq> []"
    and rest: "\<forall>y \<in> set es. \<not> expired nowNano (snd y) \<and> fst y \<noteq> []"
    using Cons.prems by auto
  show ?case
  proof (cases "deadline (snd x) < soonest")
    case True
    have step: "evict_scan nowNano (x # es) soonest sk = evict_scan nowNano es (deadline (snd x)) (fst x)"
      using h(1) True by (simp add: evict_scan_step)
    have "\<exists>z \<in> set (x # es). evict_scan nowNano es (deadline (snd x)) (fst x) = Some (fst z) \<and>
        deadline (snd z) < soonest \<and> (\<forall>y \<in> set (x # es). deadline (snd z) \<le> deadline (snd y))"
      using Cons.IH [OF rest h(2), of "deadline (snd x)"] True
      by (elim disjE bexE) (auto intro: bexI [of _ x])
    then show ?thesis unfolding step by blast
  next
    case False
    have step: "evict_scan nowNano (x # es) soonest sk = evict_scan nowNano es soonest sk"
      using h(1) False by (simp add: evict_scan_step)
    show ?thesis
      unfolding step using Cons.IH [OF rest Cons.prems(2), of soonest] False
      by (elim disjE bexE) auto
  qed
qed simp

lemma evict_scan_soonest:
  assumes "\<forall>y \<in> set es. \<not> expired nowNano (snd y) \<and> fst y \<noteq> [] \<and> deadline (snd y) < max_int64"
    and "es \<noteq> []"
  shows "\<exists>z \<in> set es. evict_scan nowNano es max_int64 [] = Some (fst z) \<and>
    (\<forall>y \<in> set es. deadline (snd z) \<le> deadline (snd y))"
proof -
  obtain x es' where es: "es = x # es'" using assms(2) by (cases es) auto
  have h: "\<not> expired nowNano (snd x)" "fst x \<noteq> []" "deadline (snd x) < max_int64"
    and rest: "\<forall>y \<in> set es'. \<not> expired nowNano (snd y) \<and> fst y \<noteq> []"
    using assms(1) es by auto
  have step: "evict_scan nowNano es max_int64 [] = evict_scan nowNano es' (deadline (snd x)) (fst x)"
    using h by (simp add: es evict_scan_step)
  show ?thesis
    unfolding step unfolding es
    using evict_scan_tracking [OF rest h(2), of "deadline (snd x)"]
    by (elim disjE bexE) auto
qed

text \<open>Which pair an eviction removes, in terms of the map.\<close>

lemma evictTargetPair_policy:
  assumes "set (order m) = set m" and "m \<noteq> []"
    and "\<forall>y \<in> set m. fst y \<noteq> [] \<and> deadline (snd y) < max_int64"
  shows "\<exists>z \<in> set m. evictTargetPair order m nowNano = AList.delete (fst z) m \<and>
    (if \<exists>y \<in> set m. expired nowNano (snd y) then expired nowNano (snd z)
     else \<forall>y \<in> set m. deadline (snd z) \<le> deadline (snd y))"
proof (cases "\<exists>y \<in> set m. expired nowNano (snd y)")
  case True
  then obtain z where "z \<in> set m" "evict_scan nowNano (order m) max_int64 [] = Some (fst z)"
    "expired nowNano (snd z)"
    using evict_scan_expired [of "order m" nowNano max_int64 "[]"] assms(1) by auto
  with True show ?thesis by (auto simp: evictTargetPair_def intro: bexI [of _ z])
next
  case False
  have "order m \<noteq> []" using assms(1,2) by auto
  moreover have "\<forall>y \<in> set (order m). \<not> expired nowNano (snd y) \<and> fst y \<noteq> [] \<and> deadline (snd y) < max_int64"
    using False assms(1,3) by auto
  ultimately obtain z where "z \<in> set m" "evict_scan nowNano (order m) max_int64 [] = Some (fst z)"
    "\<forall>y \<in> set m. deadline (snd z) \<le> deadline (snd y)"
    using evict_scan_soonest [of "order m" nowNano] assms(1) by auto
  with False show ?thesis by (auto simp: evictTargetPair_def intro: bexI [of _ z])
qed

lemma evictTargetPair_length:
  assumes "set (order m) = set m" and "m \<noteq> []" and "distinct (keys m)"
    and "\<forall>y \<in> set m. fst y \<noteq> [] \<and> deadline (snd y) < max_int64"
  shows "\<exists>k \<in> set (keys m). evictTargetPair order m nowNano = AList.delete k m \<and>
    Suc (length (evictTargetPair order m nowNano)) = length m"
proof -
  obtain z where z: "z \<in> set m" "evictTargetPair order m nowNano = AList.delete (fst z) m"
    using evictTargetPair_policy [of order m nowNano] assms by blast
  from z(1) have "fst z \<in> set (keys m)" by (simp add: keys_def)
  moreover from assms(2) have "0 < length m" by simp
  ultimately show ?thesis using assms(3) z(2) by (auto simp: length_delete intro!: bexI [of _ "fst z"])
qed

section \<open>A refused target\<close>

definition streak :: "proxy \<Rightarrow> string \<Rightarrow> int" where
  "streak p target = (case map_of (targetCool p) target of None \<Rightarrow> 0 | Some e \<Rightarrow> consecutive e)"

text \<open>The pairs a report keeps beside the reported one: all, or all but the evicted pair when the
  target is new and the map is full.\<close>

definition kept_pairs ::
    "((string \<times> target_cooldown) list \<Rightarrow> (string \<times> target_cooldown) list) \<Rightarrow> instant \<Rightarrow> string \<Rightarrow>
     proxy \<Rightarrow> (string \<times> target_cooldown) list" where
  "kept_pairs order now target p =
     (if map_of (targetCool p) target = None \<and> maxTrackedTargetPairs \<le> length (targetCool p)
      then evictTargetPair order (targetCool p) (relNanos now) else targetCool p)"

lemma map_of_none_keys: "map_of m k = None \<longleftrightarrow> k \<notin> set (keys m)"
  by (simp add: keys_def map_of_eq_None_iff)

lemma update_update: "AList.update k v (AList.update k w m) = AList.update k v m"
  by (induction m) auto

lemma kept_pairs_other: "map_of (kept_pairs order now target p) target = map_of (targetCool p) target"
proof (cases "map_of (targetCool p) target")
  case None
  then show ?thesis
    by (auto simp: kept_pairs_def evictTargetPair_def map_of_delete split: option.splits)
qed (simp add: kept_pairs_def)

lemma report_target_failure_eq:
  "report_target_failure order bs mx now target p =
    (let cd = SaturatingCooldown bs mx (streak p target + 1);
         e = \<lparr>deadline = relNanos (now + cd), consecutive = streak p target + 1\<rparr>;
         m = AList.update target e (kept_pairs order now target p)
     in (p\<lparr>targetFailures := targetFailures p + 1, targetCool := m,
           targetPairs := (if map_of (targetCool p) target = None then int (length m) else targetPairs p)\<rparr>, cd))"
proof (cases "map_of (targetCool p) target")
  case None
  then have "map_of (kept_pairs order now target p) target = None" by (simp add: kept_pairs_other)
  with None show ?thesis
    by (simp add: report_target_failure_def kept_pairs_def streak_def Let_def update_update length_update
        cong: if_cong)
next
  case (Some e)
  then show ?thesis
    by (cases e) (simp add: report_target_failure_def kept_pairs_def streak_def Let_def)
qed

lemma keys_update_set: "set (keys (AList.update k v m)) = insert k (set (keys m))"
  by (auto simp: keys_update)

lemma update_mem: "x \<in> set (AList.update k v m) \<Longrightarrow> x = (k, v) \<or> x \<in> set m"
  by (induction m) (auto split: if_splits)

lemma delete_mem: "x \<in> set (AList.delete k m) \<Longrightarrow> x \<in> set m"
  by (induction m) (auto split: if_splits)

lemma kept_pairs_ok:
  fixes now :: instant and target :: string
  assumes "pairs_ok p" and "\<And>m. set (order m) = set m"
  defines "m \<equiv> kept_pairs order now target p"
  shows "distinct (keys m)" and "\<forall>x \<in> set m. x \<in> set (targetCool p)"
    and "map_of (targetCool p) target = None \<Longrightarrow> length m < maxTrackedTargetPairs"
    and "map_of (targetCool p) target \<noteq> None \<Longrightarrow> m = targetCool p"
proof -
  note ok = assms(1)[unfolded pairs_ok_def]
  show "distinct (keys m)"
    using ok by (auto simp: m_def kept_pairs_def evictTargetPair_def distinct_keys_delete split: option.splits)
  show "\<forall>x \<in> set m. x \<in> set (targetCool p)"
    by (auto simp: m_def kept_pairs_def evictTargetPair_def dest!: delete_mem split: option.splits if_splits)
  show "length m < maxTrackedTargetPairs" if "map_of (targetCool p) target = None"
  proof (cases "maxTrackedTargetPairs \<le> length (targetCool p)")
    case True
    then have ne: "targetCool p \<noteq> []" by (auto simp: maxTrackedTargetPairs_def)
    have "Suc (length (evictTargetPair order (targetCool p) (relNanos now))) = length (targetCool p)"
      using evictTargetPair_length [of order "targetCool p" "relNanos now"] assms(2) ne ok by blast
    with True ok that show ?thesis by (simp add: m_def kept_pairs_def)
  qed (simp add: m_def kept_pairs_def)
  show "m = targetCool p" if "map_of (targetCool p) target \<noteq> None"
    using that by (auto simp: m_def kept_pairs_def)
qed

lemma SaturatingCooldown_bound: "mx \<le> max_int64 \<Longrightarrow> SaturatingCooldown bs mx n \<le> max 0 mx"
  using SaturatingCooldown_le [of mx bs n]
  by (cases "0 < mx") (auto simp: SaturatingCooldown_def)

lemma relNanos_mono: "a \<le> b \<Longrightarrow> relNanos a \<le> relNanos b"
  by (simp add: relNanos_def sat64_mono)

lemma pairs_ok_target_failure:
  assumes "pairs_ok p" and "\<And>m. set (order m) = set m" and "target \<noteq> []"
    and "mx \<le> max_int64" and "relNanos (now + max 0 mx) < max_int64"
  shows "pairs_ok (fst (report_target_failure order bs mx now target p))"
proof -
  define cd where "cd = SaturatingCooldown bs mx (streak p target + 1)"
  define e where "e = \<lparr>deadline = relNanos (now + cd), consecutive = streak p target + 1\<rparr>"
  define m where "m = kept_pairs order now target p"
  note k = kept_pairs_ok [OF assms(1,2), where now = now and target = target, folded m_def]
  note ok = assms(1)[unfolded pairs_ok_def]
  have "relNanos (now + cd) \<le> relNanos (now + max 0 mx)"
    unfolding cd_def using SaturatingCooldown_bound [OF assms(4)] by (intro relNanos_mono) simp
  then have dl: "deadline e < max_int64" using assms(5) by (simp add: e_def)
  have len: "length (AList.update target e m) \<le> maxTrackedTargetPairs \<and>
      (map_of (targetCool p) target \<noteq> None \<longrightarrow> length (AList.update target e m) = length (targetCool p))"
  proof (cases "map_of (targetCool p) target")
    case None
    with k(3) show ?thesis by (simp add: length_update)
  next
    case (Some x)
    then have "target \<in> set (keys (targetCool p))" "m = targetCool p"
      using k(4) map_of_none_keys [of "targetCool p" target] by auto
    then have "length (AList.update target e m) = length (targetCool p)" by (simp add: length_update)
    with ok show ?thesis by simp
  qed
  have "fst x \<noteq> [] \<and> deadline (snd x) < max_int64" if "x \<in> set (AList.update target e m)" for x
    using update_mem [OF that] k(2) ok dl assms(3) by auto
  then show ?thesis
    using ok k(1) len
    unfolding report_target_failure_eq Let_def cd_def [symmetric] e_def [symmetric] m_def [symmetric]
    by (auto simp: pairs_ok_def distinct_keys_update)
qed

lemma pairs_ok_clear: "pairs_ok p \<Longrightarrow> pairs_ok (clearTargetCooldown target p)"
proof -
  assume ok: "pairs_ok p"
  have "length (AList.delete target (targetCool p)) \<le> length (targetCool p)" by (rule length_delete_le)
  with ok show ?thesis
    by (auto simp: pairs_ok_def clearTargetCooldown_def Let_def distinct_keys_delete dest!: delete_mem)
qed

lemma pairs_ok_clear_all: "pairs_ok p \<Longrightarrow> pairs_ok (clearAllTargetCooldowns p)"
  by (auto simp: pairs_ok_def clearAllTargetCooldowns_def)

lemma pairDeadline_map:
  "pairs_ok p \<Longrightarrow> pairDeadlineNano p target =
     (case map_of (targetCool p) target of None \<Rightarrow> 0 | Some e \<Rightarrow> deadline e)"
  by (auto simp: pairs_ok_def pairDeadlineNano_def)

lemma pairDeadline_cong:
  "targetCool q = targetCool p \<Longrightarrow> targetPairs q = targetPairs p \<Longrightarrow> pairDeadlineNano q t = pairDeadlineNano p t"
  by (simp add: pairDeadlineNano_def)

lemma clear_deadline:
  assumes "pairs_ok p"
  shows "pairDeadlineNano (clearTargetCooldown target p) t = (if t = target then 0 else pairDeadlineNano p t)"
proof -
  have "map_of (targetCool (clearTargetCooldown target p)) t =
      (if t = target then None else map_of (targetCool p) t)"
    using assms map_of_none_keys [of "targetCool p" target]
    by (auto simp: clearTargetCooldown_def Let_def map_of_delete pairs_ok_def)
  with assms show ?thesis by (simp add: pairDeadline_map pairs_ok_clear)
qed

section \<open>Every operation on a route\<close>

text \<open>
  The environment of the steps: targets are non-empty \<^verbatim>\<open>host:port\<close> strings, a map visit sees
  exactly the entries, the clock plus the configured maximum stays below the end of the 64-bit
  range (292 years after the start), and the rotation engine runs procedures on manual routes
  only and passes the three phases of a procedure.
\<close>

inductive route_step :: "proxy \<Rightarrow> proxy \<Rightarrow> bool" where
  pick: "route_step p (serve p)"
| release: "route_step p (Release p)"
| success: "route_step p (report_success target p)"
| failure: "route_step p (fst (report_failure bs mx now err p))"
| refused: "(\<And>m. set (order m) = set m) \<Longrightarrow> target \<noteq> [] \<Longrightarrow> mx \<le> max_int64 \<Longrightarrow>
    relNanos (now + max 0 mx) < max_int64 \<Longrightarrow>
    route_step p (fst (report_target_failure order bs mx now target p))"
| auth: "route_step p (report_auth_blocked err p)"
| begin_rotation: "Origin p = RouteOriginManual \<Longrightarrow> in_rotation phase \<Longrightarrow> route_step p (BeginRotation phase p)"
| phase: "in_rotation phase \<Longrightarrow> route_step p (SetRotationPhase phase p)"
| commit: "Origin p = RouteOriginManual \<Longrightarrow> route_step p (fst (EndRotation ip at p))"
| stale: "Origin p = RouteOriginManual \<Longrightarrow> route_step p ((mark_stale retry sameIP p)\<lparr>pass := ps\<rparr>)"
| rotated: "route_step p (MarkRotated p)"
| abandon: "Origin p = RouteOriginManual \<Longrightarrow> route_step p (AbandonRotation p)"
| baseline: "route_step p (SetBaselineIP ip p)"

inductive route_reachable :: "proxy \<Rightarrow> bool" where
  new: "route_reachable (newProxy r anchor)"
| step: "route_reachable p \<Longrightarrow> route_step p q \<Longrightarrow> route_reachable q"

definition phase_ok :: "proxy \<Rightarrow> bool" where
  "phase_ok p \<longleftrightarrow> (rotating p \<longleftrightarrow> in_rotation (rotationState p)) \<and>
     (rotationState p = RotationNone \<longleftrightarrow> Origin p \<noteq> RouteOriginManual)"

definition history_ok :: "proxy \<Rightarrow> bool" where
  "history_ok p \<longleftrightarrow> 0 \<le> ipRevisitCount p \<and> ipRevisitCount p \<le> rotationCount p \<and>
     CanonicalIP (lastIP p) = lastIP p \<and>
     (\<forall>key. IPIdentity (lastIP p) = Some key \<longrightarrow> key \<in> verifiedIPs p)"

definition route_inv :: "proxy \<Rightarrow> bool" where
  "route_inv p \<longleftrightarrow> pairs_ok p \<and> 0 \<le> inFlight p \<and> phase_ok p \<and> history_ok p"

declare route_inv_def [inv_simps] pairs_ok_def [inv_simps] phase_ok_def [inv_simps] history_ok_def [inv_simps]

lemma route_inv_new: "route_inv (newProxy r anchor)"
proof -
  have "IPIdentity [] = None" by (simp add: IPIdentity_def ParseIP_def)
  then show ?thesis
    by (simp add: inv_simps newProxy_def Let_def
        maxTrackedTargetPairs_def in_rotation_def CanonicalIP_def)
qed

lemma clear_frame [simp]:
  "inFlight (clearTargetCooldown t p) = inFlight p" "phase_ok (clearTargetCooldown t p) = phase_ok p"
  "history_ok (clearTargetCooldown t p) = history_ok p"
  "inFlight (clearAllTargetCooldowns p) = inFlight p" "phase_ok (clearAllTargetCooldowns p) = phase_ok p"
  "history_ok (clearAllTargetCooldowns p) = history_ok p"
  by (simp_all add: clearTargetCooldown_def clearAllTargetCooldowns_def phase_ok_def history_ok_def Let_def)

lemma inv_parts:
  "pairs_ok p' \<longleftrightarrow> pairs_ok p" if "targetCool p' = targetCool p" "targetPairs p' = targetPairs p" for p p' :: proxy
  using that by (simp add: pairs_ok_def)

lemma route_inv_success: "route_inv p \<Longrightarrow> route_inv (report_success t p)"
proof -
  assume inv: "route_inv p"
  let ?q = "p\<lparr>consecutiveFailures := 0, lastDialError := [], successes := successes p + 1, cooldownUntil := 0\<rparr>"
  have q: "pairs_ok ?q" "phase_ok ?q" "history_ok ?q" "inFlight ?q = inFlight p"
    using inv by (simp_all add: inv_simps)
  have "pairs_ok (clearTargetCooldown t ?q)" by (rule pairs_ok_clear [OF q(1)])
  then have "pairs_ok (report_success t p)" by (simp add: report_success_def pairs_ok_def Let_def)
  moreover have "phase_ok (report_success t p)" "history_ok (report_success t p)"
    using q clear_frame(2,3) [of t ?q] by (simp_all add: report_success_def Let_def phase_ok_def history_ok_def)
  ultimately show ?thesis using inv by (simp add: route_inv_def report_success_def Let_def)
qed

lemma route_inv_failure: "route_inv p \<Longrightarrow> route_inv (fst (report_failure bs mx now err p))"
  by (simp add: report_failure_def inv_simps Let_def)

lemma route_inv_refused:
  assumes "route_inv p" and "\<And>m. set (order m) = set m" and "target \<noteq> []"
    and "mx \<le> max_int64" and "relNanos (now + max 0 mx) < max_int64"
  shows "route_inv (fst (report_target_failure order bs mx now target p))"
proof -
  have "pairs_ok (fst (report_target_failure order bs mx now target p))"
    using assms by (intro pairs_ok_target_failure) (simp_all add: route_inv_def)
  with assms(1) show ?thesis
    by (simp add: route_inv_def report_target_failure_eq Let_def phase_ok_def history_ok_def)
qed

lemma EndRotation_fields:
  "rotating (fst (EndRotation ip at p)) = False"
  "rotationState (fst (EndRotation ip at p)) = RotationIdle"
  "lastIP (fst (EndRotation ip at p)) = CanonicalIP ip"
  "rotationCount (fst (EndRotation ip at p)) = rotationCount p + 1"
  "ipRevisitCount (fst (EndRotation ip at p)) = ipRevisitCount p + (if snd (EndRotation ip at p) then 1 else 0)"
  "verifiedIPs (fst (EndRotation ip at p)) = verifiedIPs p \<union> set_option (IPIdentity ip)"
  "snd (EndRotation ip at p) \<longleftrightarrow> (\<exists>key. IPIdentity ip = Some key \<and> key \<in> verifiedIPs p)"
  "Origin (fst (EndRotation ip at p)) = Origin p"
  "authBlocked (fst (EndRotation ip at p)) = authBlocked p"
  "cooldownUntil (fst (EndRotation ip at p)) = cooldownUntil p"
  "targetCool (fst (EndRotation ip at p)) = targetCool p"
  "targetPairs (fst (EndRotation ip at p)) = targetPairs p"
  "inFlight (fst (EndRotation ip at p)) = inFlight p"
  "rotationEpoch (fst (EndRotation ip at p)) = rotationEpoch p"
  "pass (fst (EndRotation ip at p)) = pass p"
  "consecutiveSameIP (fst (EndRotation ip at p)) = 0"
  "nextRetryIn (fst (EndRotation ip at p)) = 0"
  by (simp_all add: EndRotation_def Let_def recordVerifiedIP_def split: option.splits)

lemma route_inv_commit:
  "route_inv p \<Longrightarrow> Origin p = RouteOriginManual \<Longrightarrow> route_inv (fst (EndRotation ip at p))"
  using egress.canonical_idem [of ip] egress.parse_canonical [of ip]
  by (auto simp: EndRotation_def inv_simps Let_def
      in_rotation_def recordVerifiedIP_def CanonicalIP_canonical split: option.splits)

lemma route_inv_baseline: "route_inv p \<Longrightarrow> route_inv (SetBaselineIP ip p)"
  using egress.canonical_idem [of ip] egress.parse_canonical [of ip]
  by (auto simp: SetBaselineIP_def inv_simps Let_def
      recordVerifiedIP_def CanonicalIP_canonical split: option.splits)

lemma route_inv_rotated: "route_inv p \<Longrightarrow> route_inv (MarkRotated p)"
proof -
  assume inv: "route_inv p"
  let ?q = "p\<lparr>consecutiveFailures := 0, lastDialError := [], cooldownUntil := 0\<rparr>"
  have q: "pairs_ok ?q" "phase_ok ?q" "history_ok ?q"
    using inv by (simp_all add: inv_simps)
  with pairs_ok_clear_all [OF q(1)] inv show ?thesis by (simp add: route_inv_def MarkRotated_def)
qed

lemma route_inv_simple:
  assumes "route_inv p"
  shows "route_inv (serve p)" "route_inv (Release p)" "route_inv (report_auth_blocked err p)"
    "Origin p = RouteOriginManual \<Longrightarrow> in_rotation ph \<Longrightarrow> route_inv (BeginRotation ph p)"
    "in_rotation ph \<Longrightarrow> route_inv (SetRotationPhase ph p)"
    "Origin p = RouteOriginManual \<Longrightarrow> route_inv ((mark_stale retry sameIP p)\<lparr>pass := ps\<rparr>)"
    "Origin p = RouteOriginManual \<Longrightarrow> route_inv (AbandonRotation p)"
  using assms
  by (auto simp: inv_simps serve_def Release_def
      report_auth_blocked_def BeginRotation_def SetRotationPhase_def mark_stale_def AbandonRotation_def
      in_rotation_def Let_def)

lemma route_inv_step: "route_step p q \<Longrightarrow> route_inv p \<Longrightarrow> route_inv q"
  by (induction rule: route_step.induct)
    (auto intro: route_inv_simple route_inv_success route_inv_failure route_inv_refused
      route_inv_commit route_inv_baseline route_inv_rotated)

lemma route_reachable_inv: "route_reachable p \<Longrightarrow> route_inv p"
  by (induction rule: route_reachable.induct) (auto intro: route_inv_new route_inv_step)

section \<open>Properties of route health\<close>

text \<open>Claim C2: the state of a route is consistent after any sequence of operations. The
  in-flight count is never negative however often a hold is released; the target map has one
  entry per target, never more than the cap, and the cached size that gates the pick path is its
  size; a route is out of picks for rotation exactly while its displayed phase is one of the
  three phases of a procedure, and only a manual route has a phase; revisits never exceed
  successful rotations; and the recorded egress address is canonical and in the route's history.\<close>

theorem route_consistent:
  assumes "route_reachable p"
  shows "0 \<le> inFlight p \<and> length (targetCool p) \<le> maxTrackedTargetPairs \<and>
    targetPairs p = int (length (targetCool p)) \<and> distinct (keys (targetCool p)) \<and>
    (rotating p \<longleftrightarrow> in_rotation (rotationState p)) \<and>
    (rotationState p = RotationNone \<longleftrightarrow> Origin p \<noteq> RouteOriginManual) \<and>
    0 \<le> ipRevisitCount p \<and> ipRevisitCount p \<le> rotationCount p \<and>
    CanonicalIP (lastIP p) = lastIP p \<and>
    (\<forall>key. IPIdentity (lastIP p) = Some key \<longrightarrow> key \<in> verifiedIPs p)"
  using route_reachable_inv [OF assms]
  by (simp add: inv_simps)

definition demo_route :: proxy where
  "demo_route = newProxy (demo_spec_route ''m'' RouteOriginManual) 0"

definition demo_rotated :: proxy where
  "demo_rotated = fst (EndRotation ''::ffff:1.2.3.4'' 9 (BeginRotation RotationDraining (Release demo_route)))"

theorem route_consistent_witness:
  "0 \<le> inFlight demo_rotated \<and> \<not> rotating demo_rotated \<and> rotationCount demo_rotated = 1"
proof -
  let ?p1 = "Release demo_route" and ?p2 = "BeginRotation RotationDraining (Release demo_route)"
  have o: "Origin ?p1 = RouteOriginManual" "Origin ?p2 = RouteOriginManual" by code_simp+
  have "route_reachable demo_route" unfolding demo_route_def by (rule route_reachable.new)
  then have "route_reachable ?p1" by (rule route_reachable.step) (rule route_step.release)
  then have "route_reachable ?p2"
    by (rule route_reachable.step) (rule route_step.begin_rotation [OF o(1)], simp add: in_rotation_def)
  then have r: "route_reachable demo_rotated"
    unfolding demo_rotated_def by (rule route_reachable.step) (rule route_step.commit [OF o(2)])
  have "rotationCount ?p2 = 0" by code_simp
  then have "\<not> rotating demo_rotated" "rotationCount demo_rotated = 1"
    unfolding demo_rotated_def EndRotation_fields by simp_all
  with route_consistent [OF r] show ?thesis by blast
qed

lemma kept_pairs_victim:
  assumes ok: "pairs_ok p" and vis: "\<And>m. set (order m) = set m"
  shows "\<exists>victim. (victim \<noteq> None \<longrightarrow>
      target \<notin> set (keys (targetCool p)) \<and> length (targetCool p) = maxTrackedTargetPairs) \<and>
    (\<forall>t. map_of (kept_pairs order now target p) t = (if Some t = victim then None else map_of (targetCool p) t))"
proof (cases "map_of (targetCool p) target = None \<and> maxTrackedTargetPairs \<le> length (targetCool p)")
  case True
  then have "targetCool p \<noteq> []" by (auto simp: maxTrackedTargetPairs_def)
  then obtain v where "evictTargetPair order (targetCool p) (relNanos now) = AList.delete v (targetCool p)"
    using evictTargetPair_length [of order "targetCool p" "relNanos now"] ok vis
    by (auto simp: pairs_ok_def)
  with True have "kept_pairs order now target p = AList.delete v (targetCool p)" by (simp add: kept_pairs_def)
  with True ok show ?thesis
    by (intro exI [of _ "Some v"]) (auto simp: map_of_delete pairs_ok_def map_of_none_keys)
next
  case False
  then have "kept_pairs order now target p = targetCool p" by (auto simp: kept_pairs_def)
  then show ?thesis by (intro exI [of _ None]) simp
qed

text \<open>Claim C38: an upstream's refusal of one target lands on that pair only. The pair cools for
  the capped doubling of its own streak of refusals, the route's own availability, cooldown,
  failure streak and counters are untouched, and every other target keeps its deadline, except
  the one pair that is evicted when the target is new and the map is full.\<close>

theorem report_target_failure_scope:
  assumes "pairs_ok p" and "\<And>m. set (order m) = set m"
    and "report_target_failure order bs mx now target p = (q, cd)"
  shows "cd = SaturatingCooldown bs mx (streak p target + 1) \<and>
    streak q target = streak p target + 1 \<and>
    pairDeadlineNano q target = relNanos (now + cd) \<and>
    cooldownUntil q = cooldownUntil p \<and> consecutiveFailures q = consecutiveFailures p \<and>
    failures q = failures p \<and> targetFailures q = targetFailures p + 1 \<and>
    (\<forall>t. availableAt q t = availableAt p t) \<and>
    (\<exists>victim. (victim \<noteq> None \<longrightarrow>
         target \<notin> set (keys (targetCool p)) \<and> length (targetCool p) = maxTrackedTargetPairs) \<and>
       (\<forall>t. t \<noteq> target \<longrightarrow>
          pairDeadlineNano q t = (if Some t = victim then 0 else pairDeadlineNano p t)))"
proof -
  define e where "e = \<lparr>deadline = relNanos (now + cd), consecutive = streak p target + 1\<rparr>"
  define m where "m = kept_pairs order now target p"
  from assms(3) have cd: "cd = SaturatingCooldown bs mx (streak p target + 1)"
    and q: "q = p\<lparr>targetFailures := targetFailures p + 1, targetCool := AList.update target e m,
      targetPairs := (if map_of (targetCool p) target = None
        then int (length (AList.update target e m)) else targetPairs p)\<rparr>"
    by (auto simp: report_target_failure_eq Let_def e_def m_def)
  note k = kept_pairs_ok [OF assms(1,2), where now = now and target = target, folded m_def]
  have tp: "targetPairs q \<noteq> 0"
  proof (cases "map_of (targetCool p) target")
    case None
    then show ?thesis by (simp add: q length_update) (metis length_0_conv keys_simps(1) empty_iff list.set(1))
  next
    case (Some x)
    then have "targetCool p \<noteq> []" by auto
    with Some assms(1) show ?thesis by (simp add: q pairs_ok_def)
  qed
  have qm: "map_of (targetCool q) t = (if t = target then Some e else map_of m t)" for t
    by (simp add: q map_of_update)
  have pd: "pairDeadlineNano q t = (if t = target then relNanos (now + cd)
      else case map_of m t of None \<Rightarrow> 0 | Some e \<Rightarrow> deadline e)" for t
    using tp qm by (simp add: pairDeadlineNano_def e_def)
  note kept_pairs_victim [OF assms(1,2), where target = target and now = now, folded m_def]
  then obtain victim where v: "victim \<noteq> None \<longrightarrow>
      target \<notin> set (keys (targetCool p)) \<and> length (targetCool p) = maxTrackedTargetPairs"
    "\<forall>t. map_of m t = (if Some t = victim then None else map_of (targetCool p) t)" by blast
  then have "\<forall>t. t \<noteq> target \<longrightarrow> pairDeadlineNano q t = (if Some t = victim then 0 else pairDeadlineNano p t)"
    by (simp add: pd pairDeadline_map [OF assms(1)])
  with v(1) have others: "\<exists>victim. (victim \<noteq> None \<longrightarrow>
         target \<notin> set (keys (targetCool p)) \<and> length (targetCool p) = maxTrackedTargetPairs) \<and>
       (\<forall>t. t \<noteq> target \<longrightarrow> pairDeadlineNano q t = (if Some t = victim then 0 else pairDeadlineNano p t))"
    by blast
  have "streak q target = streak p target + 1" unfolding streak_def [of q] qm by (simp add: e_def)
  moreover have "pairDeadlineNano q target = relNanos (now + cd)" by (simp add: pd)
  moreover have "cooldownUntil q = cooldownUntil p" "consecutiveFailures q = consecutiveFailures p"
    "failures q = failures p" "targetFailures q = targetFailures p + 1"
    "\<forall>t. availableAt q t = availableAt p t"
    by (simp_all add: q availableAt_def)
  ultimately show ?thesis using cd others by blast
qed

theorem report_target_failure_scope_witness:
  "\<exists>q cd. report_target_failure id second (60 * second) 7 ''a:1'' demo_route = (q, cd) \<and> cd = second \<and>
     pairDeadlineNano q ''a:1'' = 7 + second \<and> pairDeadlineNano q ''b:1'' = 0"
proof -
  obtain q cd where r: "report_target_failure id second (60 * second) 7 ''a:1'' demo_route = (q, cd)"
    by fastforce
  have ok: "pairs_ok demo_route"
    using route_inv_new by (simp add: demo_route_def route_inv_def)
  have c: "SaturatingCooldown second (60 * second) (streak demo_route ''a:1'' + 1) = second"
    "relNanos (7 + second) = 7 + second" "pairDeadlineNano demo_route ''b:1'' = 0"
    by code_simp+
  have "\<And>m :: (string \<times> target_cooldown) list. set (id m) = set m" by simp
  from report_target_failure_scope [OF ok this r] c r show ?thesis by auto
qed

text \<open>what a full map forgets. Whatever order the map is visited in, the evicted pair is
  an expired one if there is any, and otherwise one that recovers no later than every other.\<close>

theorem evictTargetPair_choice:
  assumes "set (order m) = set m" and "m \<noteq> []"
    and "\<forall>y \<in> set m. fst y \<noteq> [] \<and> deadline (snd y) < max_int64"
  shows "\<exists>z \<in> set m. evictTargetPair order m nowNano = AList.delete (fst z) m \<and>
    (if \<exists>y \<in> set m. expired nowNano (snd y) then expired nowNano (snd z)
     else \<forall>y \<in> set m. deadline (snd z) \<le> deadline (snd y))"
  using evictTargetPair_policy [of order m nowNano] assms by blast

definition demo_pairs :: "(string \<times> target_cooldown) list" where
  "demo_pairs = [(''a:1'', \<lparr>deadline = 90, consecutive = 1\<rparr>), (''b:1'', \<lparr>deadline = 50, consecutive = 2\<rparr>)]"

theorem evictTargetPair_choice_witness:
  "\<exists>z \<in> set demo_pairs. evictTargetPair rev demo_pairs 10 = AList.delete (fst z) demo_pairs \<and>
     (\<forall>y \<in> set demo_pairs. deadline (snd z) \<le> deadline (snd y))"
proof -
  have r: "set (rev demo_pairs) = set demo_pairs" by (rule set_rev)
  have h: "demo_pairs \<noteq> []" "\<forall>y \<in> set demo_pairs. fst y \<noteq> [] \<and> deadline (snd y) < max_int64"
    by (simp_all add: demo_pairs_def max_int64_def)
  have "\<not> (\<exists>y \<in> set demo_pairs. expired 10 (snd y))" by (simp add: demo_pairs_def expired_def)
  then show ?thesis using evictTargetPair_choice [of rev demo_pairs 10, OF r h] by simp
qed

text \<open>a success proves the route and this pair good. Unless it is auth-blocked or
  rotating, the route is available for the target at once and at any time; the failure streak is
  zero; the deadlines of all other targets, an auth block and a rotation stay as they were.\<close>

theorem report_success_clears:
  assumes "pairs_ok p"
  shows "(\<forall>t. availableForAt (report_success target p) target t \<longleftrightarrow> \<not> authBlocked p \<and> \<not> rotating p) \<and>
    consecutiveFailures (report_success target p) = 0 \<and>
    (\<forall>other. other \<noteq> target \<longrightarrow>
       pairDeadlineNano (report_success target p) other = pairDeadlineNano p other) \<and>
    authBlocked (report_success target p) = authBlocked p \<and>
    rotating (report_success target p) = rotating p \<and>
    pass (report_success target p) = pass p + 1"
proof -
  let ?q = "p\<lparr>consecutiveFailures := 0, lastDialError := [], successes := successes p + 1, cooldownUntil := 0\<rparr>"
  have q: "pairs_ok ?q" using assms by (simp add: pairs_ok_def)
  have pd: "pairDeadlineNano (report_success target p) t = (if t = target then 0 else pairDeadlineNano p t)" for t
  proof -
    have "pairDeadlineNano (report_success target p) t = pairDeadlineNano (clearTargetCooldown target ?q) t"
      by (rule pairDeadline_cong) (simp_all add: report_success_def Let_def)
    moreover have "pairDeadlineNano ?q t = pairDeadlineNano p t" by (rule pairDeadline_cong) simp_all
    ultimately show ?thesis using clear_deadline [OF q, of target t] by simp
  qed
  have "availableAt (report_success target p) t \<longleftrightarrow> \<not> authBlocked p \<and> \<not> rotating p" for t
    by (simp add: report_success_def Let_def availableAt_def clearTargetCooldown_def)
  with pd show ?thesis
    by (simp add: availableForAt_def) (simp add: report_success_def Let_def clearTargetCooldown_def)
qed

theorem report_success_clears_witness:
  "availableForAt (report_success ''a:1'' (demo_route\<lparr>cooldownUntil := 99\<rparr>)) ''a:1'' 5"
  using report_success_clears [of "demo_route\<lparr>cooldownUntil := 99\<rparr>" "''a:1''"]
  by (simp add: demo_route_def newProxy_def Let_def pairs_ok_def maxTrackedTargetPairs_def)

text \<open>a verified rotation clears everything earned through the old address. Every
  target is available at once, unless the route is auth-blocked or rotating, and the block is
  kept because credentials do not rotate with the address.\<close>

theorem MarkRotated_clears:
  assumes "pairs_ok p"
  shows "(\<forall>target t. availableForAt (MarkRotated p) target t \<longleftrightarrow> \<not> authBlocked p \<and> \<not> rotating p) \<and>
    consecutiveFailures (MarkRotated p) = 0 \<and> authBlocked (MarkRotated p) = authBlocked p \<and>
    (\<forall>now. coolingTargetPairs (MarkRotated p) now = 0)"
  using assms
  by (auto simp: MarkRotated_def clearAllTargetCooldowns_def pairs_ok_def availableForAt_def
      availableAt_def pairDeadlineNano_def coolingTargetPairs_def)

theorem MarkRotated_clears_witness:
  "availableForAt (MarkRotated (demo_route\<lparr>cooldownUntil := 99\<rparr>)) ''a:1'' 5"
  using MarkRotated_clears [of "demo_route\<lparr>cooldownUntil := 99\<rparr>"]
  by (simp add: demo_route_def newProxy_def Let_def pairs_ok_def maxTrackedTargetPairs_def)

end
