(* ===== verification/PoolReload.thy ===== *)
theory PoolReload
  imports RouteHealth
begin

text \<open>
  What spans the routes of a pool: a reload (\<^verbatim>\<open>Reconfigure\<close>, \<^verbatim>\<open>Publish\<close>) keeps exactly the
  routes whose identity is unchanged, and a rotation commit (\<^verbatim>\<open>CommitRotation\<close>) records an
  address only for a route of the live pool and never one another manual route holds.
\<close>

section \<open>Reload\<close>

definition pool_wf :: "heap \<Rightarrow> pool \<Rightarrow> bool" where
  "pool_wf h pl \<longleftrightarrow> pool_id pl < brk h \<and> (\<forall>e \<in> set (entries pl). e < brk h) \<and>
     distinct (map (\<lambda>e. route_key (cells h e)) (entries pl))"

lemma route_key_new: "route_key (newProxy r a) = spec_key r"
  by (simp add: route_key_def spec_key_def newProxy_def Let_def routeKey_def effectiveOrigin_def)

lemma kept_Some:
  assumes "distinct (map (\<lambda>e. route_key (cells h e)) es)"
  shows "kept h es k = Some e \<longleftrightarrow> e \<in> set es \<and> route_key (cells h e) = k"
proof -
  have "map fst (rev (map (\<lambda>e. (route_key (cells h e), e)) es)) = rev (map (\<lambda>e. route_key (cells h e)) es)"
    by (simp add: rev_map comp_def)
  then have "distinct (map fst (rev (map (\<lambda>e. (route_key (cells h e), e)) es)))"
    using assms by simp
  then show ?thesis by (auto simp: kept_def)
qed

lemma kept_None: "kept h es k = None \<longleftrightarrow> (\<forall>e \<in> set es. route_key (cells h e) \<noteq> k)"
  by (auto simp: kept_def map_of_eq_None_iff image_image)

lemma alloc_simps:
  "alloc x h = (h', p) \<Longrightarrow> p = brk h \<and> brk h' = Suc (brk h) \<and> cells h' p = x \<and>
     (\<forall>q. q \<noteq> p \<longrightarrow> cells h' q = cells h q)"
  by (auto simp: alloc_def)

text \<open>What the entry loop builds, entry by entry.\<close>

definition entry_for :: "(string \<Rightarrow> pref option) \<Rightarrow> u64 \<Rightarrow> heap \<Rightarrow> heap \<Rightarrow> route_spec \<Rightarrow> pref \<Rightarrow> bool" where
  "entry_for kp a h h' r p \<longleftrightarrow>
     (case kp (spec_key r) of
        Some e \<Rightarrow> p = e
      | None \<Rightarrow> brk h \<le> p \<and> p < brk h' \<and> cells h' p = newProxy r a)"

lemma reconfigure_entries_built:
  assumes "\<forall>k e. kp k = Some e \<longrightarrow> e < brk h"
  shows "reconfigure_entries kp a rs h lab = (h', es, lab') \<Longrightarrow>
    brk h \<le> brk h' \<and> (\<forall>q < brk h. cells h' q = cells h q) \<and> list_all2 (entry_for kp a h h') rs es \<and>
    (\<forall>p \<in> set es. p < brk h')"
  using assms
proof (induction rs arbitrary: h lab es)
  case (Cons r rs)
  show ?case
  proof (cases "kp (spec_key r)")
    case (Some e)
    then obtain ps where es: "es = e # ps"
      and rec: "reconfigure_entries kp a rs h (if spec_ID r \<noteq> [] then lab(e \<mapsto> spec_ID r) else lab) = (h', ps, lab')"
      using Cons.prems(1) by (auto simp: Let_def split: prod.splits)
    have "e < brk h" using Cons.prems(2) Some by blast
    with Cons.IH [OF rec Cons.prems(2)] Some es show ?thesis
      by (auto simp: entry_for_def)
  next
    case None
    obtain h1 p where al: "alloc (newProxy r a) h = (h1, p)" by fastforce
    note al1 = alloc_simps [OF al]
    obtain ps where es: "es = p # ps"
      and rec: "reconfigure_entries kp a rs h1 (if spec_ID r \<noteq> [] then lab(p \<mapsto> spec_ID r) else lab) = (h', ps, lab')"
      using Cons.prems(1) None al by (auto simp: Let_def split: prod.splits)
    have kp: "\<forall>k e. kp k = Some e \<longrightarrow> e < brk h1" using Cons.prems(2) al1 by fastforce
    note ih = Cons.IH [OF rec kp]
    have "list_all2 (entry_for kp a h h') rs ps"
      using ih al1 by (auto elim!: list_all2_mono simp: entry_for_def split: option.splits)
    moreover have "cells h' p = newProxy r a" "p < brk h'" using ih al1 by auto
    moreover have "\<forall>q < brk h. cells h' q = cells h q" using ih al1 by simp
    ultimately show ?thesis using None es ih al1 by (simp add: entry_for_def [of kp a h h' r])
  qed
qed simp

lemma reconfigure_fresh_sorted:
  assumes "\<forall>k e. kp k = Some e \<longrightarrow> e < brk h"
  shows "reconfigure_entries kp a rs h lab = (h', es, lab') \<Longrightarrow> distinct (filter (\<lambda>p. brk h \<le> p) es)"
  using assms
proof (induction rs arbitrary: h lab es)
  case (Cons r rs)
  show ?case
  proof (cases "kp (spec_key r)")
    case (Some e)
    then obtain ps where es: "es = e # ps"
      and rec: "reconfigure_entries kp a rs h (if spec_ID r \<noteq> [] then lab(e \<mapsto> spec_ID r) else lab) = (h', ps, lab')"
      using Cons.prems(1) by (auto simp: Let_def split: prod.splits)
    have "e < brk h" using Cons.prems(2) Some by blast
    with Cons.IH [OF rec Cons.prems(2)] es show ?thesis by simp
  next
    case None
    obtain h1 p where al: "alloc (newProxy r a) h = (h1, p)" by fastforce
    note al1 = alloc_simps [OF al]
    obtain ps where es: "es = p # ps"
      and rec: "reconfigure_entries kp a rs h1 (if spec_ID r \<noteq> [] then lab(p \<mapsto> spec_ID r) else lab) = (h', ps, lab')"
      using Cons.prems(1) None al by (auto simp: Let_def split: prod.splits)
    have kp: "\<forall>k e. kp k = Some e \<longrightarrow> e < brk h1" using Cons.prems(2) al1 by fastforce
    have no: "q \<noteq> brk h" if q: "q \<in> set ps" for q
    proof -
      have "list_all2 (entry_for kp a h1 h') rs ps" using reconfigure_entries_built [OF kp rec] by simp
      moreover obtain i where i: "i < length ps" "ps ! i = q"
        using q unfolding in_set_conv_nth by blast
      ultimately have ent: "entry_for kp a h1 h' (rs ! i) q" by (simp add: list_all2_nthD2 flip: i(2))
      show ?thesis
      proof (cases "kp (spec_key (rs ! i))")
        case None
        with ent al1 show ?thesis by (simp add: entry_for_def)
      next
        case (Some e)
        with Cons.prems(2) have "e < brk h" by blast
        with ent Some show ?thesis by (simp add: entry_for_def)
      qed
    qed
    then have "filter (\<lambda>q. brk h1 \<le> q) ps = filter (\<lambda>q. brk h \<le> q) ps"
      using al1 by (intro filter_cong) (auto simp: Suc_le_eq le_less)
    with Cons.IH [OF rec kp] no al1 es show ?thesis by auto
  qed
qed simp

lemma reconfigure_labels:
  "reconfigure_entries kp a rs h lab = (h', es, lab') \<Longrightarrow> distinct es \<Longrightarrow>
    (\<forall>p. p \<notin> set es \<longrightarrow> lab' p = lab p) \<and>
    list_all2 (\<lambda>r p. lab' p = (if spec_ID r \<noteq> [] then Some (spec_ID r) else lab p)) rs es"
proof (induction rs arbitrary: h lab es)
  case (Cons r rs)
  obtain h1 p where hp: "(case kp (spec_key r) of Some prior \<Rightarrow> (h, prior) | None \<Rightarrow> alloc (newProxy r a) h) = (h1, p)"
    by fastforce
  define lab1 where "lab1 = (if spec_ID r \<noteq> [] then lab(p \<mapsto> spec_ID r) else lab)"
  obtain ps where es: "es = p # ps" and rec: "reconfigure_entries kp a rs h1 lab1 = (h', ps, lab')"
    using Cons.prems(1) hp by (auto simp: Let_def lab1_def split: prod.splits)
  from Cons.prems(2) es have d: "distinct ps" "p \<notin> set ps" by auto
  note ih = Cons.IH [OF rec d(1)]
  have "list_all2 (\<lambda>r q. lab' q = (if spec_ID r \<noteq> [] then Some (spec_ID r) else lab q)) rs ps"
    using ih d(2) by (auto simp: list_all2_conv_all_nth lab1_def)
  moreover have "lab' p = lab1 p" using ih d(2) by simp
  ultimately show ?case using ih es by (auto simp: lab1_def)
qed simp

text \<open>The contract of a reload: which entry of the new pool stands for each configured route.\<close>

definition reload_entry :: "pool \<Rightarrow> heap \<Rightarrow> heap \<Rightarrow> route_spec \<Rightarrow> pref \<Rightarrow> bool" where
  "reload_entry pl h h' r p \<longleftrightarrow>
     route_key (cells h' p) = spec_key r \<and>
     (if \<exists>e \<in> set (entries pl). route_key (cells h e) = spec_key r
      then p \<in> set (entries pl) \<and> cells h' p = cells h p
      else brk h \<le> p \<and> p < brk h' \<and> cells h' p = newProxy r (minPass h (entries pl)))"

lemma Reconfigure_spec:
  assumes wf: "pool_wf h pl" and keys: "distinct (map spec_key rs)"
    and rec: "Reconfigure pl rs bs mx h = (h', pl')"
  shows "list_all2 (reload_entry pl h h') rs (entries pl')"
    and "\<forall>q < brk h. cells h' q = cells h q" and "brk h < brk h'"
    and "distinct (entries pl')" and "\<forall>p \<in> set (entries pl'). p < pool_id pl'"
    and "list_all2 (\<lambda>r p. label pl' p = spec_ID r) rs (entries pl')"
    and "pool_id pl' \<noteq> pool_id pl" and "pool_id pl' < brk h'"
    and "base pl' = bs \<and> maxCooldown pl' = mx"
proof -
  let ?kp = "kept h (entries pl)" and ?a = "minPass h (entries pl)"
  note dk = wf[unfolded pool_wf_def, THEN conjunct2, THEN conjunct2]
  obtain h1 es lab where r: "reconfigure_entries ?kp ?a rs h Map.empty = (h1, es, lab)"
    by (metis prod_cases3)
  from rec r have h': "h' = h1\<lparr>brk := brk h1 + 1\<rparr>"
    and pl': "entries pl' = es" "ids pl' = lab" "pool_id pl' = brk h1"
    and bm: "base pl' = bs \<and> maxCooldown pl' = mx"
    by (auto simp: Reconfigure_def)
  have kp: "\<forall>k e. ?kp k = Some e \<longrightarrow> e < brk h"
    using wf by (auto simp: kept_Some [OF dk] pool_wf_def)
  note built = reconfigure_entries_built [OF kp r]
  have entry: "reload_entry pl h h' s p" if "entry_for ?kp ?a h h1 s p" for s p
  proof (cases "?kp (spec_key s)")
    case None
    with that show ?thesis
      by (auto simp: entry_for_def reload_entry_def h' kept_None route_key_new)
  next
    case (Some e)
    with that have p: "p = e" by (simp add: entry_for_def)
    from Some have e: "e \<in> set (entries pl)" "route_key (cells h e) = spec_key s"
      by (simp_all add: kept_Some [OF dk])
    have "cells h' e = cells h e" using built kp Some by (simp add: h')
    with e p show ?thesis by (auto simp: reload_entry_def)
  qed
  show ents: "list_all2 (reload_entry pl h h') rs (entries pl')"
    using built entry unfolding pl' by (auto elim: list_all2_mono)
  show "\<forall>q < brk h. cells h' q = cells h q" "brk h < brk h'"
    "\<forall>p \<in> set (entries pl'). p < pool_id pl'" "pool_id pl' < brk h'"
    using built by (auto simp: h' pl')
  show "pool_id pl' \<noteq> pool_id pl" using built wf by (auto simp: pl' pool_wf_def)
  have "map (\<lambda>p. route_key (cells h' p)) es = map spec_key rs"
    using ents unfolding pl' by (auto simp: list_all2_conv_all_nth reload_entry_def intro: nth_equalityI)
  then have d: "distinct (map (\<lambda>p. route_key (cells h' p)) es)" using keys by simp
  then show dist: "distinct (entries pl')" by (simp add: pl' distinct_map)
  show "list_all2 (\<lambda>r p. label pl' p = spec_ID r) rs (entries pl')"
    using reconfigure_labels [OF r] dist unfolding pl'
    by (auto simp: label_def pl' elim!: list_all2_mono split: option.splits if_splits)
  show "base pl' = bs \<and> maxCooldown pl' = mx" by (rule bm)
qed

lemma Reconfigure_wf:
  assumes "pool_wf h pl" and "distinct (map spec_key rs)" and "Reconfigure pl rs bs mx h = (h', pl')"
  shows "pool_wf h' pl'"
proof -
  note spec = Reconfigure_spec [OF assms]
  have "map (\<lambda>p. route_key (cells h' p)) (entries pl') = map spec_key rs"
    using spec(1) by (auto simp: list_all2_conv_all_nth reload_entry_def intro: nth_equalityI)
  with assms(2) spec(5,8) show ?thesis by (auto simp: pool_wf_def)
qed

section \<open>Commit\<close>

definition is_live :: "pool \<Rightarrow> store option \<Rightarrow> bool" where
  "is_live pl st \<longleftrightarrow> (\<exists>g. st = Some (Some g) \<and> pool_id (gen_Pool g) = pool_id pl)"

lemma CommitRotation_cases:
  "CommitRotation pl st (Some p) ip at h =
     (if \<not> is_live pl st \<or> p \<notin> set (entries pl) then (Inl ErrRotationRouteGone, h)
      else if \<exists>e \<in> set (entries pl). collides h p ip e then (Inl ErrRotationCollision, h)
      else (Inr (snd (EndRotation ip at (cells h p))), upd p (\<lambda>_. fst (EndRotation ip at (cells h p))) h))"
  by (auto simp: CommitRotation_def is_live_def containsLocked_def list_ex_iff split_beta
      split: option.splits)

definition unique_ips :: "pool \<Rightarrow> heap \<Rightarrow> bool" where
  "unique_ips pl h \<longleftrightarrow>
     (\<forall>a \<in> set (entries pl). \<forall>b \<in> set (entries pl). a \<noteq> b \<longrightarrow>
        Origin (cells h a) = RouteOriginManual \<longrightarrow> Origin (cells h b) = RouteOriginManual \<longrightarrow>
        lastIP (cells h a) \<noteq> [] \<longrightarrow> \<not> SameIP (lastIP (cells h a)) (lastIP (cells h b)))"

lemma SameIP_sym: "SameIP a b \<longleftrightarrow> SameIP b a"
  by (auto simp: SameIP_def)

lemma SameIP_canonical: "SameIP a (CanonicalIP b) \<longleftrightarrow> SameIP a b"
  by (simp add: SameIP_def CanonicalIP_canonical egress.canonical_idem)

lemma CanonicalIP_not_Nil: "IPIdentity ip \<noteq> None \<Longrightarrow> CanonicalIP ip \<noteq> []"
proof
  assume i: "IPIdentity ip \<noteq> None" and "CanonicalIP ip = []"
  then have "IPIdentity [] = IPIdentity ip"
    using egress.parse_canonical [of ip] by (simp add: CanonicalIP_canonical)
  moreover have "IPIdentity [] = None" by (simp add: IPIdentity_def ParseIP_def)
  ultimately show False using i by simp
qed

section \<open>Properties of reload and commit\<close>


definition demo_pool2 :: pool where
  "demo_pool2 = \<lparr>pool_id = 5, entries = [0, 1], ids = (\<lambda>_. None), base = second, maxCooldown = 60 * second\<rparr>"

definition demo_heap2 :: heap where
  "demo_heap2 = \<lparr>cells = (\<lambda>i. (newProxy (demo_spec_route (if i = 0 then ''a'' else ''b'') RouteOriginAuto) 3)
     \<lparr>cooldownUntil := 77\<rparr>), brk = 9\<rparr>"



definition demo_store :: "pool \<Rightarrow> store" where
  "demo_store pl = Some \<lparr>gen_Config = demo_config, gen_Pool = pl, gen_Router = None\<rparr>"


lemma commit_keeps_unique:
  assumes u: "unique_ips pl h" and nn: "CanonicalIP ip \<noteq> []"
    and nc: "\<forall>e \<in> set (entries pl). \<not> collides h p ip e"
    and new: "lastIP (cells h' p) = CanonicalIP ip" "Origin (cells h' p) = Origin (cells h p)"
    and old: "\<And>e. e \<noteq> p \<Longrightarrow> cells h' e = cells h e"
  shows "unique_ips pl h'"
  unfolding unique_ips_def
proof (intro ballI impI)
  fix a b
  assume ab: "a \<in> set (entries pl)" "b \<in> set (entries pl)" "a \<noteq> b"
    "Origin (cells h' a) = RouteOriginManual" "Origin (cells h' b) = RouteOriginManual"
    "lastIP (cells h' a) \<noteq> []"
  have no: "\<not> SameIP (lastIP (cells h e)) ip"
    if "e \<in> set (entries pl)" "e \<noteq> p" "Origin (cells h e) = RouteOriginManual" "lastIP (cells h e) \<noteq> []" for e
    using nc that by (auto simp: collides_def)
  consider "a = p" "b \<noteq> p" "lastIP (cells h b) = []" | "a = p" "b \<noteq> p" "lastIP (cells h b) \<noteq> []"
    | "b = p" "a \<noteq> p" | "a \<noteq> p" "b \<noteq> p" using ab(3) by blast
  then show "\<not> SameIP (lastIP (cells h' a)) (lastIP (cells h' b))"
  proof cases
    case 1
    have "CanonicalIP [] = []" by (simp add: CanonicalIP_def IPIdentity_def ParseIP_def)
    with 1 old [OF 1(2)] new nn show ?thesis
      by (simp add: SameIP_def CanonicalIP_canonical egress.canonical_idem)
  next
    case 2
    with ab old [OF 2(2)] no [of b] new show ?thesis
      by (simp add: SameIP_sym [of "CanonicalIP ip"] SameIP_canonical)
  next
    case 3
    with ab old [of a] no [of a] new show ?thesis by (simp add: SameIP_canonical)
  next
    case 4
    with ab old u show ?thesis by (simp add: unique_ips_def)
  qed
qed

text \<open>Claim C5: no address is held twice. Whatever a commit answers, if no two manual routes of
  the pool held one address before, none do after; and when two procedures verified the same
  address, the one that commits second is refused with the collision error.\<close>

theorem CommitRotation_unique:
  assumes "CommitRotation pl st (Some p) ip at h = (res, h')"
    and "IPIdentity ip \<noteq> None"
  shows "(unique_ips pl h \<longrightarrow> unique_ips pl h') \<and>
    (\<forall>rv q st2 ip2 at2. res = Inr rv \<longrightarrow> Origin (cells h p) = RouteOriginManual \<longrightarrow> q \<noteq> p \<longrightarrow>
       is_live pl st2 \<longrightarrow> q \<in> set (entries pl) \<longrightarrow> SameIP ip ip2 \<longrightarrow>
       CommitRotation pl st2 (Some q) ip2 at2 h' = (Inl ErrRotationCollision, h'))"
proof (cases "\<exists>rv. res = Inr rv")
  case False
  then have "h' = h" using assms(1) by (auto simp: CommitRotation_cases split: if_splits)
  with False show ?thesis by simp
next
  case True
  have nn: "CanonicalIP ip \<noteq> []" by (rule CanonicalIP_not_Nil [OF assms(2)])
  from True have live: "p \<in> set (entries pl)" and nc: "\<forall>e \<in> set (entries pl). \<not> collides h p ip e"
    and h': "h' = upd p (\<lambda>_. fst (EndRotation ip at (cells h p))) h"
    using assms(1) by (auto simp: CommitRotation_cases split: if_splits)
  have new: "lastIP (cells h' p) = CanonicalIP ip" "Origin (cells h' p) = Origin (cells h p)"
    by (simp_all add: h' EndRotation_fields)
  have uni: "unique_ips pl h'" if u: "unique_ips pl h"
    by (rule commit_keeps_unique [OF u nn nc new]) (simp add: h')
  have loser: "CommitRotation pl st2 (Some q) ip2 at2 h' = (Inl ErrRotationCollision, h')"
    if "Origin (cells h p) = RouteOriginManual" "q \<noteq> p" "is_live pl st2" "q \<in> set (entries pl)"
      "SameIP ip ip2" for q st2 ip2 at2
  proof -
    have "collides h' q ip2 p"
      using that new nn by (simp add: collides_def SameIP_def CanonicalIP_canonical egress.canonical_idem)
    with that live show ?thesis by (auto simp: CommitRotation_cases)
  qed
  show ?thesis using uni loser by blast
qed

theorem CommitRotation_unique_witness:
  "\<exists>rv h'. CommitRotation (demo_pool 3) (Some (demo_store (demo_pool 3))) (Some 0) ''::1'' 7 (demo_heap 3)
        = (Inr rv, h') \<and>
     CommitRotation (demo_pool 3) (Some (demo_store (demo_pool 3))) (Some 1) ''0::1'' 8 h'
        = (Inl ErrRotationCollision, h')"
proof -
  let ?pl = "demo_pool 3" and ?h = "demo_heap 3"
  let ?st = "Some (demo_store (demo_pool 3))"
  have live: "is_live ?pl ?st" by (simp add: is_live_def demo_store_def)
  have mem: "0 \<in> set (entries ?pl)" "1 \<in> set (entries ?pl)" by (simp_all add: demo_pool_def)
  have nc: "\<not> (\<exists>e \<in> set (entries ?pl). collides ?h 0 ''::1'' e)"
    by (simp add: collides_def demo_heap_def newProxy_def Let_def)
  obtain rv h' where c: "CommitRotation ?pl ?st (Some 0) ''::1'' 7 ?h = (Inr rv, h')"
    using live mem(1) nc by (simp add: CommitRotation_cases)
  have id: "IPIdentity ''::1'' \<noteq> None" "IPIdentity ''::1'' = IPIdentity ''0::1''" by code_simp+
  then have lit: "IPIdentity ''::1'' \<noteq> None" "SameIP ''::1'' ''0::1''"
    by (simp_all add: SameIP_def CanonicalIP_canonical egress.canonical_eq)
  have "Origin (cells ?h 0) = RouteOriginManual"
    by (simp add: demo_heap_def newProxy_def demo_spec_route_def effectiveOrigin_def Let_def)
  then have "CommitRotation ?pl ?st (Some 1) ''0::1'' 8 h' = (Inl ErrRotationCollision, h')"
    using CommitRotation_unique [OF c lit(1)] live mem(2) lit(2) by auto
  with c show ?thesis by blast
qed

section \<open>Exact rotation counters\<close>

lemma foldl_EndRotation:
  fixes p :: proxy and at :: instant
  assumes "\<forall>ip \<in> set ips. IPIdentity ip \<noteq> None"
  shows "rotationCount (foldl (\<lambda>p ip. fst (EndRotation ip at p)) p ips) = rotationCount p + int (length ips) \<and>
    verifiedIPs (foldl (\<lambda>p ip. fst (EndRotation ip at p)) p ips) =
      verifiedIPs p \<union> (the \<circ> IPIdentity) ` set ips \<and>
    (finite (verifiedIPs p) \<longrightarrow>
      ipRevisitCount (foldl (\<lambda>p ip. fst (EndRotation ip at p)) p ips) =
        ipRevisitCount p + int (length ips) + int (card (verifiedIPs p)) -
        int (card (verifiedIPs p \<union> (the \<circ> IPIdentity) ` set ips)))"
  using assms
proof (induction ips arbitrary: p)
  case (Cons ip ips)
  let ?p = "fst (EndRotation ip at p)"
  from Cons.prems obtain key where k: "IPIdentity ip = Some key" by auto
  have v: "verifiedIPs ?p = insert key (verifiedIPs p)" by (simp add: EndRotation_fields k)
  have u: "insert key (verifiedIPs p) \<union> (the \<circ> IPIdentity) ` set ips =
      verifiedIPs p \<union> (the \<circ> IPIdentity) ` set (ip # ips)" by (simp add: k)
  have c: "finite (verifiedIPs p) \<Longrightarrow> ipRevisitCount ?p + int (card (verifiedIPs ?p)) =
      ipRevisitCount p + 1 + int (card (verifiedIPs p))"
    by (simp add: v EndRotation_fields(5,7) k card_insert_if)
  have r: "rotationCount ?p = rotationCount p + 1" by (simp add: EndRotation_fields)
  have "\<forall>ip \<in> set ips. IPIdentity ip \<noteq> None" using Cons.prems by simp
  note ih = Cons.IH [OF this, of ?p, unfolded v u r]
  from ih c show ?case by (simp add: v)
qed simp

text \<open>the successful-rotation counters are exact. Starting from a fresh route with an
  optional boot baseline, after any sequence of verified commits the rotation counter is their
  number, and the revisit counter is the number of verified addresses minus the number of
  different ones, under address identity: every return to an address of the route's own history
  is counted once and nothing else is.\<close>

theorem rotation_counters_exact:
  assumes "\<forall>ip \<in> set (case_option [] (\<lambda>b. [b]) bl @ ips). IPIdentity ip \<noteq> None"
    and "q = foldl (\<lambda>p ip. fst (EndRotation ip at p))
          (case bl of None \<Rightarrow> newProxy r a | Some b \<Rightarrow> SetBaselineIP b (newProxy r a)) ips"
  shows "rotationCount q = int (length ips) \<and>
    ipRevisitCount q = int (length (case_option [] (\<lambda>b. [b]) bl @ ips)) -
      int (card ((the \<circ> IPIdentity) ` set (case_option [] (\<lambda>b. [b]) bl @ ips)))"
proof -
  let ?p = "case bl of None \<Rightarrow> newProxy r a | Some b \<Rightarrow> SetBaselineIP b (newProxy r a)"
  have ips: "\<forall>ip \<in> set ips. IPIdentity ip \<noteq> None" using assms(1) by simp
  have p: "rotationCount ?p = 0" "ipRevisitCount ?p = 0"
    "verifiedIPs ?p = (the \<circ> IPIdentity) ` set (case_option [] (\<lambda>b. [b]) bl)"
    using assms(1)
    by (auto simp: newProxy_def SetBaselineIP_def recordVerifiedIP_def Let_def split: option.splits)
  have c: "card (verifiedIPs ?p) = length (case_option [] (\<lambda>b. [b]) bl)" "finite (verifiedIPs ?p)"
    unfolding p(3) by (cases bl; simp)+
  note f = foldl_EndRotation [OF ips, of at ?p, folded assms(2)]
  have "verifiedIPs ?p \<union> (the \<circ> IPIdentity) ` set ips =
      (the \<circ> IPIdentity) ` set (case_option [] (\<lambda>b. [b]) bl @ ips)"
    unfolding p(3) by (simp add: image_Un)
  with f p(1,2) c show ?thesis by simp
qed

theorem rotation_counters_exact_witness:
  "ipRevisitCount (foldl (\<lambda>p ip. fst (EndRotation ip 0 p)) (SetBaselineIP ''::1'' demo_route)
     [''::2'', ''0::1'']) = 1"
proof -
  have l: "\<forall>ip \<in> set (case_option [] (\<lambda>b. [b]) (Some ''::1'') @ [''::2'', ''0::1'']).
      IPIdentity ip \<noteq> None" by code_simp
  have c: "card ((the \<circ> IPIdentity) ` set (case_option [] (\<lambda>b. [b]) (Some ''::1'') @
      [''::2'', ''0::1''])) = 2" by code_simp
  from rotation_counters_exact [OF l refl] c show ?thesis by (simp add: demo_route_def)
qed

section \<open>Returning stale\<close>

lemma foldl_max_pass:
  "foldl (\<lambda>b e. if b < pass (cells h e) then pass (cells h e) else b) m es =
     (if es = [] then m else max m (Max ((\<lambda>e. pass (cells h e)) ` set es)))"
proof (induction es arbitrary: m)
  case (Cons e es)
  then show ?case by (auto simp: max_def)
qed simp

lemma word_less_next: "(m :: u64) < - 1 \<Longrightarrow> m < m + 1"
proof -
  assume "m < - 1"
  then have "unat m < unat (- 1 :: u64)" by (simp only: word_less_nat_alt)
  then have "unat m + 1 < 2 ^ 64" using unsigned_less [of "- 1 :: u64", where ?'a = nat] by simp
  from of_nat_less_next [OF this] show ?thesis by (simp add: add.commute)
qed

text \<open>a route that comes back stale goes behind the pool. After \<^verbatim>\<open>MarkStale\<close> its
  recency pass is larger than every other route's, so round robin prefers all of them, it is out
  of its procedure, and no other route is touched, as long as the 64-bit recency clock is not
  exhausted.\<close>

theorem MarkStale_to_back:
  assumes "p \<in> set (entries pl)" and "\<forall>e \<in> set (entries pl). pass (cells h e) < - 1"
    and "h' = MarkStale pl p retry sameIP h"
  shows "(\<forall>e \<in> set (entries pl). e \<noteq> p \<longrightarrow> pass (cells h' e) < pass (cells h' p)) \<and>
    rotationState (cells h' p) = RotationStale \<and> \<not> rotating (cells h' p) \<and>
    (\<forall>q. q \<noteq> p \<longrightarrow> cells h' q = cells h q)"
proof -
  define h1 where "h1 = upd p (mark_stale retry sameIP) h"
  have pass1: "pass (cells h1 e) = pass (cells h e)" for e by (simp add: h1_def mark_stale_def)
  define m where "m = Max ((\<lambda>e. pass (cells h e)) ` set (entries pl))"
  have ne: "entries pl \<noteq> []" using assms(1) by auto
  have m: "\<forall>e \<in> set (entries pl). pass (cells h e) \<le> m" "m < - 1"
    using assms(2) ne by (auto simp: m_def)
  have "foldl (\<lambda>b e. if b < pass (cells h1 e) then pass (cells h1 e) else b) (pass (cells h1 p)) (entries pl) = m"
    using m(1) assms(1) ne unfolding foldl_max_pass pass1 by (simp add: m_def max_absorb2)
  moreover have "h' = jumpToBack pl p h1" by (simp add: assms(3) MarkStale_def h1_def)
  ultimately have h': "h' = upd p (\<lambda>x. x\<lparr>pass := m + 1\<rparr>) h1"
    by (simp add: jumpToBack_def Let_def)
  have "m < m + 1" by (rule word_less_next [OF m(2)])
  then show ?thesis
    using m(1) by (auto simp: h' pass1 intro: le_less_trans) (auto simp: h1_def mark_stale_def)
qed

theorem MarkStale_to_back_witness:
  "pass (cells (MarkStale (demo_pool 3) 1 second 1 (demo_heap 3)) 0) <
   pass (cells (MarkStale (demo_pool 3) 1 second 1 (demo_heap 3)) 1)"
proof -
  have mem: "1 \<in> set (entries (demo_pool 3))" "0 \<in> set (entries (demo_pool 3))"
    by (simp_all add: demo_pool_def)
  have "(0 :: u64) < - 1" by code_simp
  then have "\<forall>e \<in> set (entries (demo_pool 3)). pass (cells (demo_heap 3) e) < - 1"
    by (simp add: demo_heap_def newProxy_def Let_def)
  from MarkStale_to_back [OF mem(1) this refl, of second 1] mem(2) show ?thesis by (metis zero_neq_one)
qed

end
