(* ===== verification/GoNet.thy ===== *)
theory GoNet
  imports Identity Egress
begin

text \<open>
  The functions of Go's \<^verbatim>\<open>net\<close> package on addresses that the dialer, the server and the
  configuration loader call: \<^verbatim>\<open>SplitHostPort\<close>, and the byte forms of an \<^verbatim>\<open>net.IP\<close>
  (an address is its eight 16-bit groups, see theory Egress).
\<close>

section \<open>net.SplitHostPort\<close>

datatype addr_error = MissingPortInAddr | MissingBracket | TooManyColons | UnexpectedOpen | UnexpectedClose

definition net_SplitHostPort :: "string \<Rightarrow> addr_error + string \<times> string" where
  "net_SplitHostPort hostport =
     (case last_colon hostport of
        None \<Rightarrow> Inl MissingPortInAddr
      | Some (before, port) \<Rightarrow>
          if hd hostport = CHR ''['' then
            (let (inside, after, closed) = Cut hostport CHR '']'' in
             if \<not> closed then Inl MissingBracket
             else if after = CHR '':'' # port then
               (if CHR ''['' \<in> set (tl hostport) then Inl UnexpectedOpen
                else if CHR '']'' \<in> set after then Inl UnexpectedClose
                else Inr (tl inside, port))
             else if after \<noteq> [] \<and> hd after = CHR '':'' then Inl TooManyColons
             else Inl MissingPortInAddr)
          else if CHR '':'' \<in> set before then Inl TooManyColons
          else if CHR ''['' \<in> set hostport then Inl UnexpectedOpen
          else if CHR '']'' \<in> set hostport then Inl UnexpectedClose
          else Inr (before, port))"

lemma last_colon_append: "CHR '':'' \<notin> set p \<Longrightarrow> last_colon (h @ CHR '':'' # p) = Some (h, p)"
proof -
  assume p: "CHR '':'' \<notin> set p"
  have s: "rev (h @ CHR '':'' # p) = rev p @ CHR '':'' # rev h" by simp
  have "\<forall>c \<in> set (rev p). c \<noteq> CHR '':''" using p by auto
  from drop_take_While_sep [OF this, of "CHR '':''" "rev h"]
  show ?thesis unfolding last_colon_def s by simp
qed

text \<open>A host without brackets and a port survive joining and splitting.\<close>

lemma SplitHostPort_Join:
  assumes h: "CHR ''['' \<notin> set h" "CHR '']'' \<notin> set h"
    and p: "CHR '':'' \<notin> set p" "CHR ''['' \<notin> set p" "CHR '']'' \<notin> set p"
  shows "net_SplitHostPort (JoinHostPort h p) = Inr (h, p)"
proof (cases "CHR '':'' \<in> set h")
  case True
  then have j: "JoinHostPort h p = (CHR ''['' # h @ '']'') @ CHR '':'' # p" by (simp add: JoinHostPort_def)
  have cut: "Cut (CHR ''['' # h @ CHR '']'' # CHR '':'' # p) CHR '']'' = (CHR ''['' # h, CHR '':'' # p, True)"
    using Cut_append [of "CHR '']''" "CHR ''['' # h" "CHR '':'' # p"] h(2) by simp
  have hd: "hd ((CHR ''['' # h @ '']'') @ CHR '':'' # p) = CHR ''[''" by simp
  have cut': "Cut ((CHR ''['' # h @ '']'') @ CHR '':'' # p) CHR '']'' = (CHR ''['' # h, CHR '':'' # p, True)"
    using cut by simp
  show ?thesis
    unfolding net_SplitHostPort_def j last_colon_append [OF p(1)] option.case prod.case cut' hd Let_def
    using h p by simp
next
  case False
  then have j: "JoinHostPort h p = h @ CHR '':'' # p" by (simp add: JoinHostPort_def)
  have hd: "hd (h @ CHR '':'' # p) \<noteq> CHR ''[''" using h(1) by (cases h) auto
  show ?thesis
    unfolding net_SplitHostPort_def j last_colon_append [OF p(1)] using False h p hd by simp
qed

lemma digits_of_plain: "c \<in> set (digits_of n) \<Longrightarrow> is_digit c"
  using digits_of_digits [of n] by (simp add: list_all_iff)

lemma not_digit_marks: "\<not> is_digit (CHR '':'')" "\<not> is_digit (CHR ''['')" "\<not> is_digit (CHR '']'')"
  by (simp_all add: is_digit_def ord_def)

lemma SplitHostPort_Join_nat:
  "CHR ''['' \<notin> set h \<Longrightarrow> CHR '']'' \<notin> set h \<Longrightarrow>
     net_SplitHostPort (JoinHostPort h (digits_of n)) = Inr (h, digits_of n)"
  by (rule SplitHostPort_Join) (use digits_of_plain not_digit_marks in blast)+

section \<open>The bytes of an address\<close>

definition is_v4 :: "ip_key \<Rightarrow> bool" where
  "is_v4 k \<longleftrightarrow> take 6 k = v4_prefix"

definition group_bytes :: "nat \<Rightarrow> string" where
  "group_bytes g = [chr (g div 256), chr (g mod 256)]"

definition To16 :: "ip_key \<Rightarrow> string" where
  "To16 k = concat (map group_bytes k)"

definition To4 :: "ip_key \<Rightarrow> string" where
  "To4 k = concat (map group_bytes (drop 6 k))"

fun from_bytes :: "string \<Rightarrow> nat list" where
  "from_bytes (a # b # bs) = (ord a * 256 + ord b) # from_bytes bs"
| "from_bytes _ = []"

lemma from_bytes_groups: "\<forall>g \<in> set gs. g < 65536 \<Longrightarrow> from_bytes (concat (map group_bytes gs)) = gs"
proof (induction gs)
  case (Cons g gs)
  then have g: "g div 256 < 256" by (simp add: div_less_iff_less_mult)
  have "ord (chr (g div 256)) = g div 256" "ord (chr (g mod 256)) = g mod 256"
    using g by (simp_all add: ord_chr)
  with Cons show ?case by (simp add: group_bytes_def)
qed simp

lemma length_group_bytes: "length (concat (map group_bytes gs)) = 2 * length gs"
  by (induction gs) (simp_all add: group_bytes_def)

lemma valid_key_4:
  assumes "valid_key k"
  shows "length (To4 k) = 4 \<and> from_bytes (To4 k) = drop 6 k"
proof -
  have "\<forall>g \<in> set (drop 6 k). g < 65536" using assms by (meson in_set_dropD valid_key_def)
  then show ?thesis using assms
    unfolding To4_def length_group_bytes by (simp add: valid_key_def from_bytes_groups)
qed

lemma valid_key_16: "valid_key k \<Longrightarrow> length (To16 k) = 16 \<and> from_bytes (To16 k) = k"
  unfolding To16_def length_group_bytes by (simp add: valid_key_def from_bytes_groups)

end
