(* ===== verification/Socks.thy ===== *)
theory Socks
  imports Settings GoNet
begin

text \<open>
  Dialing through a SOCKS5 route (internal/socksdial): the error classes the serving path
  reads, the CONNECT encoding, the greeting and authentication of \<^verbatim>\<open>DialHalf\<close>, and
  \<^verbatim>\<open>CompleteConnect\<close>.

  A socket is a \<open>conn\<close>: the bytes the endpoint will send before its reads fail (\<open>rx\<close>, then
  \<open>read_err\<close>), the sizes in which they happen to arrive (\<open>cuts\<close>), the writes made so far
  (\<open>tx\<close>), and the scripted outcomes of the next writes and of the next \<^verbatim>\<open>SetDeadline\<close> calls
  (an exhausted script succeeds). The environment is that script; every operation is proved
  for all of them.
\<close>

section \<open>Errors\<close>

datatype cause = NoCause | Cause string | ReplyCause char

datatype dial_error =
    ContextError string
  | ProxyDialError string
  | ProxyAuthError string
  | SocksProtocolError string cause
  | SocksHandshakeError string cause

definition hex2 :: "char \<Rightarrow> string" where
  "hex2 c = ''0x'' @ [hex_char (ord c div 16), hex_char (ord c mod 16)]"

fun cause_text :: "cause \<Rightarrow> string option" where
  "cause_text NoCause = None"
| "cause_text (Cause s) = Some s"
| "cause_text (ReplyCause r) = Some (''SOCKS reply '' @ hex2 r)"

fun dial_error_text :: "dial_error \<Rightarrow> string" where
  "dial_error_text (ContextError s) = s"
| "dial_error_text (ProxyDialError s) = ''dial SOCKS endpoint: '' @ s"
| "dial_error_text (ProxyAuthError r) = ''SOCKS authentication failed: '' @ r"
| "dial_error_text (SocksProtocolError op e) =
     (case cause_text e of
        None \<Rightarrow> ''SOCKS protocol error during '' @ op
      | Some s \<Rightarrow> ''SOCKS protocol error during '' @ op @ '': '' @ s)"
| "dial_error_text (SocksHandshakeError op e) =
     (case cause_text e of
        None \<Rightarrow> ''SOCKS handshake failed during '' @ op
      | Some s \<Rightarrow> ''SOCKS handshake failed during '' @ op @ '': '' @ s)"

fun cause_of :: "dial_error \<Rightarrow> cause" where
  "cause_of (SocksProtocolError op e) = e"
| "cause_of (SocksHandshakeError op e) = e"
| "cause_of _ = NoCause"

fun IsDialError :: "dial_error \<Rightarrow> bool" where
  "IsDialError (ProxyDialError s) = True"
| "IsDialError _ = False"

fun IsAuthError :: "dial_error \<Rightarrow> bool" where
  "IsAuthError (ProxyAuthError s) = True"
| "IsAuthError _ = False"

fun IsHandshakeError :: "dial_error \<Rightarrow> bool" where
  "IsHandshakeError (SocksHandshakeError op e) = True"
| "IsHandshakeError _ = False"

text \<open>\<^verbatim>\<open>errors.As\<close> finds the reply error anywhere in the chain.\<close>

definition IsConnectTargetError :: "dial_error \<Rightarrow> bool" where
  "IsConnectTargetError e = (case cause_of e of ReplyCause r \<Rightarrow> True | _ \<Rightarrow> False)"

section \<open>Targets\<close>

definition TargetFromAddr :: "string \<Rightarrow> target option" where
  "TargetFromAddr addr =
     (case net_SplitHostPort addr of
        Inl e \<Rightarrow> None
      | Inr (host, portStr) \<Rightarrow>
          (case Atoi portStr of
             None \<Rightarrow> None
           | Some port \<Rightarrow>
               if port \<le> 0 \<or> 65535 < port then None
               else Some \<lparr>Host = host, Port = nat port,
                 Type = (case ParseIP host of None \<Rightarrow> AddrDomain
                         | Some ip \<Rightarrow> if is_v4 ip then AddrIPv4 else AddrIPv6)\<rparr>))"

definition upstreamHostPort :: "url \<Rightarrow> string" where
  "upstreamHostPort pu =
     (if url_Port pu \<noteq> [] then JoinHostPort (Hostname pu) (url_Port pu)
      else JoinHostPort (Hostname pu) ''1080'')"

fun atyp_byte :: "addr_type \<Rightarrow> nat" where
  "atyp_byte AddrIPv4 = 1"
| "atyp_byte AddrDomain = 3"
| "atyp_byte AddrIPv6 = 4"
| "atyp_byte (AddrOther n) = n"

definition socksConnectRequest :: "target \<Rightarrow> string + string" where
  "socksConnectRequest t =
     (if Port t = 0 then Inl ''target port is zero''
      else (let req = [chr 5, chr 1, chr 0]; port = [chr (Port t div 256), chr (Port t mod 256)] in
        case Type t of
          AddrIPv4 \<Rightarrow>
            (case ParseIP (Host t) of
               None \<Rightarrow> Inl ''target host does not encode as an IPv4 address''
             | Some ip \<Rightarrow>
                 if \<not> is_v4 ip then Inl ''target host does not encode as an IPv4 address''
                 else Inr (req @ [chr (atyp_byte AddrIPv4)] @ To4 ip @ port))
        | AddrIPv6 \<Rightarrow>
            (case ParseIP (Host t) of
               None \<Rightarrow> Inl ''target host does not encode as an IPv6 address''
             | Some ip \<Rightarrow> Inr (req @ [chr (atyp_byte AddrIPv6)] @ To16 ip @ port))
        | AddrDomain \<Rightarrow>
            if Host t = [] \<or> 255 < length (Host t)
            then Inl (''target hostname length '' @ Itoa (int (length (Host t))) @ '' is invalid'')
            else Inr (req @ [chr (atyp_byte AddrDomain), chr (length (Host t))] @ Host t @ port)
        | AddrOther n \<Rightarrow> Inl (''unsupported target address type '' @ Itoa (int n))))"

section \<open>Sockets\<close>

record conn =
  rx :: string
  cuts :: "nat list"
  read_err :: string
  tx :: "string list"
  write_errs :: "string option list"
  deadline_errs :: "string option list"
  armed :: "instant option"
  is_open :: bool

definition scripted :: "string option list \<Rightarrow> string option" where
  "scripted es = (case es of [] \<Rightarrow> None | e # _ \<Rightarrow> e)"

definition sock_write :: "string \<Rightarrow> conn \<Rightarrow> string option \<times> conn" where
  "sock_write bs c =
     (case scripted (write_errs c) of
        Some e \<Rightarrow> (Some e, c\<lparr>write_errs := tl (write_errs c)\<rparr>)
      | None \<Rightarrow> (None, c\<lparr>write_errs := tl (write_errs c), tx := tx c @ [bs]\<rparr>))"

definition SetDeadline :: "instant option \<Rightarrow> conn \<Rightarrow> string option \<times> conn" where
  "SetDeadline d c =
     (case scripted (deadline_errs c) of
        Some e \<Rightarrow> (Some e, c\<lparr>deadline_errs := tl (deadline_errs c)\<rparr>)
      | None \<Rightarrow> (None, c\<lparr>deadline_errs := tl (deadline_errs c), armed := d\<rparr>))"

text \<open>One read of the socket into the 512-byte handshake buffer.\<close>

definition handshakeBufSize :: nat where
  "handshakeBufSize = 512"

definition sock_read :: "conn \<Rightarrow> string \<times> conn" where
  "sock_read c =
     (let n = (case cuts c of [] \<Rightarrow> handshakeBufSize | k # _ \<Rightarrow> max 1 (min k handshakeBufSize))
      in (take n (rx c), c\<lparr>rx := drop n (rx c), cuts := tl (cuts c)\<rparr>))"

text \<open>
  The buffered reader over a socket: up to \<open>n\<close> bytes, from the buffer first, refilled from the
  socket when it runs dry. The result is short exactly when the socket's reads fail first.
\<close>

type_synonym reader = "string \<times> conn"

function read_upto :: "nat \<Rightarrow> string \<Rightarrow> conn \<Rightarrow> string \<times> reader" where
  "read_upto n b c =
     (if n = 0 then ([], b, c)
      else if b \<noteq> [] then
        (let (xs, r) = read_upto (n - length (take n b)) (drop n b) c in (take n b @ xs, r))
      else if rx c = [] then ([], [], c)
      else (let (b', c') = sock_read c in read_upto n b' c'))"
  by pat_completeness auto
termination
  by (relation "measures [\<lambda>(n, b, c). n, \<lambda>(n, b, c). if b = [] then 1 else 0]")
    (auto simp: sock_read_def Let_def min_def handshakeBufSize_def split: list.splits if_splits)

declare read_upto.simps [simp del]

text \<open>\<^verbatim>\<open>io.ReadFull\<close>: short after at least one byte is an unexpected end of file.\<close>

definition short_error :: "bool \<Rightarrow> conn \<Rightarrow> string" where
  "short_error none c = (if \<not> none \<and> read_err c = ''EOF'' then ''unexpected EOF'' else read_err c)"

definition ReadFull :: "nat \<Rightarrow> reader \<Rightarrow> (string + string) \<times> reader" where
  "ReadFull n r =
     (let (xs, b, c) = read_upto n (fst r) (snd r) in
      if length xs = n then (Inr xs, b, c) else (Inl (short_error (xs = []) c), b, c))"

text \<open>\<^verbatim>\<open>io.CopyN\<close> to \<^verbatim>\<open>io.Discard\<close>: a clean end of file is reported as such.\<close>

definition Discard :: "nat \<Rightarrow> reader \<Rightarrow> string option \<times> reader" where
  "Discard n r =
     (let (xs, b, c) = read_upto n (fst r) (snd r) in
      (if length xs = n then None else Some (read_err c), b, c))"

definition discardSocksBoundAddress :: "char \<Rightarrow> reader \<Rightarrow> string option \<times> reader" where
  "discardSocksBoundAddress atyp r =
     (if ord atyp = 1 then Discard 6 r
      else if ord atyp = 3 then
        (case ReadFull 1 r of
           (Inl e, r') \<Rightarrow> (Some e, r')
         | (Inr n, r') \<Rightarrow> Discard (ord (hd n) + 2) r')
      else if ord atyp = 4 then Discard 18 r
      else (Some (''unsupported bound address type '' @ hex2 atyp), r))"

section \<open>The half connection\<close>

text \<open>\<open>br = None\<close> is the released half connection: its buffered reader is back in the pool.\<close>

record half_conn =
  sock :: conn
  br :: "string option"
  hc_deadline :: instant

definition close_conn :: "conn \<Rightarrow> conn" where
  "close_conn c = c\<lparr>is_open := False\<rparr>"

definition half_Close :: "half_conn \<Rightarrow> half_conn" where
  "half_Close h = h\<lparr>br := None, sock := close_conn (sock h)\<rparr>"

definition recycle :: "half_conn \<Rightarrow> half_conn" where
  "recycle h = h\<lparr>br := None\<rparr>"

definition greeting :: "bool \<Rightarrow> string" where
  "greeting wantAuth = (if wantAuth then [chr 5, chr 2, chr 0, chr 2] else [chr 5, chr 1, chr 0])"

definition auth_request :: "string \<Rightarrow> string \<Rightarrow> string" where
  "auth_request user pass = [chr 1, chr (length user)] @ user @ [chr (length pass)] @ pass"

definition credentials :: "url \<Rightarrow> string \<times> string" where
  "credentials pu =
     (case User pu of
        None \<Rightarrow> ([], [])
      | Some ui \<Rightarrow> (username ui, case password ui of None \<Rightarrow> [] | Some pw \<Rightarrow> pw))"

text \<open>The RFC 1929 exchange, once the endpoint has selected method 0x02.\<close>

definition authenticate :: "string \<Rightarrow> string \<Rightarrow> reader \<Rightarrow> dial_error option \<times> reader" where
  "authenticate user pass r =
     (if 255 < length user \<or> 255 < length pass
      then (Some (SocksProtocolError ''encode credentials''
              (Cause ''username or password exceeds SOCKS5 length limit'')), r)
      else (case sock_write (auth_request user pass) (snd r) of
          (Some e, c) \<Rightarrow> (Some (SocksHandshakeError ''send authentication'' (Cause e)), fst r, c)
        | (None, c) \<Rightarrow>
            (case ReadFull 2 (fst r, c) of
               (Inl e, r') \<Rightarrow> (Some (SocksHandshakeError ''read authentication'' (Cause e)), r')
             | (Inr reply, r') \<Rightarrow>
                 if ord (reply ! 0) \<noteq> 1
                 then (Some (SocksHandshakeError ''read authentication''
                         (Cause (''unexpected auth version '' @ hex2 (reply ! 0)))), r')
                 else if ord (reply ! 1) \<noteq> 0
                 then (Some (ProxyAuthError ''endpoint rejected credentials''), r')
                 else (None, r'))))"

definition negotiate :: "url \<Rightarrow> reader \<Rightarrow> dial_error option \<times> reader" where
  "negotiate pu r =
     (let (user, pass) = credentials pu; wantAuth = (user \<noteq> [] \<or> pass \<noteq> []) in
      case sock_write (greeting wantAuth) (snd r) of
        (Some e, c) \<Rightarrow> (Some (SocksHandshakeError ''send greeting'' (Cause e)), fst r, c)
      | (None, c) \<Rightarrow>
          (case ReadFull 2 (fst r, c) of
             (Inl e, r') \<Rightarrow> (Some (SocksHandshakeError ''read greeting'' (Cause e)), r')
           | (Inr choice, r') \<Rightarrow>
               if ord (choice ! 0) \<noteq> 5
               then (Some (SocksHandshakeError ''read greeting''
                       (Cause (''unexpected SOCKS version '' @ hex2 (choice ! 0)))), r')
               else if ord (choice ! 1) = 0 then (None, r')
               else if ord (choice ! 1) = 2 then
                 (if \<not> wantAuth
                  then (Some (ProxyAuthError ''endpoint requires credentials but none are configured''), r')
                  else authenticate user pass r')
               else if ord (choice ! 1) = 255
               then (Some (ProxyAuthError ''endpoint accepted no offered authentication method''), r')
               else (Some (SocksHandshakeError ''negotiate authentication''
                       (Cause (''unsupported method '' @ hex2 (choice ! 1)))), r')))"

text \<open>
  \<open>connect\<close> is the dialer of the standard library: the error text, or the fresh socket.
  \<open>ctx_err\<close> is \<^verbatim>\<open>ctx.Err()\<close> after the dial. A failed stage also returns the socket it
  leaves behind.
\<close>

definition dialTCP :: "string option \<Rightarrow> (string \<Rightarrow> duration \<Rightarrow> string + conn) \<Rightarrow> string \<Rightarrow> duration \<Rightarrow> dial_error + conn" where
  "dialTCP ctx_err connect addr timeout =
     (case connect addr timeout of
        Inl e \<Rightarrow> Inl (case ctx_err of Some x \<Rightarrow> ContextError x | None \<Rightarrow> ProxyDialError e)
      | Inr c \<Rightarrow> Inr c)"

definition DialHalf ::
  "string option \<Rightarrow> (string \<Rightarrow> duration \<Rightarrow> string + conn) \<Rightarrow> url \<Rightarrow> duration \<Rightarrow> instant \<Rightarrow>
   (dial_error \<times> conn option) + half_conn" where
  "DialHalf ctx_err connect pu timeout now =
     (if Scheme pu \<noteq> ''socks5''
      then Inl (SocksProtocolError ''validate scheme'' (Cause (''unsupported upstream scheme '' @ [chr 34] @ Scheme pu @ [chr 34])), None)
      else (case dialTCP ctx_err connect (upstreamHostPort pu) timeout of
          Inl e \<Rightarrow> Inl (e, None)
        | Inr c \<Rightarrow>
            (case SetDeadline (Some (now + timeout)) c of
               (Some e, c1) \<Rightarrow> Inl (SocksHandshakeError ''set handshake deadline'' (Cause e), Some (close_conn c1))
             | (None, c1) \<Rightarrow>
                 (case negotiate pu ([], c1) of
                    (Some e, b, c2) \<Rightarrow>
                      Inl (e, Some (sock (half_Close \<lparr>sock = c2, br = Some b, hc_deadline = now + timeout\<rparr>)))
                  | (None, b, c2) \<Rightarrow> Inr \<lparr>sock = c2, br = Some b, hc_deadline = now + timeout\<rparr>))))"

section \<open>Completing a CONNECT\<close>

text \<open>The tunnel's stream: \<open>PrefixConn\<close> delivers what the handshake reader had buffered first.\<close>

datatype net_conn = RawConn conn | PrefixConn string conn

fun under :: "net_conn \<Rightarrow> conn" where
  "under (RawConn c) = c"
| "under (PrefixConn p c) = c"

definition withBufferedPrefix :: "conn \<Rightarrow> string \<Rightarrow> net_conn" where
  "withBufferedPrefix c b = (if b = [] then RawConn c else PrefixConn b c)"

text \<open>One read of the tunnel with room for \<open>n\<close> bytes; the socket delivers at most a cut.\<close>

definition conn_read :: "nat \<Rightarrow> conn \<Rightarrow> (string + string) \<times> conn" where
  "conn_read n c =
     (if rx c = [] then (Inl (read_err c), c)
      else (let k = (case cuts c of [] \<Rightarrow> n | m # _ \<Rightarrow> max 1 (min m n))
            in (Inr (take k (rx c)), c\<lparr>rx := drop k (rx c), cuts := tl (cuts c)\<rparr>)))"

fun net_Read :: "nat \<Rightarrow> net_conn \<Rightarrow> (string + string) \<times> net_conn" where
  "net_Read n (PrefixConn p c) =
     (if p \<noteq> [] then (Inr (take n p), PrefixConn (drop n p) c)
      else (case conn_read n c of (r, c') \<Rightarrow> (r, PrefixConn p c')))"
| "net_Read n (RawConn c) = (case conn_read n c of (r, c') \<Rightarrow> (r, RawConn c'))"

definition failSetup :: "half_conn \<Rightarrow> string \<Rightarrow> cause \<Rightarrow> (dial_error + net_conn) \<times> half_conn" where
  "failSetup h op e = (Inl (SocksProtocolError op e), half_Close h)"

definition failHandshake :: "half_conn \<Rightarrow> string \<Rightarrow> cause \<Rightarrow> (dial_error + net_conn) \<times> half_conn" where
  "failHandshake h op e = (Inl (SocksHandshakeError op e), half_Close h)"

definition hold :: "half_conn \<Rightarrow> reader \<Rightarrow> half_conn" where
  "hold h r = h\<lparr>br := Some (fst r), sock := snd r\<rparr>"

text \<open>The reply, after the request has gone out.\<close>

definition clear_deadline :: "half_conn \<Rightarrow> string \<Rightarrow> conn \<Rightarrow> (dial_error + net_conn) \<times> half_conn" where
  "clear_deadline h b c =
     (case SetDeadline None c of
        (Some e, c1) \<Rightarrow>
          (Inl (SocksHandshakeError ''clear handshake deadline'' (Cause e)), half_Close (hold h (b, c1)))
      | (None, c1) \<Rightarrow> (Inr (withBufferedPrefix c1 b), recycle (hold h (b, c1))))"

definition read_reply :: "half_conn \<Rightarrow> reader \<Rightarrow> (dial_error + net_conn) \<times> half_conn" where
  "read_reply h r =
     (case ReadFull 4 r of
        (Inl e, r1) \<Rightarrow> failHandshake (hold h r1) ''read connect'' (Cause e)
      | (Inr head, r1) \<Rightarrow>
          if ord (head ! 0) \<noteq> 5 \<or> ord (head ! 2) \<noteq> 0
          then failHandshake (hold h r1) ''read connect'' (Cause ''invalid SOCKS response'')
          else if ord (head ! 1) \<noteq> 0
          then failHandshake (hold h r1) ''connect target'' (ReplyCause (head ! 1))
          else (case discardSocksBoundAddress (head ! 3) r1 of
              (Some e, r2) \<Rightarrow> failHandshake (hold h r2) ''read bound address'' (Cause e)
            | (None, b, c) \<Rightarrow> clear_deadline h b c))"

definition CompleteConnect ::
  "target \<Rightarrow> duration \<Rightarrow> instant \<Rightarrow> half_conn \<Rightarrow> (dial_error + net_conn) \<times> half_conn" where
  "CompleteConnect t timeout now h =
     (case br h of
        None \<Rightarrow> (Inl (SocksProtocolError ''complete connect'' (Cause ''half connection already released'')), h)
      | Some b \<Rightarrow>
          (case SetDeadline (Some (now + timeout)) (sock h) of
             (Some e, c) \<Rightarrow> failHandshake (hold h (b, c)) ''set handshake deadline'' (Cause e)
           | (None, c) \<Rightarrow>
               (case socksConnectRequest t of
                  Inl e \<Rightarrow> failSetup (hold h (b, c)) ''encode target'' (Cause e)
                | Inr req \<Rightarrow>
                    (case sock_write req c of
                       (Some e, c1) \<Rightarrow> failHandshake (hold h (b, c1)) ''send connect'' (Cause e)
                     | (None, c1) \<Rightarrow> read_reply h (b, c1)))))"

definition Dial ::
  "string option \<Rightarrow> (string \<Rightarrow> duration \<Rightarrow> string + conn) \<Rightarrow> url \<Rightarrow> target \<Rightarrow> duration \<Rightarrow> instant \<Rightarrow> instant \<Rightarrow>
   dial_error + net_conn" where
  "Dial ctx_err connect pu t timeout now now2 =
     (case DialHalf ctx_err connect pu timeout now of
        Inl (e, _) \<Rightarrow> Inl e
      | Inr h \<Rightarrow> fst (CompleteConnect t (hc_deadline h - now2) now2 h))"

section \<open>Reading exactly the bytes of a frame\<close>

text \<open>
  What the framing code relies on: a read takes a prefix of the unread bytes, as long as it can,
  and leaves the rest unread.
\<close>

locale byte_source =
  fixes read :: "nat \<Rightarrow> 'r \<Rightarrow> string \<times> 'r"
    and unread :: "'r \<Rightarrow> string"
  assumes read_takes: "fst (read n r) = take n (unread r)"
    and read_leaves: "unread (snd (read n r)) = drop n (unread r)"
begin

lemma read_full: "length (fst (read n r)) = n \<longleftrightarrow> n \<le> length (unread r)"
  by (auto simp: read_takes)

lemma read_twice:
  "fst (read n r) @ fst (read m (snd (read n r))) = take (n + m) (unread r)"
  by (simp add: read_takes read_leaves take_add)

lemma read_loses_nothing: "fst (read n r) @ unread (snd (read n r)) = unread r"
  by (simp add: read_takes read_leaves)

end

definition same_io :: "conn \<Rightarrow> conn \<Rightarrow> bool" where
  "same_io c c' \<longleftrightarrow> tx c' = tx c \<and> write_errs c' = write_errs c \<and> deadline_errs c' = deadline_errs c \<and>
     armed c' = armed c \<and> is_open c' = is_open c \<and> read_err c' = read_err c"

lemma same_io_refl [simp]: "same_io c c"
  by (simp add: same_io_def)

lemma same_io_trans: "same_io a b \<Longrightarrow> same_io b c \<Longrightarrow> same_io a c"
  by (simp add: same_io_def)

definition unread :: "reader \<Rightarrow> string" where
  "unread r = fst r @ rx (snd r)"

lemma sock_read_spec:
  "fst (sock_read c) @ rx (snd (sock_read c)) = rx c \<and> same_io c (snd (sock_read c))"
  by (simp add: sock_read_def Let_def same_io_def)

lemma read_upto_spec:
  "fst (read_upto n b c) = take n (b @ rx c) \<and>
   unread (snd (read_upto n b c)) = drop n (b @ rx c) \<and>
   same_io c (snd (snd (read_upto n b c)))"
proof (induction n b c rule: read_upto.induct)
  case (1 n b c)
  consider (zero) "n = 0" | (buffered) "n \<noteq> 0" "b \<noteq> []" | (dry) "n \<noteq> 0" "b = []" "rx c = []"
    | (fill) "n \<noteq> 0" "b = []" "rx c \<noteq> []" by blast
  then show ?case
  proof cases
    case zero
    then have "read_upto n b c = ([], b, c)" by (subst read_upto.simps) simp
    with zero show ?thesis by (simp add: unread_def)
  next
    case buffered
    define m where "m = n - length (take n b)"
    have ih: "fst (read_upto m (drop n b) c) = take m (drop n b @ rx c) \<and>
        unread (snd (read_upto m (drop n b) c)) = drop m (drop n b @ rx c) \<and>
        same_io c (snd (snd (read_upto m (drop n b) c)))"
      using 1(1) [OF buffered] unfolding m_def .
    have step: "read_upto n b c =
        (take n b @ fst (read_upto m (drop n b) c), snd (read_upto m (drop n b) c))"
      using buffered unfolding m_def by (subst read_upto.simps) (simp add: Let_def split: prod.splits)
    show ?thesis unfolding step using ih by (auto simp: m_def min_def)
  next
    case dry
    then have "read_upto n b c = ([], [], c)" by (subst read_upto.simps) simp
    with dry show ?thesis by (simp add: unread_def)
  next
    case fill
    obtain b' c' where s: "sock_read c = (b', c')" by (cases "sock_read c")
    have step: "read_upto n b c = read_upto n b' c'"
      using fill s by (subst read_upto.simps) simp
    have eq: "b' @ rx c' = rx c" "same_io c c'" using sock_read_spec [of c] s by simp_all
    have ih: "fst (read_upto n b' c') = take n (b' @ rx c') \<and>
        unread (snd (read_upto n b' c')) = drop n (b' @ rx c') \<and>
        same_io c' (snd (snd (read_upto n b' c')))"
      using 1(2) [OF fill(1) _ fill(3)] fill(2) s by simp
    then show ?thesis unfolding step using eq fill(2) by (auto intro: same_io_trans)
  qed
qed

interpretation handshake: byte_source "\<lambda>n r. read_upto n (fst r) (snd r)" unread
proof unfold_locales
  fix n :: nat and r :: reader
  show "fst (read_upto n (fst r) (snd r)) = take n (unread r)"
    using read_upto_spec [of n "fst r" "snd r"] by (simp add: unread_def)
  show "unread (snd (read_upto n (fst r) (snd r))) = drop n (unread r)"
    using read_upto_spec [of n "fst r" "snd r"] by (simp add: unread_def)
qed

lemma ReadFull_spec:
  assumes "ReadFull n r = (res, r')"
  shows "same_io (snd r) (snd r') \<and>
    (if n \<le> length (unread r) then res = Inr (take n (unread r)) \<and> unread r' = drop n (unread r)
     else \<exists>e. res = Inl e)"
proof -
  have io: "same_io (snd r) (snd (snd (read_upto n (fst r) (snd r))))" by (simp add: read_upto_spec)
  show ?thesis
    using assms io handshake.read_full [of n r] handshake.read_takes [of n r] handshake.read_leaves [of n r]
    by (auto simp: ReadFull_def split: prod.splits if_splits)
qed

lemma Discard_spec:
  assumes "Discard n r = (res, r')"
  shows "same_io (snd r) (snd r') \<and>
    (if n \<le> length (unread r) then res = None \<and> unread r' = drop n (unread r) else res \<noteq> None)"
proof -
  have io: "same_io (snd r) (snd (snd (read_upto n (fst r) (snd r))))" by (simp add: read_upto_spec)
  show ?thesis
    using assms io handshake.read_full [of n r] handshake.read_leaves [of n r]
    by (auto simp: Discard_def split: prod.splits if_splits)
qed

section \<open>The frames of the endpoint\<close>

text \<open>A reference reading of what the endpoint sends after a CONNECT, on the whole stream at once.\<close>

datatype reply = ReplyShort | ReplyMalformed | ReplyRefused char | ReplyBadBound | ReplyOk string

definition bound_length :: "char \<Rightarrow> string \<Rightarrow> nat option" where
  "bound_length atyp s =
     (if ord atyp = 1 then Some 6
      else if ord atyp = 3 then (if s = [] then None else Some (Suc (ord (hd s) + 2)))
      else if ord atyp = 4 then Some 18
      else None)"

definition parse_reply :: "string \<Rightarrow> reply" where
  "parse_reply s =
     (if length s < 4 then ReplyShort
      else if ord (s ! 0) \<noteq> 5 \<or> ord (s ! 2) \<noteq> 0 then ReplyMalformed
      else if ord (s ! 1) \<noteq> 0 then ReplyRefused (s ! 1)
      else (case bound_length (s ! 3) (drop 4 s) of
          None \<Rightarrow> ReplyBadBound
        | Some n \<Rightarrow> if n \<le> length s - 4 then ReplyOk (drop (n + 4) s) else ReplyBadBound))"

lemma discard_spec:
  assumes "discardSocksBoundAddress a r = (res, r')"
  shows "same_io (snd r) (snd r') \<and>
    (case bound_length a (unread r) of
       None \<Rightarrow> res \<noteq> None
     | Some n \<Rightarrow> if n \<le> length (unread r) then res = None \<and> unread r' = drop n (unread r)
                 else res \<noteq> None)"
proof (cases "ord a = 3")
  case True
  obtain res1 r1 where one: "ReadFull 1 r = (res1, r1)" by (cases "ReadFull 1 r")
  note s1 = ReadFull_spec [OF one]
  show ?thesis
  proof (cases "unread r")
    case Nil
    with s1 obtain e where "res1 = Inl e" by auto
    with assms True one s1 Nil show ?thesis
      by (auto simp: discardSocksBoundAddress_def bound_length_def)
  next
    case (Cons n rest)
    with s1 have p1: "res1 = Inr [n]" "unread r1 = rest" by auto
    obtain res2 r2 where two: "Discard (ord n + 2) r1 = (res2, r2)" by (cases "Discard (ord n + 2) r1")
    have "res = res2" "r' = r2"
      using assms True one two p1 by (auto simp: discardSocksBoundAddress_def)
    then show ?thesis
      using Discard_spec [OF two] s1 p1 Cons True
      by (auto simp: bound_length_def intro: same_io_trans)
  qed
next
  case False
  show ?thesis
    using assms False Discard_spec [of 6 r res r'] Discard_spec [of 18 r res r']
    by (auto simp: discardSocksBoundAddress_def bound_length_def split: if_splits)
qed

fun stream_of :: "net_conn \<Rightarrow> string" where
  "stream_of (RawConn c) = rx c"
| "stream_of (PrefixConn p c) = p @ rx c"

lemma withBufferedPrefix_stream:
  "stream_of (withBufferedPrefix c b) = b @ rx c" "under (withBufferedPrefix c b) = c"
  by (simp_all add: withBufferedPrefix_def)

lemma scripted_clean: "\<forall>e \<in> set es. e = None \<Longrightarrow> scripted es = None \<and> (\<forall>e \<in> set (tl es). e = None)"
  by (cases es) (auto simp: scripted_def)

text \<open>The reading half of \<open>CompleteConnect\<close>, on every stream.\<close>

text \<open>The end of a reply: the deadline is cleared, or the socket closed.\<close>

lemma clear_deadline_spec:
  assumes "clear_deadline h b c = (res, h')"
  shows "br h' = None \<and> tx (sock h') = tx c \<and>
    (case res of
       Inr out \<Rightarrow> stream_of out = b @ rx c \<and> under out = sock h' \<and> armed (sock h') = None \<and>
         is_open (sock h') = is_open c
     | Inl e \<Rightarrow> \<not> is_open (sock h') \<and> IsHandshakeError e \<and> (\<forall>code. cause_of e \<noteq> ReplyCause code) \<and>
         \<not> (\<forall>x \<in> set (deadline_errs c). x = None))"
proof -
  obtain d c1 where sd: "SetDeadline None c = (d, c1)" by (cases "SetDeadline None c")
  have c1: "rx c1 = rx c" "tx c1 = tx c" "is_open c1 = is_open c"
    "d = scripted (deadline_errs c)" "d = None \<Longrightarrow> armed c1 = None"
    using sd by (auto simp: SetDeadline_def split: option.splits)
  show ?thesis
  proof (cases d)
    case (Some e)
    have "\<not> (\<forall>x \<in> set (deadline_errs c). x = None)"
      using scripted_clean [of "deadline_errs c"] Some c1(4) by force
    moreover have "res = Inl (SocksHandshakeError ''clear handshake deadline'' (Cause e))"
      "h' = half_Close (hold h (b, c1))"
      using assms Some sd by (simp_all add: clear_deadline_def)
    ultimately show ?thesis using c1 by (simp add: half_Close_def hold_def close_conn_def)
  next
    case None
    then have "res = Inr (withBufferedPrefix c1 b)" "h' = recycle (hold h (b, c1))"
      using assms sd by (simp_all add: clear_deadline_def)
    then show ?thesis using c1 None by (simp add: recycle_def hold_def withBufferedPrefix_stream)
  qed
qed

text \<open>A reply that accepts, from its bound address on.\<close>

lemma read_bound_spec:
  assumes res: "(case discardSocksBoundAddress (p ! 3) r1 of
              (Some e, r2) \<Rightarrow> failHandshake (hold h r2) ''read bound address'' (Cause e)
            | (None, b, c) \<Rightarrow> clear_deadline h b c) = (res, h')"
    and p: "unread r1 = drop 4 p" "4 \<le> length p" "ord (p ! 0) = 5 \<and> ord (p ! 2) = 0 \<and> ord (p ! 1) = 0"
  shows "br h' = None \<and> tx (sock h') = tx (snd r1) \<and>
    (case res of
       Inr out \<Rightarrow> parse_reply p = ReplyOk (stream_of out) \<and> under out = sock h' \<and> armed (sock h') = None \<and>
         is_open (sock h') = is_open (snd r1)
     | Inl e \<Rightarrow> \<not> is_open (sock h') \<and> IsHandshakeError e \<and> (\<forall>code. cause_of e \<noteq> ReplyCause code) \<and>
         (\<forall>code. parse_reply p \<noteq> ReplyRefused code) \<and>
         ((\<forall>x \<in> set (deadline_errs (snd r1)). x = None) \<longrightarrow> (\<forall>s. parse_reply p \<noteq> ReplyOk s)))"
proof -
  obtain res2 r2 where two: "discardSocksBoundAddress (p ! 3) r1 = (res2, r2)"
    by (cases "discardSocksBoundAddress (p ! 3) r1")
  note s2 = discard_spec [OF two, unfolded p(1)]
  have parse: "parse_reply p = (case bound_length (p ! 3) (drop 4 p) of
      None \<Rightarrow> ReplyBadBound
    | Some n \<Rightarrow> if n \<le> length p - 4 then ReplyOk (drop (n + 4) p) else ReplyBadBound)"
    using p by (simp add: parse_reply_def)
  show ?thesis
  proof (cases res2)
    case (Some e)
    with s2 have bad: "parse_reply p = ReplyBadBound"
      unfolding parse by (auto split: option.splits if_splits)
    have "res = Inl (SocksHandshakeError ''read bound address'' (Cause e))" "h' = half_Close (hold h r2)"
      using res two Some by (simp_all add: failHandshake_def)
    then show ?thesis
      using bad s2 by (simp add: half_Close_def hold_def close_conn_def same_io_def)
  next
    case None
    obtain b c where r2: "r2 = (b, c)" by (cases r2)
    from s2 None obtain n where n: "bound_length (p ! 3) (drop 4 p) = Some n" "n \<le> length p - 4"
      "unread r2 = drop (n + 4) p" by (auto split: option.splits if_splits)
    then have good: "parse_reply p = ReplyOk (b @ rx c)" unfolding parse by (simp add: r2 unread_def)
    have io: "tx c = tx (snd r1)" "is_open c = is_open (snd r1)" "deadline_errs c = deadline_errs (snd r1)"
      using s2 by (simp_all add: same_io_def r2)
    have "clear_deadline h b c = (res, h')" using res two None r2 by simp
    from clear_deadline_spec [OF this] show ?thesis using good io by (auto split: sum.splits)
  qed
qed

lemma read_reply_spec:
  assumes "read_reply h r = (res, h')"
  shows "br h' = None \<and> tx (sock h') = tx (snd r) \<and>
    (case res of
       Inr out \<Rightarrow> parse_reply (unread r) = ReplyOk (stream_of out) \<and> under out = sock h' \<and>
         armed (sock h') = None \<and> is_open (sock h') = is_open (snd r)
     | Inl e \<Rightarrow> \<not> is_open (sock h') \<and> IsHandshakeError e \<and>
         (\<forall>code. cause_of e = ReplyCause code \<longleftrightarrow> parse_reply (unread r) = ReplyRefused code) \<and>
         ((\<forall>x \<in> set (deadline_errs (snd r)). x = None) \<longrightarrow> (\<forall>s. parse_reply (unread r) \<noteq> ReplyOk s)))"
proof -
  obtain res1 r1 where one: "ReadFull 4 r = (res1, r1)" by (cases "ReadFull 4 r")
  note s1 = ReadFull_spec [OF one]
  show ?thesis
  proof (cases "4 \<le> length (unread r)")
    case False
    with s1 obtain e where "res1 = Inl e" by auto
    with False assms one s1 show ?thesis
      by (auto simp: read_reply_def failHandshake_def half_Close_def hold_def close_conn_def
          parse_reply_def same_io_def)
  next
    case True
    define p where "p = unread r"
    have r1: "res1 = Inr (take 4 p)" "unread r1 = drop 4 p" "same_io (snd r) (snd r1)"
      using s1 True by (simp_all add: p_def)
    have idx: "take 4 p ! 0 = p ! 0" "take 4 p ! 1 = p ! 1" "take 4 p ! 2 = p ! 2" "take 4 p ! 3 = p ! 3"
      by simp_all
    show ?thesis
    proof (cases "ord (p ! 0) = 5 \<and> ord (p ! 2) = 0 \<and> ord (p ! 1) = 0")
      case False
      with True assms one r1 show ?thesis
        by (auto simp: read_reply_def failHandshake_def half_Close_def hold_def close_conn_def
            parse_reply_def same_io_def p_def [symmetric] idx ord_inject split: if_splits)
    next
      case ok: True
      then have "(case discardSocksBoundAddress (p ! 3) r1 of
              (Some e, r2) \<Rightarrow> failHandshake (hold h r2) ''read bound address'' (Cause e)
            | (None, b, c) \<Rightarrow> clear_deadline h b c) = (res, h')"
        using assms one r1(1) by (simp add: read_reply_def idx)
      from read_bound_spec [OF this r1(2) _ ok] show ?thesis
        using True r1(3) by (auto simp: p_def same_io_def split: sum.splits)
    qed
  qed
qed

lemma CompleteConnect_cases:
  assumes live: "br h = Some b"
    and run: "CompleteConnect t timeout now h = (res, h')"
  obtains
    (deadline) e c where "res = Inl (SocksHandshakeError ''set handshake deadline'' (Cause e))"
      "h' = half_Close (hold h (b, c))" "tx c = tx (sock h)" "\<not> (\<forall>x \<in> set (deadline_errs (sock h)). x = None)"
  | (encode) e c where "socksConnectRequest t = Inl e"
      "res = Inl (SocksProtocolError ''encode target'' (Cause e))"
      "h' = half_Close (hold h (b, c))" "tx c = tx (sock h)"
  | (send) e req c where "socksConnectRequest t = Inr req"
      "res = Inl (SocksHandshakeError ''send connect'' (Cause e))"
      "h' = half_Close (hold h (b, c))" "tx c = tx (sock h)" "\<not> (\<forall>x \<in> set (write_errs (sock h)). x = None)"
  | (reply) req c where "socksConnectRequest t = Inr req" "read_reply h (b, c) = (res, h')"
      "tx c = tx (sock h) @ [req]" "rx c = rx (sock h)" "is_open c = is_open (sock h)"
      "(\<forall>x \<in> set (deadline_errs (sock h)). x = None) \<Longrightarrow> (\<forall>x \<in> set (deadline_errs c). x = None)"
proof -
  obtain d c where sd: "SetDeadline (Some (now + timeout)) (sock h) = (d, c)"
    by (cases "SetDeadline (Some (now + timeout)) (sock h)")
  have c: "rx c = rx (sock h)" "tx c = tx (sock h)" "is_open c = is_open (sock h)"
    "write_errs c = write_errs (sock h)" "d = scripted (deadline_errs (sock h))"
    "deadline_errs c = tl (deadline_errs (sock h))"
    using sd by (auto simp: SetDeadline_def split: option.splits)
  show ?thesis
  proof (cases d)
    case (Some e)
    then have "\<not> (\<forall>x \<in> set (deadline_errs (sock h)). x = None)"
      using scripted_clean [of "deadline_errs (sock h)"] c(5) by force
    with run live sd Some c(2) show ?thesis
      by (intro deadline [of e c]) (simp_all add: CompleteConnect_def failHandshake_def)
  next
    case d: None
    show ?thesis
    proof (cases "socksConnectRequest t")
      case (Inl e)
      with run live sd d c(2) show ?thesis
        by (intro encode [of e c]) (simp_all add: CompleteConnect_def failSetup_def)
    next
      case (Inr req)
      obtain w c1 where sw: "sock_write req c = (w, c1)" by (cases "sock_write req c")
      have c1: "rx c1 = rx c" "is_open c1 = is_open c" "w = scripted (write_errs c)"
        "deadline_errs c1 = deadline_errs c" "tx c1 = (if w = None then tx c @ [req] else tx c)"
        using sw by (auto simp: sock_write_def split: option.splits)
      show ?thesis
      proof (cases w)
        case (Some e)
        then have "\<not> (\<forall>x \<in> set (write_errs (sock h)). x = None)"
          using scripted_clean [of "write_errs (sock h)"] c1(3) c(4) by force
        with run live sd d Inr sw Some c(2) c1(5) show ?thesis
          by (intro send [of req e c1]) (simp_all add: CompleteConnect_def failHandshake_def)
      next
        case None
        have "(\<forall>x \<in> set (deadline_errs (sock h)). x = None) \<Longrightarrow> (\<forall>x \<in> set (deadline_errs c1). x = None)"
          using scripted_clean [of "deadline_errs (sock h)"] c c1 by simp
        with run live sd d Inr sw None c c1 show ?thesis
          by (intro reply [of req c1]) (simp_all add: CompleteConnect_def)
      qed
    qed
  qed
qed

text \<open>Claim C20: Completing a parked half connection is all or nothing. The half connection is
  consumed either way. On success exactly one frame was written, the encoding of the target; the
  tunnel's stream is exactly what the endpoint sent after its reply, buffered bytes included; and
  the handshake deadline is off. On failure the socket is closed, nothing but that frame was
  written, and the error is the target-scoped one exactly when the endpoint answered the request
  with a non-zero reply code; every other handshake error is route-scoped. With a socket that
  neither fails to write nor to arm, a well-formed success reply always succeeds.\<close>

theorem CompleteConnect_contract:
  assumes live: "br h = Some b"
    and run: "CompleteConnect t timeout now h = (res, h')"
  shows "br h' = None \<and>
    (case res of
       Inr out \<Rightarrow> (\<exists>req. socksConnectRequest t = Inr req \<and> tx (sock h') = tx (sock h) @ [req]) \<and>
         parse_reply (b @ rx (sock h)) = ReplyOk (stream_of out) \<and> under out = sock h' \<and>
         armed (sock h') = None \<and> is_open (sock h') = is_open (sock h)
     | Inl e \<Rightarrow> \<not> is_open (sock h') \<and>
         (tx (sock h') = tx (sock h) \<or>
          (\<exists>req. socksConnectRequest t = Inr req \<and> tx (sock h') = tx (sock h) @ [req])) \<and>
         \<not> IsDialError e \<and> \<not> IsAuthError e \<and>
         (IsHandshakeError e \<or> tx (sock h') = tx (sock h)) \<and>
         (\<forall>code. cause_of e = ReplyCause code \<longleftrightarrow>
            tx (sock h') \<noteq> tx (sock h) \<and> parse_reply (b @ rx (sock h)) = ReplyRefused code)) \<and>
    ((\<forall>x \<in> set (write_errs (sock h)). x = None) \<longrightarrow> (\<forall>x \<in> set (deadline_errs (sock h)). x = None) \<longrightarrow>
       (isl res \<longleftrightarrow> isl (socksConnectRequest t) \<or> (\<forall>s. parse_reply (b @ rx (sock h)) \<noteq> ReplyOk s)))"
proof (rule CompleteConnect_cases [OF live run])
  fix req c
  assume req: "socksConnectRequest t = Inr req" and rr: "read_reply h (b, c) = (res, h')"
    and c: "tx c = tx (sock h) @ [req]" "rx c = rx (sock h)" "is_open c = is_open (sock h)"
      "(\<forall>x \<in> set (deadline_errs (sock h)). x = None) \<Longrightarrow> (\<forall>x \<in> set (deadline_errs c). x = None)"
  note spec = read_reply_spec [OF rr]
  have p: "unread (b, c) = b @ rx (sock h)" by (simp add: unread_def c)
  show ?thesis
  proof (cases res)
    case res: (Inl e)
    have "\<not> IsDialError e \<and> \<not> IsAuthError e" using spec res by (cases e) auto
    with spec res p req c show ?thesis by simp
  next
    case res: (Inr out)
    with spec p req c show ?thesis by simp
  qed
qed (auto simp: half_Close_def hold_def close_conn_def)

definition demo_sock :: "nat list \<Rightarrow> conn" where
  "demo_sock bytes = \<lparr>rx = map chr bytes, cuts = [3, 1, 200], read_err = ''EOF'', tx = [],
     write_errs = [], deadline_errs = [], armed = None, is_open = True\<rparr>"

definition demo_half :: half_conn where
  "demo_half = \<lparr>sock = demo_sock [5, 0, 0, 1, 9, 9, 9, 9, 4, 56, 72, 105], br = Some [], hc_deadline = 0\<rparr>"

definition demo_dest :: target where
  "demo_dest = \<lparr>Host = ''ab'', Port = 80, Type = AddrDomain\<rparr>"

theorem CompleteConnect_contract_witness:
  "br demo_half = Some [] \<and>
   (case CompleteConnect demo_dest 5 7 demo_half of
      (Inr out, h') \<Rightarrow> stream_of out = [chr 72, chr 105] \<and> br h' = None | _ \<Rightarrow> False)"
proof -
  have br: "br demo_half = Some []" by (simp add: demo_half_def)
  obtain res h' where run: "CompleteConnect demo_dest 5 7 demo_half = (res, h')"
    by (cases "CompleteConnect demo_dest 5 7 demo_half")
  have ok: "parse_reply ([] @ rx (sock demo_half)) = ReplyOk [chr 72, chr 105]"
    by (simp add: demo_half_def demo_sock_def parse_reply_def bound_length_def ord_chr)
  have enc: "\<not> isl (socksConnectRequest demo_dest)"
    by (simp add: demo_dest_def socksConnectRequest_def)
  have clean: "(\<forall>x \<in> set (write_errs (sock demo_half)). x = None)"
    "(\<forall>x \<in> set (deadline_errs (sock demo_half)). x = None)"
    by (simp_all add: demo_half_def demo_sock_def)
  note c = CompleteConnect_contract [OF br run]
  from c clean enc ok have "\<not> isl res" by auto
  then obtain out where "res = Inr out" by (cases res) auto
  with c ok run br show ?thesis by auto
qed

section \<open>The CONNECT encoding\<close>

text \<open>A reference decoder of RFC 1928 requests: address type, address bytes, port.\<close>

definition port_of :: "string \<Rightarrow> nat" where
  "port_of bs = ord (bs ! 0) * 256 + ord (bs ! 1)"

definition decode_connect :: "string \<Rightarrow> (addr_type \<times> string \<times> nat) option" where
  "decode_connect bs =
     (case bs of
        ver # cmd # rsv # atyp # rest \<Rightarrow>
          if ord ver \<noteq> 5 \<or> ord cmd \<noteq> 1 \<or> ord rsv \<noteq> 0 then None
          else if ord atyp = 1 then
            (if length rest = 6 then Some (AddrIPv4, take 4 rest, port_of (drop 4 rest)) else None)
          else if ord atyp = 4 then
            (if length rest = 18 then Some (AddrIPv6, take 16 rest, port_of (drop 16 rest)) else None)
          else if ord atyp = 3 then
            (case rest of
               n # body \<Rightarrow>
                 if length body = ord n + 2
                 then Some (AddrDomain, take (ord n) body, port_of (drop (ord n) body)) else None
             | [] \<Rightarrow> None)
          else None
      | _ \<Rightarrow> None)"

definition wire_addr :: "target \<Rightarrow> string" where
  "wire_addr t =
     (case Type t of
        AddrIPv4 \<Rightarrow> To4 (the (ParseIP (Host t)))
      | AddrIPv6 \<Rightarrow> To16 (the (ParseIP (Host t)))
      | _ \<Rightarrow> Host t)"

definition encodable :: "target \<Rightarrow> bool" where
  "encodable t \<longleftrightarrow> Port t \<noteq> 0 \<and>
     (case Type t of
        AddrIPv4 \<Rightarrow> (case ParseIP (Host t) of None \<Rightarrow> False | Some ip \<Rightarrow> is_v4 ip)
      | AddrIPv6 \<Rightarrow> ParseIP (Host t) \<noteq> None
      | AddrDomain \<Rightarrow> Host t \<noteq> [] \<and> length (Host t) \<le> 255
      | AddrOther n \<Rightarrow> False)"

lemma encodes_iff: "isl (socksConnectRequest t) \<longleftrightarrow> \<not> encodable t"
  by (auto simp: socksConnectRequest_def encodable_def Let_def split: addr_type.splits option.splits)

lemma encodable_v4:
  "encodable u \<Longrightarrow> Type u = AddrIPv4 \<Longrightarrow> \<exists>k. ParseIP (Host u) = Some k \<and> is_v4 k"
  by (cases "ParseIP (Host u)") (simp_all add: encodable_def)

lemma port_of_pair: "p < 65536 \<Longrightarrow> port_of [chr (p div 256), chr (p mod 256)] = p"
proof -
  assume "p < 65536"
  then have "ord (chr (p div 256)) = p div 256" by (intro ord_chr) (simp add: div_less_iff_less_mult)
  moreover have "ord (chr (p mod 256)) = p mod 256" by (simp add: ord_chr)
  ultimately show ?thesis by (simp add: port_of_def)
qed

lemma decode_encode:
  assumes p: "Port t < 65536" and enc: "socksConnectRequest t = Inr req"
  shows "decode_connect req = Some (Type t, wire_addr t, Port t)"
proof (cases "Type t")
  case AddrIPv4
  with enc obtain ip where ip: "ParseIP (Host t) = Some ip" "is_v4 ip"
    and req: "req = chr 5 # chr 1 # chr 0 # chr 1 # To4 ip @ [chr (Port t div 256), chr (Port t mod 256)]"
    by (auto simp: socksConnectRequest_def Let_def split: if_splits option.splits)
  have l: "length (To4 ip) = 4" using valid_key_4 [OF ParseIP_valid [OF ip(1)]] by simp
  show ?thesis
    by (simp add: decode_connect_def req l ord_chr port_of_pair [OF p] AddrIPv4 wire_addr_def ip)
next
  case AddrIPv6
  with enc obtain ip where ip: "ParseIP (Host t) = Some ip"
    and req: "req = chr 5 # chr 1 # chr 0 # chr 4 # To16 ip @ [chr (Port t div 256), chr (Port t mod 256)]"
    by (auto simp: socksConnectRequest_def Let_def split: if_splits option.splits)
  have l: "length (To16 ip) = 16" using valid_key_16 [OF ParseIP_valid [OF ip]] by simp
  show ?thesis
    by (simp add: decode_connect_def req l ord_chr port_of_pair [OF p] AddrIPv6 wire_addr_def ip)
next
  case AddrDomain
  with enc have len: "length (Host t) \<le> 255"
    and req: "req = chr 5 # chr 1 # chr 0 # chr 3 # chr (length (Host t)) # Host t @
        [chr (Port t div 256), chr (Port t mod 256)]"
    by (auto simp: socksConnectRequest_def Let_def split: if_splits)
  have o: "ord (chr (length (Host t))) = length (Host t)" using len by (intro ord_chr) simp
  show ?thesis
    by (simp add: decode_connect_def req o ord_chr port_of_pair [OF p] AddrDomain wire_addr_def)
next
  case (AddrOther n)
  with enc show ?thesis by (simp add: socksConnectRequest_def Let_def split: if_splits)
qed

text \<open>Claim C22: The CONNECT request carries the caller's target, its address type included: it decodes to that
  type, that address and that port. Encoding fails exactly on a zero port, a literal that is not an
  address of its declared family, a hostname that does not fit the length byte, or an unknown type;
  and two targets with the same request are the same destination, the same hostname byte for byte,
  or the same address.\<close>

theorem socksConnectRequest_roundtrip:
  assumes p: "Port t < 65536" "Port t' < 65536"
  shows "(isl (socksConnectRequest t) \<longleftrightarrow> \<not> encodable t) \<and>
    (\<forall>req. socksConnectRequest t = Inr req \<longrightarrow>
       decode_connect req = Some (Type t, wire_addr t, Port t) \<and>
       (socksConnectRequest t' = Inr req \<longrightarrow>
          Type t = Type t' \<and> Port t = Port t' \<and>
          (if Type t = AddrDomain then Host t = Host t' else ParseIP (Host t) = ParseIP (Host t'))))"
proof (intro conjI allI impI)
  show "isl (socksConnectRequest t) \<longleftrightarrow> \<not> encodable t" by (rule encodes_iff)
  fix req assume enc: "socksConnectRequest t = Inr req"
  note dec = decode_encode [OF p(1) enc]
  then show "decode_connect req = Some (Type t, wire_addr t, Port t)" .
  assume enc': "socksConnectRequest t' = Inr req"
  note dec' = decode_encode [OF p(2) enc']
  from dec dec' have same: "Type t = Type t'" "wire_addr t = wire_addr t'" "Port t = Port t'" by simp_all
  then show "Type t = Type t'" "Port t = Port t'" by blast+
  have e: "encodable t" "encodable t'"
    using encodes_iff [of t] encodes_iff [of t'] enc enc' by simp_all
  show "if Type t = AddrDomain then Host t = Host t' else ParseIP (Host t) = ParseIP (Host t')"
  proof (cases "Type t")
    case AddrDomain
    with same show ?thesis by (simp add: wire_addr_def)
  next
    case AddrIPv6
    with e same(1) obtain k k' where k: "ParseIP (Host t) = Some k" "ParseIP (Host t') = Some k'"
      by (auto simp: encodable_def)
    have "To16 k = To16 k'" using same AddrIPv6 k by (simp add: wire_addr_def)
    then have "k = k'"
      by (metis valid_key_16 ParseIP_valid k)
    with k AddrIPv6 show ?thesis by simp
  next
    case AddrIPv4
    obtain k where k1: "ParseIP (Host t) = Some k" "is_v4 k"
      using encodable_v4 [OF e(1) AddrIPv4] by blast
    obtain k' where k2: "ParseIP (Host t') = Some k'" "is_v4 k'"
      using encodable_v4 [OF e(2)] AddrIPv4 same(1) by metis
    note k = k1(1) k2(1) and v4 = k1(2) k2(2)
    have "To4 k = To4 k'" using same AddrIPv4 k by (simp add: wire_addr_def)
    then have "drop 6 k = drop 6 k'" by (metis valid_key_4 ParseIP_valid k)
    moreover have "take 6 k = take 6 k'" using v4 by (simp add: is_v4_def)
    ultimately have "k = k'" by (metis append_take_drop_id)
    with k AddrIPv4 show ?thesis by simp
  next
    case (AddrOther n)
    with e show ?thesis by (simp add: encodable_def)
  qed
qed

theorem socksConnectRequest_roundtrip_witness:
  "decode_connect (projr (socksConnectRequest demo_dest)) = Some (AddrDomain, ''ab'', 80)"
proof -
  obtain req where "socksConnectRequest demo_dest = Inr req"
    by (simp add: demo_dest_def socksConnectRequest_def)
  then show ?thesis
    using socksConnectRequest_roundtrip [of demo_dest demo_dest]
    by (simp add: demo_dest_def wire_addr_def)
qed

text \<open>A target's rendered address names it: parsing it back gives the target, for every target
  whose type is the one its host has and whose host carries no bracket.\<close>

theorem TargetFromAddr_Addr:
  assumes "1 \<le> Port t" "Port t \<le> 65535"
    and "CHR ''['' \<notin> set (Host t)" "CHR '']'' \<notin> set (Host t)"
    and "Type t = (case ParseIP (Host t) of None \<Rightarrow> AddrDomain
           | Some ip \<Rightarrow> if is_v4 ip then AddrIPv4 else AddrIPv6)"
  shows "TargetFromAddr (Addr t) = Some t"
proof -
  have a: "Addr t = JoinHostPort (Host t) (digits_of (Port t))" by (simp add: Addr_def Itoa_def)
  have s: "net_SplitHostPort (Addr t) = Inr (Host t, digits_of (Port t))"
    unfolding a by (rule SplitHostPort_Join_nat [OF assms(3,4)])
  have "Atoi (digits_of (Port t)) = Some (int (Port t))"
    by (rule Atoi_Itoa_nat) (use assms(2) in \<open>simp add: max_int64_def\<close>)
  with s assms show ?thesis by (simp add: TargetFromAddr_def)
qed

theorem TargetFromAddr_Addr_witness: "TargetFromAddr (Addr demo_dest) = Some demo_dest"
proof -
  have "ParseIP ''ab'' = None" by code_simp
  then show ?thesis using TargetFromAddr_Addr [of demo_dest] by (simp add: demo_dest_def)
qed

section \<open>Greeting and authentication\<close>

lemma sock_write_spec:
  "sock_write bs c = (w, c') \<Longrightarrow>
     rx c' = rx c \<and> is_open c' = is_open c \<and> armed c' = armed c \<and>
     tx c' = (if w = None then tx c @ [bs] else tx c)"
  by (auto simp: sock_write_def split: option.splits)

lemma take_two: "2 \<le> length s \<Longrightarrow> s = s ! 0 # s ! 1 # drop 2 s"
  by (cases s; cases "tl s") auto

lemma ord_is: "ord c = n \<Longrightarrow> c = chr n"
  by auto

lemma ord_iff: "n < 256 \<Longrightarrow> ord c = n \<longleftrightarrow> c = chr n"
  using ord_chr by auto

text \<open>A two-byte read: either the bytes and the rest of the stream, or an error.\<close>

lemma ReadFull_two:
  assumes "ReadFull 2 (b, c) = (res, r')"
  shows "tx (snd r') = tx c \<and> is_open (snd r') = is_open c \<and> armed (snd r') = armed c \<and>
    (case res of Inl e \<Rightarrow> length (b @ rx c) < 2 | Inr xs \<Rightarrow> b @ rx c = xs ! 0 # xs ! 1 # unread r')"
proof -
  note spec = ReadFull_spec [OF assms]
  show ?thesis
  proof (cases "2 \<le> length (unread (b, c))")
    case True
    with spec have "res = Inr (take 2 (unread (b, c)))" "unread r' = drop 2 (unread (b, c))" by simp_all
    moreover have "b @ rx c = unread (b, c)" by (simp add: unread_def)
    ultimately show ?thesis using spec take_two [OF True] by (simp add: same_io_def)
  next
    case False
    with spec obtain e where "res = Inl e" by auto
    with spec False show ?thesis by (simp add: same_io_def unread_def)
  qed
qed

text \<open>The endpoint's answer to the credentials is a refusal.\<close>

definition rejects :: "string \<Rightarrow> bool" where
  "rejects s \<longleftrightarrow> (\<exists>m rest. s = chr 1 # m # rest \<and> m \<noteq> chr 0)"

lemma authenticate_spec:
  assumes "authenticate user pass r = (res, r')"
  shows "is_open (snd r') = is_open (snd r) \<and> armed (snd r') = armed (snd r) \<and>
    (tx (snd r') = tx (snd r) \<or>
     length user \<le> 255 \<and> length pass \<le> 255 \<and> tx (snd r') = tx (snd r) @ [auth_request user pass]) \<and>
    (case res of
       None \<Rightarrow> unread r = chr 1 # chr 0 # unread r' \<and> tx (snd r') = tx (snd r) @ [auth_request user pass]
     | Some e \<Rightarrow> \<not> IsDialError e \<and> cause_of e \<noteq> ReplyCause x \<and>
         (IsAuthError e \<longleftrightarrow> tx (snd r') \<noteq> tx (snd r) \<and> rejects (unread r)) \<and>
         (IsHandshakeError e \<longleftrightarrow> \<not> IsAuthError e \<and> length user \<le> 255 \<and> length pass \<le> 255))"
proof -
  obtain b c where r: "r = (b, c)" by (cases r)
  obtain w c1 where sw: "sock_write (auth_request user pass) c = (w, c1)"
    by (cases "sock_write (auth_request user pass) c")
  note w1 = sock_write_spec [OF sw]
  show ?thesis
  proof (cases "255 < length user \<or> 255 < length pass")
    case True
    with assms r show ?thesis by (auto simp: authenticate_def)
  next
    case len: False
    show ?thesis
    proof (cases w)
      case (Some e)
      with assms r sw w1 len show ?thesis by (auto simp: authenticate_def)
    next
      case None
      obtain rep r1 where rd: "ReadFull 2 (b, c1) = (rep, r1)" by (cases "ReadFull 2 (b, c1)")
      note r1 = ReadFull_two [OF rd]
      have tx1: "tx c1 = tx c @ [auth_request user pass]" using w1 None by simp
      show ?thesis
      proof (cases rep)
        case (Inl e)
        have "\<not> rejects (unread r)" using r1 Inl w1 r
          by (auto simp: rejects_def unread_def dest!: arg_cong [of "b @ rx c" _ length])
        with assms r sw len None rd r1 tx1 w1 Inl show ?thesis by (auto simp: authenticate_def)
      next
        case (Inr xs)
        have "unread r = xs ! 0 # xs ! 1 # unread r1" using r1 Inr w1 r by (simp add: unread_def)
        then have rj: "rejects (unread r) \<longleftrightarrow> ord (xs ! 0) = 1 \<and> ord (xs ! 1) \<noteq> 0"
          by (auto simp: rejects_def ord_iff)
        have "r' = r1" and "(case res of None \<Rightarrow> ord (xs ! 0) = 1 \<and> ord (xs ! 1) = 0
            | Some e \<Rightarrow> \<not> IsDialError e \<and> cause_of e \<noteq> ReplyCause x \<and>
                (IsAuthError e \<longleftrightarrow> ord (xs ! 0) = 1 \<and> ord (xs ! 1) \<noteq> 0) \<and>
                (IsHandshakeError e \<longleftrightarrow> \<not> IsAuthError e))"
          using assms r sw len None rd Inr by (auto simp: authenticate_def split: if_splits)
        with r r1 Inr tx1 w1 len rj show ?thesis
          by (auto simp: unread_def split: option.splits dest!: ord_is)
      qed
    qed
  qed
qed

text \<open>\<open>offers\<close> says that the URL carries credentials; \<open>chosen m s\<close> that the endpoint's method
  choice on stream \<open>s\<close> is \<open>m\<close>.\<close>

definition offers :: "url \<Rightarrow> bool" where
  "offers pu \<longleftrightarrow> fst (credentials pu) \<noteq> [] \<or> snd (credentials pu) \<noteq> []"

definition chosen :: "nat \<Rightarrow> string \<Rightarrow> bool" where
  "chosen m s \<longleftrightarrow> (\<exists>rest. s = chr 5 # chr m # rest)"

definition auth_frame :: "url \<Rightarrow> string" where
  "auth_frame pu = auth_request (fst (credentials pu)) (snd (credentials pu))"

definition fits :: "url \<Rightarrow> bool" where
  "fits pu \<longleftrightarrow> length (fst (credentials pu)) \<le> 255 \<and> length (snd (credentials pu)) \<le> 255"

text \<open>The endpoint refused the route's credentials, or the lack of them; and the credentials do not fit the
  frame it asked for. \<open>sent\<close> are the writes made.\<close>

definition auth_refused :: "url \<Rightarrow> string \<Rightarrow> string list \<Rightarrow> bool" where
  "auth_refused pu s sent \<longleftrightarrow>
     sent \<noteq> [] \<and> (chosen 255 s \<or> chosen 2 s \<and> \<not> offers pu) \<or>
     length sent = 2 \<and> (\<exists>s'. s = chr 5 # chr 2 # s' \<and> rejects s')"

definition unencodable :: "url \<Rightarrow> string \<Rightarrow> string list \<Rightarrow> bool" where
  "unencodable pu s sent \<longleftrightarrow> sent \<noteq> [] \<and> chosen 2 s \<and> offers pu \<and> \<not> fits pu"

lemma negotiate_spec:
  assumes "negotiate pu r = (res, r')"
  shows "is_open (snd r') = is_open (snd r) \<and> armed (snd r') = armed (snd r) \<and>
    (\<exists>sent. tx (snd r') = tx (snd r) @ sent \<and>
     (sent = [] \<or> sent = [greeting (offers pu)] \<or>
      offers pu \<and> fits pu \<and> chosen 2 (unread r) \<and> sent = [greeting True, auth_frame pu]) \<and>
    (case res of
       None \<Rightarrow> (unread r = chr 5 # chr 0 # unread r' \<and> tx (snd r') = tx (snd r) @ [greeting (offers pu)]) \<or>
         (unread r = chr 5 # chr 2 # chr 1 # chr 0 # unread r' \<and>
          tx (snd r') = tx (snd r) @ [greeting True, auth_frame pu])
     | Some e \<Rightarrow> \<not> IsDialError e \<and> cause_of e \<noteq> ReplyCause x \<and>
         (IsAuthError e \<longleftrightarrow> auth_refused pu (unread r) sent) \<and>
         (IsHandshakeError e \<longleftrightarrow> \<not> IsAuthError e \<and> \<not> unencodable pu (unread r) sent)))"
proof -
  obtain b c where r: "r = (b, c)" by (cases r)
  obtain user pass where cr: "credentials pu = (user, pass)" by (cases "credentials pu")
  have off: "offers pu \<longleftrightarrow> user \<noteq> [] \<or> pass \<noteq> []" by (simp add: offers_def cr)
  obtain w c1 where sw: "sock_write (greeting (offers pu)) c = (w, c1)"
    by (cases "sock_write (greeting (offers pu)) c")
  note w1 = sock_write_spec [OF sw]
  note unf = assms [unfolded negotiate_def r cr Let_def prod.case fst_conv snd_conv, folded off]
  show ?thesis
  proof (cases w)
    case (Some e)
    with unf r sw w1 show ?thesis by (intro conjI exI [of _ "[]"]) (auto simp: auth_refused_def unencodable_def)
  next
    case None
    obtain rep r1 where rd: "ReadFull 2 (b, c1) = (rep, r1)" by (cases "ReadFull 2 (b, c1)")
    note r1 = ReadFull_two [OF rd]
    have tx1: "tx c1 = tx c @ [greeting (offers pu)]" using w1 None by simp
    show ?thesis
    proof (cases rep)
      case (Inl e)
      have "\<not> chosen m (unread r)" for m using r1 Inl w1 r
        by (auto simp: chosen_def unread_def dest!: arg_cong [of "b @ rx c" _ length])
      with unf r sw None rd r1 tx1 w1 Inl show ?thesis
        by (intro conjI exI [of _ "[greeting (offers pu)]"]) (auto simp: auth_refused_def unencodable_def)
    next
      case (Inr xs)
      have p: "unread r = xs ! 0 # xs ! 1 # unread r1"
        using r1 Inr w1 r by (simp add: unread_def)
      have ch: "chosen m (unread r) \<longleftrightarrow> ord (xs ! 0) = 5 \<and> xs ! 1 = chr m" for m
        using p by (auto simp: chosen_def ord_iff)
      show ?thesis
      proof (cases "ord (xs ! 0) = 5 \<and> ord (xs ! 1) = 2 \<and> offers pu")
        case True
        then have xs: "xs ! 0 = chr 5" "xs ! 1 = chr 2" by (auto dest: ord_is)
        have auth: "authenticate user pass r1 = (res, r')"
          using unf sw None rd Inr True by simp
        note spec = authenticate_spec [OF auth, of x]
        have "tx (snd r1) = tx c1" using r1 by simp
        then obtain sent where sent: "tx (snd r') = tx (snd r1) @ sent" "sent = [] \<or> sent = [auth_frame pu] \<and> fits pu"
          using spec by (auto simp: auth_frame_def fits_def cr)
        have "\<not> chosen 255 (unread r)" using ch [of 255] xs by (simp add: chr_def)
        then show ?thesis
          using spec sent r1 Inr tx1 w1 r p xs ch [of 2] True
          by (intro conjI exI [of _ "greeting True # sent"])
            (auto simp: auth_frame_def fits_def cr auth_refused_def unencodable_def split: option.splits)
      next
        case False
        have eq: "r' = r1" and cs: "(case res of
            None \<Rightarrow> ord (xs ! 0) = 5 \<and> ord (xs ! 1) = 0
          | Some e \<Rightarrow> \<not> IsDialError e \<and> cause_of e \<noteq> ReplyCause x \<and>
             (IsAuthError e \<longleftrightarrow> ord (xs ! 0) = 5 \<and> (ord (xs ! 1) = 2 \<or> ord (xs ! 1) = 255)) \<and>
             (IsHandshakeError e \<longleftrightarrow> \<not> IsAuthError e))"
          using unf sw None rd Inr False by (auto split: if_splits)
        show ?thesis
        proof (cases res)
          case n: None
          with cs p have "unread r = chr 5 # chr 0 # unread r1" by (auto dest!: ord_is)
          with n eq r1 Inr tx1 w1 r show ?thesis by (intro conjI exI [of _ "[greeting (offers pu)]"]) simp_all
        next
          case (Some e)
          have "auth_refused pu (unread r) [greeting (offers pu)] \<longleftrightarrow>
              ord (xs ! 0) = 5 \<and> (ord (xs ! 1) = 2 \<or> ord (xs ! 1) = 255)"
            using ch [of 2] ch [of 255] False by (auto simp: auth_refused_def ord_chr dest!: ord_is)
          moreover have "\<not> unencodable pu (unread r) [greeting (offers pu)]"
            using ch [of 2] False by (auto simp: unencodable_def ord_chr)
          ultimately show ?thesis using Some cs eq r1 Inr tx1 w1 r
            by (intro conjI exI [of _ "[greeting (offers pu)]"]) simp_all
        qed
      qed
    qed
  qed
qed

lemma cause_plain: "(\<And>x. cause_of e \<noteq> ReplyCause x) \<Longrightarrow> \<not> IsConnectTargetError e"
  by (auto simp: IsConnectTargetError_def split: cause.splits)

text \<open>Claim C21: A half connection carries no target and no secret it was not asked for. When it is returned,
  the endpoint accepted the greeting, which offers password authentication exactly when the
  route has credentials; the credentials went out only after the endpoint chose that method and only
  if both fit their length bytes, and the endpoint accepted them; the unread bytes are still in
  front of the CONNECT reply. When it is not, a socket that was opened is closed, the credentials went out
  under the same condition only, and the class of the error is the one the serving path reports by: the
  target-scoped one never, a dial error exactly when the endpoint could not be reached and the caller
  had not cancelled, an authentication error exactly when the endpoint refused the credentials, or the
  lack of them, a local error exactly for another scheme, a cancelled dial and credentials that do not
  fit the frame the endpoint asked for, and a handshake error in every other case.\<close>

theorem DialHalf_contract:
  "case DialHalf ctx_err connect pu timeout now of
     Inr h \<Rightarrow> Scheme pu = ''socks5'' \<and>
       (\<exists>c0 b. connect (upstreamHostPort pu) timeout = Inr c0 \<and> br h = Some b \<and>
          is_open (sock h) = is_open c0 \<and> armed (sock h) = Some (now + timeout) \<and>
          hc_deadline h = now + timeout \<and>
          ((rx c0 = chr 5 # chr 0 # b @ rx (sock h) \<and> tx (sock h) = tx c0 @ [greeting (offers pu)]) \<or>
           (rx c0 = chr 5 # chr 2 # chr 1 # chr 0 # b @ rx (sock h) \<and> offers pu \<and> fits pu \<and>
            tx (sock h) = tx c0 @ [greeting True, auth_frame pu])))
   | Inl (e, left) \<Rightarrow> \<not> IsConnectTargetError e \<and>
       (IsDialError e \<longleftrightarrow> Scheme pu = ''socks5'' \<and> isl (connect (upstreamHostPort pu) timeout) \<and> ctx_err = None) \<and>
       (left = None \<longleftrightarrow> Scheme pu \<noteq> ''socks5'' \<or> isl (connect (upstreamHostPort pu) timeout)) \<and>
       (left = None \<longrightarrow> \<not> IsAuthError e \<and> \<not> IsHandshakeError e) \<and>
       (\<forall>c. left = Some c \<longrightarrow> \<not> is_open c \<and>
          (\<exists>c0 sent. connect (upstreamHostPort pu) timeout = Inr c0 \<and> tx c = tx c0 @ sent \<and>
             (sent = [] \<or> sent = [greeting (offers pu)] \<or>
              offers pu \<and> fits pu \<and> chosen 2 (rx c0) \<and> sent = [greeting True, auth_frame pu]) \<and>
             (IsAuthError e \<longleftrightarrow> auth_refused pu (rx c0) sent) \<and>
             (IsHandshakeError e \<longleftrightarrow> \<not> auth_refused pu (rx c0) sent \<and> \<not> unencodable pu (rx c0) sent)))"
proof (cases "Scheme pu = ''socks5''")
  case False
  then show ?thesis by (simp add: DialHalf_def IsConnectTargetError_def)
next
  case scheme: True
  show ?thesis
  proof (cases "connect (upstreamHostPort pu) timeout")
    case (Inl m)
    with scheme show ?thesis
      by (simp add: DialHalf_def dialTCP_def IsConnectTargetError_def split: option.split)
  next
    case (Inr c0)
    obtain d c1 where sd: "SetDeadline (Some (now + timeout)) c0 = (d, c1)"
      by (cases "SetDeadline (Some (now + timeout)) c0")
    have c1: "rx c1 = rx c0" "tx c1 = tx c0" "is_open c1 = is_open c0" "d = None \<Longrightarrow> armed c1 = Some (now + timeout)"
      using sd by (auto simp: SetDeadline_def split: option.splits)
    show ?thesis
    proof (cases d)
      case (Some e)
      have "DialHalf ctx_err connect pu timeout now =
          Inl (SocksHandshakeError ''set handshake deadline'' (Cause e), Some (close_conn c1))"
        using scheme Inr sd Some by (simp add: DialHalf_def dialTCP_def)
      then show ?thesis using Inr c1 scheme
        by (simp add: IsConnectTargetError_def close_conn_def auth_refused_def unencodable_def)
    next
      case None
      obtain res b c2 where ng: "negotiate pu ([], c1) = (res, b, c2)" by (cases "negotiate pu ([], c1)")
      have p: "unread ([], c1) = rx c0" "unread (b, c2) = b @ rx c2" using c1 by (simp_all add: unread_def)
      note spec = negotiate_spec [OF ng, unfolded p fst_conv snd_conv c1(1,2,3)]
      show ?thesis
      proof (cases res)
        case (Some e)
        have eq: "DialHalf ctx_err connect pu timeout now =
            Inl (e, Some (close_conn c2))"
          using scheme Inr sd None ng Some by (simp add: DialHalf_def dialTCP_def half_Close_def)
        have "\<not> IsConnectTargetError e" by (rule cause_plain) (use spec Some in auto)
        then show ?thesis using eq spec Some scheme Inr by (auto simp: close_conn_def)
      next
        case res: None
        have eq: "DialHalf ctx_err connect pu timeout now =
            Inr \<lparr>sock = c2, br = Some b, hc_deadline = now + timeout\<rparr>"
          using scheme Inr sd None ng res by (simp add: DialHalf_def dialTCP_def)
        have ar: "armed c2 = Some (now + timeout)" using spec c1(4) None by simp
        have "(rx c0 = chr 5 # chr 0 # b @ rx c2 \<and> tx c2 = tx c0 @ [greeting (offers pu)]) \<or>
           (rx c0 = chr 5 # chr 2 # chr 1 # chr 0 # b @ rx c2 \<and> offers pu \<and> fits pu \<and>
            tx c2 = tx c0 @ [greeting True, auth_frame pu])"
          using spec res by auto
        then show ?thesis using eq spec ar scheme Inr by simp
      qed
    qed
  qed
qed

definition demo_login :: url where
  "demo_login = \<lparr>Scheme = ''socks5'', User = Some \<lparr>username = ''u'', password = Some ''p''\<rparr>,
     url_Host = ''h:1080'', Path = [], RawQuery = [], Fragment = []\<rparr>"

theorem DialHalf_contract_witness:
  "case DialHalf None (\<lambda>addr timeout. Inr (demo_sock [5, 2, 1, 0, 5])) demo_login 9 1 of
     Inr h \<Rightarrow> tx (sock h) = [greeting True, auth_frame demo_login] | Inl e \<Rightarrow> False"
proof -
  have ok: "\<not> isl (DialHalf None (\<lambda>addr timeout. Inr (demo_sock [5, 2, 1, 0, 5])) demo_login 9 1)"
    by code_simp
  then obtain h where h: "DialHalf None (\<lambda>addr timeout. Inr (demo_sock [5, 2, 1, 0, 5])) demo_login 9 1 = Inr h"
    by (cases "DialHalf None (\<lambda>addr timeout. Inr (demo_sock [5, 2, 1, 0, 5])) demo_login 9 1") auto
  have "chr 0 \<noteq> chr 2" "chr 2 \<noteq> chr 0" by (simp_all add: chr_def)
  then show ?thesis
    unfolding h sum.case
    using DialHalf_contract [where ctx_err = None and pu = demo_login and timeout = 9 and now = 1
        and connect = "\<lambda>addr timeout. Inr (demo_sock [5, 2, 1, 0, 5])", unfolded h sum.case]
    by (auto simp: demo_sock_def)
qed

section \<open>The tunnel's stream\<close>

text \<open>A read of the tunnel delivers the next bytes of its stream, whether they come from the
  handshake's leftover or from the socket, and fails only when the stream is used up.\<close>

lemma net_Read_stream:
  assumes "0 < n" and "net_Read n nc = (res, nc')"
  shows "case res of
     Inr xs \<Rightarrow> stream_of nc = xs @ stream_of nc' \<and> xs \<noteq> []
   | Inl e \<Rightarrow> stream_of nc = [] \<and> nc' = nc"
proof (cases nc)
  case (RawConn c)
  with assms show ?thesis
    by (auto simp: conn_read_def Let_def split: if_splits list.splits)
next
  case (PrefixConn p c)
  with assms show ?thesis
    by (auto simp: conn_read_def Let_def split: if_splits list.splits)
qed

end
