(* ===== verification/Serve.thy ===== *)
theory Serve
  imports PoolReload Socks
begin

text \<open>
  The serving path of one request (\<^verbatim>\<open>serveTunnel\<close> of internal/proxyserver/http.go and
  \<^verbatim>\<open>dialWarmFirst\<close> of internal/proxyserver/server.go): the composed candidate filter, the attempt
  chain over the pool, the health report of each outcome and the hold on the winning route.

  A session's environment is a \<open>serve_env\<close>: the clock readings, the half connections the warm
  pool lends, the outcome of every cold dial, the visit order of the eviction scan, and
  \<open>others n k\<close>, what all other sessions, reloads and rotations did to the shared routes at
  the \<open>k\<close>-th gap of attempt \<open>n\<close>. A request talks to the one generation it loaded.
\<close>

section \<open>The candidate filter\<close>

datatype proxyFamily = familyMixed | familyV4 | familyV6

fun family_allows :: "proxyFamily \<Rightarrow> proxy \<Rightarrow> bool" where
  "family_allows familyV4 p \<longleftrightarrow> Kind p = EgressV4"
| "family_allows familyV6 p \<longleftrightarrow> Kind p = EgressV6"
| "family_allows familyMixed p \<longleftrightarrow> True"

definition narrow :: "proxyFamily \<Rightarrow> heap \<Rightarrow> (pref \<Rightarrow> bool) option \<Rightarrow> (pref \<Rightarrow> bool) option" where
  "narrow f h allow =
     (if f = familyMixed then allow
      else (case allow of
          None \<Rightarrow> Some (\<lambda>p. family_allows f (cells h p))
        | Some a \<Rightarrow> Some (\<lambda>p. family_allows f (cells h p) \<and> a p)))"

definition parseProxyFamily :: "string list \<Rightarrow> string + proxyFamily" where
  "parseProxyFamily values =
     (if 1 < length values then Inl ''x-ecoma-proxy-family appears more than once''
      else if values = [] then Inr familyMixed
      else if hd values = ''mixed'' then Inr familyMixed
      else if hd values = ''v4'' then Inr familyV4
      else if hd values = ''v6'' then Inr familyV6
      else Inl ''x-ecoma-proxy-family is not one of mixed, v4, v6'')"

text \<open>The listener view of \<^verbatim>\<open>NewRuntime\<close>.\<close>

definition kind_filter :: "egress_kind list \<Rightarrow> proxy \<Rightarrow> bool" where
  "kind_filter allowed p \<longleftrightarrow> list_ex (\<lambda>k. Kind p = k) allowed \<or> length allowed = 0"

text \<open>\<open>listener = None\<close> is the nil filter.\<close>

definition composed_allow ::
  "pref set option \<Rightarrow> egress_kind list option \<Rightarrow> proxyFamily \<Rightarrow> heap \<Rightarrow> (pref \<Rightarrow> bool) option" where
  "composed_allow candidates listener family h =
     (let listenerAllow = map_option (\<lambda>ks p. kind_filter ks (cells h p)) listener;
          allow = (case candidates of
             None \<Rightarrow> listenerAllow
           | Some restricted \<Rightarrow> Some (\<lambda>p. p \<in> restricted \<and> allowed_by listenerAllow p))
      in narrow family h allow)"

lemma composed_allow_iff:
  "allowed_by (composed_allow candidates listener family h) p \<longleftrightarrow>
     (case candidates of None \<Rightarrow> True | Some R \<Rightarrow> p \<in> R) \<and>
     (case listener of None \<Rightarrow> True | Some ks \<Rightarrow> kind_filter ks (cells h p)) \<and>
     family_allows family (cells h p)"
  by (cases candidates; cases listener; cases family)
    (auto simp: composed_allow_def allowed_by_def narrow_def)

section \<open>The session and its environment\<close>

record server =
  kinds :: "egress_kind list option"
  has_warm :: bool

record sessionSettings =
  maxRetries :: int
  dialTimeout :: duration

definition generationSettings :: "generation \<Rightarrow> sessionSettings" where
  "generationSettings gen =
     \<lparr>maxRetries = MaxRetries (gen_Config gen), dialTimeout = DialTimeout (gen_Config gen)\<rparr>"

record serve_env =
  clock :: "nat \<Rightarrow> instant"
  pick_at :: "nat \<Rightarrow> instant"
  report_at :: "nat \<Rightarrow> instant"
  borrow :: "nat \<Rightarrow> pref \<Rightarrow> half_conn option"
  cold :: "nat \<Rightarrow> pref \<Rightarrow> dial_error + net_conn"
  visit :: "nat \<Rightarrow> (string \<times> target_cooldown) list \<Rightarrow> (string \<times> target_cooldown) list"
  others :: "nat \<Rightarrow> nat \<Rightarrow> heap \<Rightarrow> heap"

text \<open>The tunnel of one attempt; the flag says that the route's parked siblings were discarded.\<close>

definition dialWarmFirst ::
  "server \<Rightarrow> serve_env \<Rightarrow> nat \<Rightarrow> pref \<Rightarrow> target \<Rightarrow> duration \<Rightarrow> (dial_error + net_conn) \<times> bool" where
  "dialWarmFirst s env n p t timeout =
     (case (if has_warm s then borrow env n p else None) of
        None \<Rightarrow> (cold env n p, False)
      | Some hc \<Rightarrow>
          (case fst (CompleteConnect t timeout (report_at env n) hc) of
             Inr conn \<Rightarrow> (Inr conn, False)
           | Inl err \<Rightarrow>
               if IsConnectTargetError err then (Inl err, False)
               else (cold env n p, True)))"

record session =
  hp :: heap
  exclude :: "(pref \<times> dial_error) list"
  attempts :: nat
  failovers :: u64
  discarded :: "pref list"

datatype outcome =
    DeadlineExpired
  | SetupFailed pref dial_error
  | Unavailable bool
  | Established pref net_conn

text \<open>The health report of a failed dial; \<open>None\<close> is the class that is not retried.\<close>

definition report_error ::
  "serve_env \<Rightarrow> nat \<Rightarrow> pool \<Rightarrow> pref \<Rightarrow> string \<Rightarrow> dial_error \<Rightarrow> heap \<Rightarrow> heap option" where
  "report_error env n pl p targetAddr e h =
     (if IsDialError e then Some (fst (ReportFailure pl p (Some (dial_error_text e)) (report_at env n) h))
      else if IsConnectTargetError e then
        Some (fst (ReportTargetFailure (visit env n) pl p targetAddr (report_at env n) h))
      else if IsHandshakeError e then
        Some (fst (ReportFailure pl p (Some (dial_error_text e)) (report_at env n) h))
      else if IsAuthError e then Some (ReportAuthBlocked p (Some (dial_error_text e)) h)
      else None)"

definition release :: "pref \<Rightarrow> heap \<Rightarrow> heap" where
  "release p h = upd p Release h"

text \<open>One turn of the attempt loop: \<open>Inl\<close> leaves the loop, \<open>Inr\<close> goes round again.\<close>

definition attempt ::
  "server \<Rightarrow> serve_env \<Rightarrow> generation \<Rightarrow> pref set option \<Rightarrow> proxyFamily \<Rightarrow> target \<Rightarrow> instant \<Rightarrow>
   nat \<Rightarrow> session \<Rightarrow> (outcome \<times> session) + session" where
  "attempt s env gen candidates family t handshakeDeadline n st =
     (let pl = gen_Pool gen; settings = generationSettings gen; targetAddr = Addr t in
      if 0 < n \<and> handshakeDeadline \<le> clock env n then Inl (DeadlineExpired, st)
      else if maxRetries settings \<le> int n then Inl (Unavailable True, st)
      else (let h = others env n 0 (hp st) in
        case PickFor pl (\<lambda>p. p \<in> fst ` set (exclude st)) (composed_allow candidates (kinds s) family h)
            targetAddr (pick_at env n) h of
          (None, h) \<Rightarrow> Inl (Unavailable False, st\<lparr>hp := h\<rparr>)
        | (Some p, h) \<Rightarrow>
            (let (r, dropped) = dialWarmFirst s env n p t (dialTimeout settings);
                 st = st\<lparr>attempts := n + 1, hp := others env n 1 h,
                         discarded := (if dropped then p # discarded st else discarded st)\<rparr>
             in case r of
                 Inr up \<Rightarrow> Inl (Established p up, st\<lparr>hp := ReportSuccess p targetAddr (hp st)\<rparr>)
               | Inl e \<Rightarrow>
                   (case report_error env n pl p targetAddr e (hp st) of
                      None \<Rightarrow> Inl (SetupFailed p e, st\<lparr>hp := release p (hp st)\<rparr>)
                    | Some h \<Rightarrow>
                        Inr (st\<lparr>exclude := (p, e) # exclude st,
                                hp := release p (others env n 2 h),
                                failovers := (if int n + 1 < maxRetries settings then failovers st + 1
                                              else failovers st)\<rparr>)))))"

lemma attempt_bound:
  "attempt s env gen candidates family t handshakeDeadline n st = Inr st' \<Longrightarrow>
     int n < maxRetries (generationSettings gen)"
  by (auto simp: attempt_def Let_def split: if_splits)

function attempt_chain ::
  "server \<Rightarrow> serve_env \<Rightarrow> generation \<Rightarrow> pref set option \<Rightarrow> proxyFamily \<Rightarrow> target \<Rightarrow> instant \<Rightarrow>
   nat \<Rightarrow> session \<Rightarrow> outcome \<times> session" where
  "attempt_chain s env gen candidates family t handshakeDeadline n st =
     (case attempt s env gen candidates family t handshakeDeadline n st of
        Inl res \<Rightarrow> res
      | Inr st' \<Rightarrow> attempt_chain s env gen candidates family t handshakeDeadline (n + 1) st')"
  by pat_completeness auto
termination
  by (relation "measure (\<lambda>(s, env, gen, cs, f, t, d, n, st). nat (maxRetries (generationSettings gen) - int n))")
    (auto dest: attempt_bound)

declare attempt_chain.simps [simp del]

text \<open>
  The whole of \<^verbatim>\<open>serveTunnel\<close>. \<open>reply_ok\<close> says whether the success reply could be written and
  \<open>serve\<close> what happens to the shared routes while the established tunnel runs. The result is the
  status replied to the client (200 stands for the success reply), whether a tunnel was
  served, and the final session.
\<close>

definition start_session :: "heap \<Rightarrow> u64 \<Rightarrow> session" where
  "start_session h fo = \<lparr>hp = h, exclude = [], attempts = 0, failovers = fo, discarded = []\<rparr>"

definition Scope_for :: "generation \<Rightarrow> target \<Rightarrow> pref set option" where
  "Scope_for gen t = Scope (gen_Pool gen) (Match (gen_Router gen) t)"

definition serveTunnel ::
  "server \<Rightarrow> serve_env \<Rightarrow> generation \<Rightarrow> proxyFamily \<Rightarrow> target \<Rightarrow> instant \<Rightarrow> bool \<Rightarrow> (heap \<Rightarrow> heap) \<Rightarrow>
   heap \<Rightarrow> u64 \<Rightarrow> nat \<times> pref option \<times> session" where
  "serveTunnel s env gen family t handshakeDeadline reply_ok established h fo =
     (case attempt_chain s env gen (Scope_for gen t) family t handshakeDeadline 0 (start_session h fo) of
        (DeadlineExpired, st) \<Rightarrow> (502, None, st)
      | (SetupFailed p e, st) \<Rightarrow> (502, None, st)
      | (Unavailable exhausted, st) \<Rightarrow> (503, None, st)
      | (Established p up, st) \<Rightarrow>
          if \<not> reply_ok then (200, None, st\<lparr>hp := release p (hp st)\<rparr>)
          else (200, Some p, st\<lparr>hp := release p (established (hp st))\<rparr>))"


section \<open>One attempt\<close>

definition retryable :: "dial_error \<Rightarrow> bool" where
  "retryable e \<longleftrightarrow> IsDialError e \<or> IsConnectTargetError e \<or> IsHandshakeError e \<or> IsAuthError e"

text \<open>The report on the route itself.\<close>

definition reported :: "serve_env \<Rightarrow> nat \<Rightarrow> pool \<Rightarrow> string \<Rightarrow> dial_error \<Rightarrow> proxy \<Rightarrow> proxy" where
  "reported env n pl a e x =
     (if IsDialError e \<or> IsHandshakeError e \<and> \<not> IsConnectTargetError e
      then fst (report_failure (base pl) (maxCooldown pl) (report_at env n) (Some (dial_error_text e)) x)
      else if IsConnectTargetError e
      then fst (report_target_failure (visit env n) (base pl) (maxCooldown pl) (report_at env n) a x)
      else report_auth_blocked (Some (dial_error_text e)) x)"

lemma report_error_upd:
  "report_error env n pl p a e h =
     (if retryable e then Some (upd p (reported env n pl a e) h) else None)"
  by (auto simp: report_error_def retryable_def reported_def ReportFailure_def ReportTargetFailure_def
      ReportAuthBlocked_def upd_def Let_def split: prod.splits)

lemma report_frames [simp]:
  "Kind (reported env n pl a e x) = Kind x" "inFlight (reported env n pl a e x) = inFlight x"
  "rotating (reported env n pl a e x) = rotating x"
  "Kind (report_success a x) = Kind x" "inFlight (report_success a x) = inFlight x"
  "Kind (serve x) = Kind x" "Kind (Release x) = Kind x"
  by (simp_all add: reported_def report_failure_def report_target_failure_def report_auth_blocked_def
      report_success_def clearTargetCooldown_def serve_def Release_def Let_def)

lemma inFlight_Release: "inFlight (Release x) = (if inFlight x \<le> 0 then inFlight x else inFlight x - 1)"
  by (simp add: Release_def)

text \<open>The three ways an attempt goes on after a pick, with what each leaves in the session.\<close>

definition picked ::
  "server \<Rightarrow> serve_env \<Rightarrow> generation \<Rightarrow> pref set option \<Rightarrow> proxyFamily \<Rightarrow> target \<Rightarrow> nat \<Rightarrow> session \<Rightarrow> pref \<Rightarrow> heap \<Rightarrow> bool" where
  "picked s env gen cs family t n st p h1 \<longleftrightarrow>
     int n < maxRetries (generationSettings gen) \<and>
     choice (gen_Pool gen) (\<lambda>p. p \<in> fst ` set (exclude st))
       (composed_allow cs (kinds s) family (others env n 0 (hp st))) (Addr t) (pick_at env n)
       (others env n 0 (hp st)) = Some p \<and>
     h1 = others env n 1 (upd p serve (others env n 0 (hp st)))"

lemma attempt_Inr:
  assumes "attempt s env gen cs family t d n st = Inr st'"
  shows "\<exists>p h1 e. picked s env gen cs family t n st p h1 \<and>
     fst (dialWarmFirst s env n p t (dialTimeout (generationSettings gen))) = Inl e \<and> retryable e \<and>
     exclude st' = (p, e) # exclude st \<and> attempts st' = n + 1 \<and>
     hp st' = release p (others env n 2 (upd p (reported env n (gen_Pool gen) (Addr t) e) h1)) \<and>
     failovers st' = (if int n + 1 < maxRetries (generationSettings gen) then failovers st + 1 else failovers st)"
  using assms
  by (auto simp: attempt_def Let_def picked_def PickFor_choice report_error_upd
      split: if_splits option.splits prod.splits sum.splits)

lemma attempt_Inl:
  assumes "attempt s env gen cs family t d n st = Inl (out, st')"
  shows "exclude st' = exclude st \<and> failovers st' = failovers st \<and>
    (case out of
       DeadlineExpired \<Rightarrow> 0 < n \<and> d \<le> clock env n \<and> st' = st
     | Unavailable exhausted \<Rightarrow> attempts st' = attempts st \<and> (0 < n \<longrightarrow> clock env n < d) \<and>
         (if exhausted then maxRetries (generationSettings gen) \<le> int n \<and> hp st' = hp st
          else choice (gen_Pool gen) (\<lambda>p. p \<in> fst ` set (exclude st))
            (composed_allow cs (kinds s) family (others env n 0 (hp st))) (Addr t) (pick_at env n)
            (others env n 0 (hp st)) = None \<and> hp st' = others env n 0 (hp st))
     | SetupFailed p e \<Rightarrow> attempts st' = n + 1 \<and> \<not> retryable e \<and>
         (\<exists>h1. picked s env gen cs family t n st p h1 \<and> hp st' = release p h1) \<and>
         fst (dialWarmFirst s env n p t (dialTimeout (generationSettings gen))) = Inl e
     | Established p up \<Rightarrow> attempts st' = n + 1 \<and>
         (\<exists>h1. picked s env gen cs family t n st p h1 \<and> hp st' = ReportSuccess p (Addr t) h1) \<and>
         fst (dialWarmFirst s env n p t (dialTimeout (generationSettings gen))) = Inr up)"
  using assms
  by (auto simp: attempt_def Let_def picked_def PickFor_choice report_error_upd
      split: if_splits option.splits prod.splits sum.splits)


text \<open>Invariants of the loop: what every retry keeps holds in the state the loop ends in.\<close>

lemma chain_rule:
  assumes "attempt_chain s env gen cs family t d n st = (out, st')"
    and "I n st"
    and step: "\<And>n st st'. I n st \<Longrightarrow> attempt s env gen cs family t d n st = Inr st' \<Longrightarrow> I (n + 1) st'"
  shows "\<exists>m st1. I m st1 \<and> attempt s env gen cs family t d m st1 = Inl (out, st')"
  using assms(1,2)
proof (induction "nat (maxRetries (generationSettings gen) - int n)" arbitrary: n st rule: less_induct)
  case less
  show ?case
  proof (cases "attempt s env gen cs family t d n st")
    case (Inl res)
    then have "res = (out, st')" using less.prems(1) by (subst (asm) attempt_chain.simps) simp
    then show ?thesis using Inl less.prems(2) by auto
  next
    case (Inr st2)
    then have rec: "attempt_chain s env gen cs family t d (n + 1) st2 = (out, st')"
      using less.prems(1) by (subst (asm) attempt_chain.simps) simp
    have "nat (maxRetries (generationSettings gen) - int (n + 1)) <
        nat (maxRetries (generationSettings gen) - int n)" using attempt_bound [OF Inr] by simp
    from less.hyps [OF this rec step [OF less.prems(2) Inr]] show ?thesis .
  qed
qed

section \<open>Which routes are tried\<close>

text \<open>The routes the request may use: of the generation's pool, in the candidate set its policy
  names for the target, and of the kinds the listener and the request admit.\<close>

definition eligible :: "server \<Rightarrow> generation \<Rightarrow> proxyFamily \<Rightarrow> target \<Rightarrow> heap \<Rightarrow> pref \<Rightarrow> bool" where
  "eligible s gen family t h p \<longleftrightarrow>
     p \<in> set (entries (gen_Pool gen)) \<and>
     (case Match (gen_Router gen) t of None \<Rightarrow> True | Some S \<Rightarrow> label (gen_Pool gen) p \<in> S) \<and>
     (case kinds s of None \<Rightarrow> True | Some ks \<Rightarrow> ks = [] \<or> Kind (cells h p) \<in> set ks) \<and>
     family_allows family (cells h p)"

definition kinds_fixed :: "serve_env \<Rightarrow> bool" where
  "kinds_fixed env \<longleftrightarrow> (\<forall>n k h p. Kind (cells (others env n k h) p) = Kind (cells h p))"

definition same_kinds :: "heap \<Rightarrow> heap \<Rightarrow> bool" where
  "same_kinds h h' \<longleftrightarrow> (\<forall>p. Kind (cells h' p) = Kind (cells h p))"

lemma same_kinds_step:
  "kinds_fixed env \<Longrightarrow> same_kinds h h' \<Longrightarrow> same_kinds h (others env n k h')"
  "same_kinds h h' \<Longrightarrow> (\<And>x. Kind (f x) = Kind x) \<Longrightarrow> same_kinds h (upd p f h')"
  by (simp_all add: kinds_fixed_def same_kinds_def)

lemma eligible_kinds: "same_kinds h h' \<Longrightarrow> eligible s gen family t h' p = eligible s gen family t h p"
  by (cases family; cases "kinds s") (simp_all add: eligible_def same_kinds_def)

lemma composed_eligible:
  "p \<in> set (entries (gen_Pool gen)) \<Longrightarrow>
     allowed_by (composed_allow (Scope_for gen t) (kinds s) family h) p \<longleftrightarrow> eligible s gen family t h p"
  by (auto simp: composed_allow_iff eligible_def Scope_for_def Scope_def Allows_def kind_filter_def
      list_ex_iff split: option.splits)

lemma picked_eligible:
  assumes "picked s env gen (Scope_for gen t) family t n st p h1" and "kinds_fixed env"
    and "same_kinds h (hp st)"
  shows "eligible s gen family t h p \<and> p \<notin> fst ` set (exclude st) \<and> same_kinds h h1 \<and>
     int n < maxRetries (generationSettings gen)"
proof -
  let ?h0 = "others env n 0 (hp st)"
  have c: "choice (gen_Pool gen) (\<lambda>p. p \<in> fst ` set (exclude st))
      (composed_allow (Scope_for gen t) (kinds s) family ?h0) (Addr t) (pick_at env n) ?h0 = Some p"
    using assms(1) by (simp add: picked_def)
  have k0: "same_kinds h ?h0" by (rule same_kinds_step(1) [OF assms(2,3)])
  have "eligible s gen family t ?h0 p"
    using choice_mem [OF c] choice_candidate [OF c] composed_eligible [of p gen t s family ?h0]
    by (simp add: candidate_def)
  moreover have "p \<notin> fst ` set (exclude st)" using choice_candidate [OF c] by (simp add: candidate_def)
  moreover have "same_kinds h h1"
    using assms(1) same_kinds_step(1) [OF assms(2) same_kinds_step(2) [OF k0, of serve p]]
    by (simp add: picked_def)
  ultimately show ?thesis using assms(1) eligible_kinds [OF k0] by (simp add: picked_def)
qed

definition counted :: "generation \<Rightarrow> nat \<Rightarrow> nat" where
  "counted gen n = min n (nat (maxRetries (generationSettings gen) - 1))"

lemma counted_step:
  "int n < maxRetries (generationSettings gen) \<Longrightarrow>
     counted gen (n + 1) = counted gen n +
       (if int n + 1 < maxRetries (generationSettings gen) then 1 else 0)"
  by (auto simp: counted_def min_def)

text \<open>The dial of attempt \<open>i\<close>, to this route, failed with this error.\<close>

definition failed_at :: "server \<Rightarrow> serve_env \<Rightarrow> generation \<Rightarrow> target \<Rightarrow> nat \<Rightarrow> pref \<times> dial_error \<Rightarrow> bool" where
  "failed_at s env gen t i x \<longleftrightarrow>
     fst (dialWarmFirst s env i (fst x) t (dialTimeout (generationSettings gen))) = Inl (snd x)"

definition tried_ok :: "server \<Rightarrow> serve_env \<Rightarrow> generation \<Rightarrow> proxyFamily \<Rightarrow> target \<Rightarrow> heap \<Rightarrow> u64 \<Rightarrow> nat \<Rightarrow> session \<Rightarrow> bool" where
  "tried_ok s env gen family t h fo n st \<longleftrightarrow>
     failovers st = fo + of_nat (counted gen n) \<and>
     same_kinds h (hp st) \<and> attempts st = n \<and> length (exclude st) = n \<and>
     (n = 0 \<or> int n \<le> maxRetries (generationSettings gen)) \<and>
     distinct (map fst (exclude st)) \<and>
     (\<forall>x \<in> set (exclude st). eligible s gen family t h (fst x) \<and> retryable (snd x)) \<and>
     (\<forall>i < n. failed_at s env gen t i (rev (exclude st) ! i))"

lemma tried_ok_step:
  assumes "tried_ok s env gen family t h fo n st" and "kinds_fixed env"
    and "attempt s env gen (Scope_for gen t) family t d n st = Inr st'"
  shows "tried_ok s env gen family t h fo (n + 1) st'"
proof -
  from attempt_Inr [OF assms(3)] obtain p h1 e where p: "picked s env gen (Scope_for gen t) family t n st p h1"
    and e: "retryable e" "exclude st' = (p, e) # exclude st" "attempts st' = n + 1"
      "hp st' = release p (others env n 2 (upd p (reported env n (gen_Pool gen) (Addr t) e) h1))"
      "failovers st' = (if int n + 1 < maxRetries (generationSettings gen) then failovers st + 1 else failovers st)"
      "fst (dialWarmFirst s env n p t (dialTimeout (generationSettings gen))) = Inl e"
    by blast
  have pe: "eligible s gen family t h p \<and> p \<notin> fst ` set (exclude st) \<and> same_kinds h h1 \<and>
      int n < maxRetries (generationSettings gen)"
    by (rule picked_eligible [OF p assms(2)]) (use assms(1) in \<open>simp add: tried_ok_def\<close>)
  then have "same_kinds h (hp st')"
    unfolding e(4) release_def by (intro same_kinds_step assms(2)) simp_all
  moreover have "failovers st' = fo + of_nat (counted gen (n + 1))"
    using assms(1) pe e(5) counted_step [of n gen] by (simp add: tried_ok_def)
  moreover have "\<forall>i < n + 1. failed_at s env gen t i (rev (exclude st') ! i)"
    using assms(1) e(2,6) by (auto simp: tried_ok_def failed_at_def nth_append less_Suc_eq)
  ultimately show ?thesis using pe e assms(1) by (simp add: tried_ok_def image_iff)
qed

lemma chain_outcome:
  assumes kinds: "kinds_fixed env"
    and run: "attempt_chain s env gen (Scope_for gen t) family t d 0 (start_session h fo) = (out, st)"
  shows "distinct (map fst (exclude st)) \<and>
    (\<forall>x \<in> set (exclude st). eligible s gen family t h (fst x) \<and> retryable (snd x)) \<and>
    int (attempts st) \<le> max 0 (maxRetries (generationSettings gen)) \<and>
    failovers st = fo + of_nat (min (length (exclude st)) (nat (maxRetries (generationSettings gen) - 1))) \<and>
    (\<forall>i < length (exclude st). failed_at s env gen t i (rev (exclude st) ! i)) \<and>
    (case out of
       DeadlineExpired \<Rightarrow> attempts st = length (exclude st) \<and> exclude st \<noteq> [] \<and>
         d \<le> clock env (attempts st)
     | Unavailable exhausted \<Rightarrow> attempts st = length (exclude st) \<and>
         (if exhausted then maxRetries (generationSettings gen) \<le> int (attempts st)
          else \<forall>q. eligible s gen family t h q \<and> q \<notin> fst ` set (exclude st) \<longrightarrow> \<not> may_serve (hp st) q)
     | SetupFailed p e \<Rightarrow> attempts st = length (exclude st) + 1 \<and> \<not> retryable e \<and>
         failed_at s env gen t (length (exclude st)) (p, e) \<and>
         eligible s gen family t h p \<and> p \<notin> fst ` set (exclude st)
     | Established p up \<Rightarrow> attempts st = length (exclude st) + 1 \<and>
         eligible s gen family t h p \<and> p \<notin> fst ` set (exclude st))"
proof -
  have start: "tried_ok s env gen family t h fo 0 (start_session h fo)"
    by (simp add: tried_ok_def start_session_def same_kinds_def counted_def)
  obtain m st1 where ok: "tried_ok s env gen family t h fo m st1"
    and last: "attempt s env gen (Scope_for gen t) family t d m st1 = Inl (out, st)"
    using chain_rule [where I = "tried_ok s env gen family t h fo", OF run start]
      tried_ok_step [OF _ kinds, where s = s and gen = gen and family = family and t = t and h = h and d = d and fo = fo]
    by blast
  note fin = attempt_Inl [OF last]
  have ex: "exclude st = exclude st1" using fin by simp
  have fo: "failovers st = fo + of_nat (min (length (exclude st)) (nat (maxRetries (generationSettings gen) - 1)))"
    using fin ok by (simp add: tried_ok_def counted_def)
  have sk: "same_kinds h (hp st1)" using ok by (simp add: tried_ok_def)
  have pick: "eligible s gen family t h p \<and> p \<notin> fst ` set (exclude st1) \<and>
      int m < maxRetries (generationSettings gen)"
    if "picked s env gen (Scope_for gen t) family t m st1 p h1" for p h1
    using picked_eligible [OF that kinds sk] by blast
  have none: "\<not> may_serve h0 q"
    if "choice (gen_Pool gen) (\<lambda>p. p \<in> fst ` set (exclude st1))
        (composed_allow (Scope_for gen t) (kinds s) family h0) a now h0 = None"
      "same_kinds h h0" "eligible s gen family t h q" "q \<notin> fst ` set (exclude st1)" for h0 a now q
  proof -
    have q: "q \<in> set (entries (gen_Pool gen))" using that(3) by (simp add: eligible_def)
    have "candidate (\<lambda>p. p \<in> fst ` set (exclude st1))
        (composed_allow (Scope_for gen t) (kinds s) family h0) q"
      using that(3,4) composed_eligible [OF q, of t s family h0] eligible_kinds [OF that(2)]
      by (simp add: candidate_def)
    then show ?thesis using that(1) q unfolding choice_None by (auto simp: may_serve_def)
  qed
  show ?thesis
  proof (cases out)
    case DeadlineExpired
    with fin ok ex show ?thesis unfolding fo by (auto simp: tried_ok_def failed_at_def)
  next
    case (SetupFailed p e)
    with fin obtain h1 where "picked s env gen (Scope_for gen t) family t m st1 p h1" by auto
    with SetupFailed fin ok ex pick [of p h1] show ?thesis unfolding fo by (simp add: tried_ok_def failed_at_def)
  next
    case (Unavailable b)
    have "same_kinds h (others env m 0 (hp st1))" by (rule same_kinds_step(1) [OF kinds sk])
    with Unavailable fin ok ex none show ?thesis unfolding fo by (auto simp: tried_ok_def failed_at_def)
  next
    case (Established p up)
    with fin obtain h1 where "picked s env gen (Scope_for gen t) family t m st1 p h1" by auto
    with Established fin ok ex pick [of p h1] show ?thesis unfolding fo by (simp add: tried_ok_def failed_at_def)
  qed
qed


text \<open>Claim C6: A request tries distinct routes only, at most \<^verbatim>\<open>maxRetries\<close> of them, each in the intersection
  of the routing policy, the listener's kinds and the request's family, and each failure it moves on
  from is of a retryable class. The way it ends tells why: the deadline passed after at least one
  attempt; the budget was used up by failures; no untried eligible route may serve; a local error that
  no other route would cure; or a route not tried before accepted the tunnel. Other sessions may change
  the routes meanwhile, in any way that leaves their kinds alone. The failover counter counts one for
  every failed attempt but a last one that used up the budget: also when no other route could be
  tried any more.\<close>

theorem serve_attempts:
  assumes kinds: "kinds_fixed env"
    and run: "attempt_chain s env gen (Scope_for gen t) family t d 0 (start_session h fo) = (out, st)"
  shows "distinct (map fst (exclude st)) \<and>
    (\<forall>x \<in> set (exclude st). eligible s gen family t h (fst x) \<and> retryable (snd x)) \<and>
    int (attempts st) \<le> max 0 (maxRetries (generationSettings gen)) \<and>
    failovers st = fo + of_nat (min (length (exclude st)) (nat (maxRetries (generationSettings gen) - 1))) \<and>
    (\<forall>i < length (exclude st). failed_at s env gen t i (rev (exclude st) ! i)) \<and>
    (case out of
       DeadlineExpired \<Rightarrow> attempts st = length (exclude st) \<and> exclude st \<noteq> [] \<and>
         d \<le> clock env (attempts st)
     | Unavailable exhausted \<Rightarrow> attempts st = length (exclude st) \<and>
         (if exhausted then maxRetries (generationSettings gen) \<le> int (attempts st)
          else \<forall>q. eligible s gen family t h q \<and> q \<notin> fst ` set (exclude st) \<longrightarrow> \<not> may_serve (hp st) q)
     | SetupFailed p e \<Rightarrow> attempts st = length (exclude st) + 1 \<and> \<not> retryable e \<and>
         failed_at s env gen t (length (exclude st)) (p, e) \<and>
         eligible s gen family t h p \<and> p \<notin> fst ` set (exclude st)
     | Established p up \<Rightarrow> attempts st = length (exclude st) + 1 \<and>
         eligible s gen family t h p \<and> p \<notin> fst ` set (exclude st))"
  by (rule chain_outcome [OF kinds run])

definition demo_gen :: "nat \<Rightarrow> generation" where
  "demo_gen n = \<lparr>gen_Config = demo_config, gen_Pool = demo_pool n, gen_Router = None\<rparr>"

definition demo_server :: server where
  "demo_server = \<lparr>kinds = Some [EgressV4], has_warm = False\<rparr>"

text \<open>Route 0 cannot be reached; the others accept.\<close>

definition demo_env :: serve_env where
  "demo_env = \<lparr>clock = (\<lambda>n. int n), pick_at = (\<lambda>n. int n), report_at = (\<lambda>n. int n),
     borrow = (\<lambda>n p. None),
     cold = (\<lambda>n p. if p = 0 then Inl (ProxyDialError ''refused'') else Inr (RawConn (demo_sock []))),
     visit = (\<lambda>n es. es), others = (\<lambda>n k h. h)\<rparr>"

lemma demo_fixed: "kinds_fixed demo_env"
  by (simp add: kinds_fixed_def demo_env_def)

theorem serve_attempts_witness:
  "\<exists>out st. attempt_chain demo_server demo_env (demo_gen 3) (Scope_for (demo_gen 3) demo_dest) familyV4
     demo_dest 9 0 (start_session (demo_heap 3) 0) = (out, st) \<and> int (attempts st) \<le> 3 \<and>
     distinct (map fst (exclude st))"
proof -
  obtain out st where run: "attempt_chain demo_server demo_env (demo_gen 3)
      (Scope_for (demo_gen 3) demo_dest) familyV4 demo_dest 9 0 (start_session (demo_heap 3) 0) = (out, st)"
    by fastforce
  have "maxRetries (generationSettings (demo_gen 3)) = 3"
    by (simp add: generationSettings_def demo_gen_def demo_config_def)
  then show ?thesis using serve_attempts [OF demo_fixed run] run by auto
qed

section \<open>Holds are balanced\<close>

text \<open>
  \<open>drift dl j p\<close> is what all other sessions together added to the in-flight count of \<open>p\<close> in
  the first \<open>j\<close> gaps; \<open>in_step\<close> says that the environment's gaps do exactly that.
\<close>

definition drift :: "(nat \<Rightarrow> pref \<Rightarrow> int) \<Rightarrow> nat \<Rightarrow> pref \<Rightarrow> int" where
  "drift dl j p = (\<Sum>i<j. dl i p)"

definition in_step :: "serve_env \<Rightarrow> (nat \<Rightarrow> pref \<Rightarrow> int) \<Rightarrow> bool" where
  "in_step env dl \<longleftrightarrow>
     (\<forall>n k h p. k < 3 \<longrightarrow> inFlight (cells (others env n k h) p) = inFlight (cells h p) + dl (3 * n + k) p)"

definition held :: "(nat \<Rightarrow> pref \<Rightarrow> int) \<Rightarrow> heap \<Rightarrow> nat \<Rightarrow> heap \<Rightarrow> bool" where
  "held dl h j h' \<longleftrightarrow> (\<forall>p. inFlight (cells h' p) = inFlight (cells h p) + drift dl j p)"

definition held_with :: "pref \<Rightarrow> (nat \<Rightarrow> pref \<Rightarrow> int) \<Rightarrow> heap \<Rightarrow> nat \<Rightarrow> heap \<Rightarrow> bool" where
  "held_with q dl h j h' \<longleftrightarrow>
     (\<forall>p. inFlight (cells h' p) = inFlight (cells h p) + drift dl j p + (if p = q then 1 else 0))"

lemma drift_Suc: "drift dl (Suc j) p = drift dl j p + dl j p"
  by (simp add: drift_def)

lemma held_gap:
  "in_step env dl \<Longrightarrow> k < 3 \<Longrightarrow> held dl h (3 * n + k) h' \<Longrightarrow> held dl h (3 * n + Suc k) (others env n k h')"
  "in_step env dl \<Longrightarrow> k < 3 \<Longrightarrow> held_with q dl h (3 * n + k) h' \<Longrightarrow>
     held_with q dl h (3 * n + Suc k) (others env n k h')"
  by (simp_all add: in_step_def held_def held_with_def drift_Suc)

lemma held_serve: "held dl h j h' \<Longrightarrow> held_with q dl h j (upd q serve h')"
  by (simp add: held_def held_with_def)

lemma held_release:
  "held_with q dl h j h' \<Longrightarrow> \<forall>p. 0 \<le> inFlight (cells h p) + drift dl j p \<Longrightarrow> held dl h j (release q h')"
proof -
  assume a: "held_with q dl h j h'" and b: "\<forall>p. 0 \<le> inFlight (cells h p) + drift dl j p"
  have "inFlight (cells h' q) = inFlight (cells h q) + drift dl j q + 1"
    using a by (simp add: held_with_def)
  moreover have "0 \<le> inFlight (cells h q) + drift dl j q" using b by simp
  ultimately show ?thesis using a by (simp add: held_def held_with_def release_def inFlight_Release)
qed

lemma held_report:
  "(\<And>x. inFlight (f x) = inFlight x) \<Longrightarrow> held_with q dl h j h' \<Longrightarrow> held_with q dl h j (upd p f h')"
  by (simp add: held_with_def)

lemma picked_held:
  assumes "picked s env gen cs family t n st p h1" and "in_step env dl" and "held dl h (3 * n) (hp st)"
  shows "held_with p dl h (3 * n + 2) h1"
proof -
  have "held dl h (3 * n + Suc 0) (others env n 0 (hp st))"
    by (rule held_gap(1) [OF assms(2)]) (use assms(3) in simp_all)
  then have "held_with p dl h (3 * n + 1) (upd p serve (others env n 0 (hp st)))"
    by (intro held_serve) simp
  from held_gap(2) [OF assms(2) _ this] show ?thesis
    using assms(1) by (simp add: picked_def eval_nat_numeral)
qed

lemma attempt_held:
  assumes "held dl h (3 * n) (hp st)" and "in_step env dl"
    and "\<forall>j p. 0 \<le> inFlight (cells h p) + drift dl j p"
    and "attempt s env gen cs family t d n st = Inr st'"
  shows "held dl h (3 * (n + 1)) (hp st')"
proof -
  from attempt_Inr [OF assms(4)] obtain p h1 e where p: "picked s env gen cs family t n st p h1"
    and st': "hp st' = release p (others env n 2 (upd p (reported env n (gen_Pool gen) (Addr t) e) h1))"
    by blast
  have "held_with p dl h (3 * n + 2) (upd p (reported env n (gen_Pool gen) (Addr t) e) h1)"
    by (intro held_report picked_held [OF p assms(2,1)]) simp
  from held_gap(2) [OF assms(2) _ this]
  have "held_with p dl h (3 * n + Suc 2)
      (others env n 2 (upd p (reported env n (gen_Pool gen) (Addr t) e) h1))" by simp
  moreover have "3 * n + Suc 2 = 3 * (n + 1)" by simp
  ultimately show ?thesis unfolding st' using held_release assms(3) by metis
qed

text \<open>Claim C7: A request returns every hold it takes. Whatever the other sessions add to and remove from the
  in-flight counts meanwhile, after the request each count is the starting one plus what the others
  did, on every path: deadline, setup error, exhausted pool, failed success reply, finished tunnel. A
  rotation that waits for a route to drain is therefore never held up by a finished request. The
  assumption is only that the others never release more than they hold.\<close>

theorem serveTunnel_holds:
  assumes env: "in_step env dl"
    and others: "\<forall>j p. 0 \<le> inFlight (cells h p) + drift dl j p"
    and tunnel: "\<forall>h p. inFlight (cells (established h) p) = inFlight (cells h p) + during p"
    and tunnel_others: "\<forall>j p. 0 \<le> inFlight (cells h p) + drift dl j p + during p"
    and run: "serveTunnel s env gen family t d reply_ok established h fo = (status, served, st)"
  shows "\<exists>j. \<forall>p. inFlight (cells (hp st) p) =
    inFlight (cells h p) + drift dl j p + (if served = None then 0 else during p)"
proof -
  obtain out st2 where chain:
    "attempt_chain s env gen (Scope_for gen t) family t d 0 (start_session h fo) = (out, st2)"
    by fastforce
  have start: "held dl h (3 * 0) (hp (start_session h fo))"
    by (simp add: held_def drift_def start_session_def)
  obtain m st1 where m: "held dl h (3 * m) (hp st1)"
    and last: "attempt s env gen (Scope_for gen t) family t d m st1 = Inl (out, st2)"
    using chain_rule [where I = "\<lambda>n st. held dl h (3 * n) (hp st)", OF chain start]
      attempt_held [OF _ env others, where s = s and gen = gen and family = family and t = t and d = d]
    by blast
  note fin = attempt_Inl [OF last]
  note unf = run [unfolded serveTunnel_def chain]
  have fine: "\<exists>j. \<forall>p. inFlight (cells h' p) = inFlight (cells h p) + drift dl j p"
    if "held dl h j h'" for j h' using that by (auto simp: held_def)
  show ?thesis
  proof (cases out)
    case DeadlineExpired
    with fin unf m fine show ?thesis by auto
  next
    case (SetupFailed p e)
    with fin obtain h1 where h1: "picked s env gen (Scope_for gen t) family t m st1 p h1"
      "hp st2 = release p h1" by auto
    have "held dl h (3 * m + 2) (release p h1)"
      using held_release [OF picked_held [OF h1(1) env m]] others by blast
    with SetupFailed h1 unf fine show ?thesis by auto
  next
    case (Unavailable b)
    have "held dl h (3 * m + Suc 0) (others env m 0 (hp st1))"
      by (rule held_gap(1) [OF env]) (use m in simp_all)
    with Unavailable fin unf m fine show ?thesis by (cases b) auto
  next
    case (Established p up)
    with fin obtain h1 where h1: "picked s env gen (Scope_for gen t) family t m st1 p h1"
      "hp st2 = ReportSuccess p (Addr t) h1" by auto
    have w: "held_with p dl h (3 * m + 2) (hp st2)"
      unfolding h1(2) ReportSuccess_def by (intro held_report picked_held [OF h1(1) env m]) simp
    show ?thesis
    proof (cases reply_ok)
      case False
      have "held dl h (3 * m + 2) (release p (hp st2))" using held_release [OF w] others by blast
      with Established False unf fine show ?thesis by auto
    next
      case True
      then have st: "served = Some p" "hp st = release p (established (hp st2))"
        using Established unf by auto
      have "inFlight (cells (established (hp st2)) q) =
          inFlight (cells h q) + drift dl (3 * m + 2) q + during q + (if q = p then 1 else 0)" for q
        using w tunnel by (simp add: held_with_def)
      moreover have "0 \<le> inFlight (cells h p) + drift dl (3 * m + 2) p + during p"
        using tunnel_others by blast
      ultimately have "inFlight (cells (hp st) q) =
          inFlight (cells h q) + drift dl (3 * m + 2) q + during q" for q
        unfolding st release_def by (auto simp: inFlight_Release)
      then show ?thesis using st(1) by auto
    qed
  qed
qed

theorem serveTunnel_holds_witness:
  "\<exists>status served st. serveTunnel demo_server demo_env (demo_gen 3) familyV4 demo_dest 9 True (\<lambda>h. h)
       (demo_heap 3) 0 = (status, served, st) \<and> (\<forall>p. inFlight (cells (hp st) p) = 0)"
proof -
  obtain status served st where run: "serveTunnel demo_server demo_env (demo_gen 3) familyV4 demo_dest 9
      True (\<lambda>h. h) (demo_heap 3) 0 = (status, served, st)" by (metis prod_cases3)
  have "\<exists>j. \<forall>p. inFlight (cells (hp st) p) = inFlight (cells (demo_heap 3) p) +
      drift (\<lambda>i p. 0) j p + (if served = None then 0 else 0)"
    by (rule serveTunnel_holds [OF _ _ _ _ run])
      (simp_all add: in_step_def drift_def demo_env_def demo_heap_def newProxy_def Let_def)
  then have "\<forall>p. inFlight (cells (hp st) p) = 0"
    by (simp add: drift_def demo_heap_def newProxy_def Let_def)
  with run show ?thesis by blast
qed

section \<open>What a request leaves behind\<close>

definition quiet :: "serve_env \<Rightarrow> bool" where
  "quiet env \<longleftrightarrow> (\<forall>n k h. others env n k h = h)"

definition after_failure :: "serve_env \<Rightarrow> generation \<Rightarrow> target \<Rightarrow> nat \<Rightarrow> dial_error \<Rightarrow> proxy \<Rightarrow> proxy" where
  "after_failure env gen t i e x = Release (reported env i (gen_Pool gen) (Addr t) e (serve x))"

definition effect_ok :: "serve_env \<Rightarrow> generation \<Rightarrow> target \<Rightarrow> heap \<Rightarrow> nat \<Rightarrow> session \<Rightarrow> bool" where
  "effect_ok env gen t h n st \<longleftrightarrow>
     length (exclude st) = n \<and>
     (\<forall>p. p \<notin> fst ` set (exclude st) \<longrightarrow> cells (hp st) p = cells h p) \<and>
     (\<forall>i < n. cells (hp st) (fst (rev (exclude st) ! i)) =
        after_failure env gen t i (snd (rev (exclude st) ! i)) (cells h (fst (rev (exclude st) ! i))))"

lemma picked_quiet:
  assumes "picked s env gen cs family t n st p h1" and "quiet env"
  shows "h1 = upd p serve (hp st) \<and> p \<notin> fst ` set (exclude st)"
proof -
  have "h1 = upd p serve (hp st)" using assms by (simp add: picked_def quiet_def)
  moreover have "p \<notin> fst ` set (exclude st)"
    using assms(1) choice_candidate unfolding picked_def candidate_def by fastforce
  ultimately show ?thesis by simp
qed

lemma effect_ok_step:
  assumes "effect_ok env gen t h n st" and "quiet env"
    and "attempt s env gen cs family t d n st = Inr st'"
  shows "effect_ok env gen t h (n + 1) st'"
proof -
  from attempt_Inr [OF assms(3)] obtain p h1 e where p: "picked s env gen cs family t n st p h1"
    and ex: "exclude st' = (p, e) # exclude st"
    and hp: "hp st' = release p (others env n 2 (upd p (reported env n (gen_Pool gen) (Addr t) e) h1))"
    by blast
  note q = picked_quiet [OF p assms(2)]
  have cell: "cells (hp st') r = (if r = p then after_failure env gen t n e (cells (hp st) p)
      else cells (hp st) r)" for r
    using q assms(2) by (simp add: hp release_def quiet_def after_failure_def)
  have old: "fst (rev (exclude st) ! i) \<noteq> p" if "i < n" for i
  proof -
    have "rev (exclude st) ! i \<in> set (exclude st)"
      using that assms(1) nth_mem [of i "rev (exclude st)"] by (simp add: effect_ok_def)
    then show ?thesis using q by (metis image_eqI)
  qed
  have fresh: "cells (hp st) p = cells h p" using assms(1) q by (simp add: effect_ok_def)
  show ?thesis
    unfolding effect_ok_def
  proof (intro conjI allI impI)
    show "length (exclude st') = n + 1" using ex assms(1) by (simp add: effect_ok_def)
    fix r assume "r \<notin> fst ` set (exclude st')"
    then show "cells (hp st') r = cells h r" using cell assms(1) ex by (simp add: effect_ok_def)
  next
    fix i assume i: "i < n + 1"
    have len: "length (exclude st) = n" using assms(1) by (simp add: effect_ok_def)
    show "cells (hp st') (fst (rev (exclude st') ! i)) =
        after_failure env gen t i (snd (rev (exclude st') ! i)) (cells h (fst (rev (exclude st') ! i)))"
    proof (cases "i = n")
      case True
      then show ?thesis using cell fresh ex len by (simp add: nth_append)
    next
      case False
      with i have lt: "i < n" by simp
      have "rev (exclude st') ! i = rev (exclude st) ! i" using ex len lt by (simp add: nth_append)
      then show ?thesis using cell old [OF lt] assms(1) lt by (simp add: effect_ok_def)
    qed
  qed
qed

text \<open>What one failed attempt does to the shared routes, and what a chain of them does (newest first).\<close>

definition failed_attempt :: "serve_env \<Rightarrow> generation \<Rightarrow> target \<Rightarrow> nat \<Rightarrow> pref \<times> dial_error \<Rightarrow> heap \<Rightarrow> heap" where
  "failed_attempt env gen t n x h = release (fst x) (others env n 2
     (upd (fst x) (reported env n (gen_Pool gen) (Addr t) (snd x)) (others env n 1 (upd (fst x) serve (others env n 0 h)))))"

fun failed_attempts :: "serve_env \<Rightarrow> generation \<Rightarrow> target \<Rightarrow> (pref \<times> dial_error) list \<Rightarrow> heap \<Rightarrow> heap" where
  "failed_attempts env gen t [] h = h"
| "failed_attempts env gen t (x # xs) h = failed_attempt env gen t (length xs) x (failed_attempts env gen t xs h)"

definition chain_heap :: "serve_env \<Rightarrow> generation \<Rightarrow> target \<Rightarrow> heap \<Rightarrow> nat \<Rightarrow> session \<Rightarrow> bool" where
  "chain_heap env gen t h n st \<longleftrightarrow> length (exclude st) = n \<and> hp st = failed_attempts env gen t (exclude st) h"

lemma chain_heap_step:
  assumes "chain_heap env gen t h n st" and "attempt s env gen cs family t d n st = Inr st'"
  shows "chain_heap env gen t h (n + 1) st'"
  using attempt_Inr [OF assms(2)] assms(1)
  by (auto simp: chain_heap_def failed_attempt_def picked_def)

text \<open>The last attempt, and the tunnel behind it.\<close>

definition last_attempt :: "serve_env \<Rightarrow> target \<Rightarrow> bool \<Rightarrow> (heap \<Rightarrow> heap) \<Rightarrow> nat \<Rightarrow> outcome \<Rightarrow> heap \<Rightarrow> heap" where
  "last_attempt env t reply_ok established n out h =
     (let seen = others env n 0 h; picked = (\<lambda>p. others env n 1 (upd p serve seen)) in
      case out of
        DeadlineExpired \<Rightarrow> h
      | Unavailable exhausted \<Rightarrow> if exhausted then h else seen
      | SetupFailed p e \<Rightarrow> release p (picked p)
      | Established p up \<Rightarrow>
          release p ((if reply_ok then established else (\<lambda>h. h)) (upd p (report_success (Addr t)) (picked p))))"

lemma serveTunnel_heap:
  assumes chain: "attempt_chain s env gen (Scope_for gen t) family t d 0 (start_session h fo) = (out, st)"
    and run: "serveTunnel s env gen family t d reply_ok established h fo = (status, served, st')"
  shows "hp st' = last_attempt env t reply_ok established (length (exclude st)) out
    (failed_attempts env gen t (exclude st) h)"
proof -
  have start: "chain_heap env gen t h 0 (start_session h fo)" by (simp add: chain_heap_def start_session_def)
  obtain m st1 where ok: "chain_heap env gen t h m st1"
    and last: "attempt s env gen (Scope_for gen t) family t d m st1 = Inl (out, st)"
    using chain_rule [where I = "chain_heap env gen t h", OF chain start]
      chain_heap_step [of env gen t h _ _ s "Scope_for gen t" family d] by blast
  show ?thesis
    using attempt_Inl [OF last] ok run [unfolded serveTunnel_def chain]
    by (cases out) (auto simp: chain_heap_def last_attempt_def Let_def picked_def ReportSuccess_def split: if_splits)
qed

lemma serveTunnel_quiet:
  assumes quiet: "quiet env"
    and chain: "attempt_chain s env gen (Scope_for gen t) family t d 0 (start_session h fo) = (out, st)"
    and run: "serveTunnel s env gen family t d reply_ok (\<lambda>h. h) h fo = (status, served, st')"
  shows "(\<forall>i < length (exclude st). cells (hp st') (fst (rev (exclude st) ! i)) =
      after_failure env gen t i (snd (rev (exclude st) ! i)) (cells h (fst (rev (exclude st) ! i)))) \<and>
    (case out of
       SetupFailed p e \<Rightarrow> status = 502 \<and> cells (hp st') p = Release (serve (cells h p)) \<and>
         (\<forall>q. q \<notin> insert p (fst ` set (exclude st)) \<longrightarrow> cells (hp st') q = cells h q)
     | Established p up \<Rightarrow> status = 200 \<and> served = (if reply_ok then Some p else None) \<and>
         cells (hp st') p = Release (report_success (Addr t) (serve (cells h p))) \<and>
         (\<forall>q. q \<notin> insert p (fst ` set (exclude st)) \<longrightarrow> cells (hp st') q = cells h q)
     | DeadlineExpired \<Rightarrow> status = 502 \<and> (\<forall>q. q \<notin> fst ` set (exclude st) \<longrightarrow> cells (hp st') q = cells h q)
     | Unavailable exhausted \<Rightarrow> status = 503 \<and>
         (\<forall>q. q \<notin> fst ` set (exclude st) \<longrightarrow> cells (hp st') q = cells h q))"
proof -
  have start: "effect_ok env gen t h 0 (start_session h fo)"
    by (simp add: effect_ok_def start_session_def)
  obtain m st1 where ok: "effect_ok env gen t h m st1"
    and last: "attempt s env gen (Scope_for gen t) family t d m st1 = Inl (out, st)"
    using chain_rule [where I = "effect_ok env gen t h", OF chain start]
      effect_ok_step [OF _ quiet, where s = s and gen = gen and family = family and t = t and h = h and d = d]
    by blast
  note fin = attempt_Inl [OF last]
  have len: "length (exclude st1) = m" and ex: "exclude st = exclude st1"
    and same: "\<And>q. q \<notin> fst ` set (exclude st1) \<Longrightarrow> cells (hp st1) q = cells h q"
    and hit: "\<And>i. i < m \<Longrightarrow> cells (hp st1) (fst (rev (exclude st1) ! i)) =
        after_failure env gen t i (snd (rev (exclude st1) ! i)) (cells h (fst (rev (exclude st1) ! i)))"
    using ok fin by (simp_all add: effect_ok_def)
  note unf = run [unfolded serveTunnel_def chain]
  have other: "fst (rev (exclude st1) ! i) \<noteq> p" if "i < m" "p \<notin> fst ` set (exclude st1)" for i p
  proof -
    have "rev (exclude st1) ! i \<in> set (exclude st1)"
      using that(1) len nth_mem [of i "rev (exclude st1)"] by simp
    then show ?thesis using that(2) by (metis image_eqI)
  qed
  have closing: ?thesis
    if out: "out = SetupFailed p e \<and> f = (\<lambda>x. x) \<or> out = Established p up \<and> f = report_success (Addr t)"
      and cell: "\<And>q. cells (hp st') q = (if q = p then Release (f (serve (cells (hp st1) p))) else cells (hp st1) q)"
      and fresh: "p \<notin> fst ` set (exclude st1)"
      and reply: "status = (case out of Established p up \<Rightarrow> 200 | _ \<Rightarrow> 502)"
        "out = Established p up \<longrightarrow> served = (if reply_ok then Some p else None)" for p e up f
    using out cell fresh reply hit other same ex len by auto
  show ?thesis
  proof (cases out)
    case DeadlineExpired
    then have "st = st1" "status = 502" "st' = st" using fin unf by auto
    then show ?thesis using DeadlineExpired same hit len by simp
  next
    case (Unavailable b)
    then have "hp st' = hp st1" "status = 503" using fin unf quiet by (auto simp: quiet_def split: if_splits)
    then show ?thesis using Unavailable same hit len ex by simp
  next
    case (SetupFailed p e)
    with fin obtain h1 where h1: "picked s env gen (Scope_for gen t) family t m st1 p h1"
      "hp st = release p h1" by auto
    note q = picked_quiet [OF h1(1) quiet]
    have "status = 502" "st' = st" using SetupFailed unf by auto
    then show ?thesis
      by (intro closing [where p = p and e = e and f = "\<lambda>x. x"])
        (use SetupFailed q h1 in \<open>auto simp: release_def\<close>)
  next
    case (Established p up)
    with fin obtain h1 where h1: "picked s env gen (Scope_for gen t) family t m st1 p h1"
      "hp st = ReportSuccess p (Addr t) h1" by auto
    note q = picked_quiet [OF h1(1) quiet]
    have "status = 200" "hp st' = release p (hp st)" "served = (if reply_ok then Some p else None)"
      using Established unf by (auto split: if_splits)
    then show ?thesis
      by (intro closing [where p = p and up = up and f = "report_success (Addr t)"])
        (use Established q h1 in \<open>auto simp: release_def ReportSuccess_def\<close>)
  qed
qed

text \<open>Claim C8: The exact effect of a request on the shared routes, and the status of each way it ends.
  Whatever the other sessions do at its gaps, the routes end up as their actions together with exactly
  these of the request leave them: for every failed attempt one pick, the one report of its error class
  and one release, and for the last attempt one pick and one release with the success report between
  them, or none of that when no route was picked. When nothing else acts meanwhile, this says cell by
  cell: a route that failed its attempt carries the one report of its error class, the winning route the
  success report, a route whose attempt ended in a local error no report, every other route is as it
  was, and no route keeps a hold. The status is 502 for a local error and a passed deadline, and 503
  when no route was left or the budget was spent, also when the reason is that the upstreams refused,
  which the table of statuses lists as 502.\<close>

theorem serveTunnel_effect:
  assumes chain: "attempt_chain s env gen (Scope_for gen t) family t d 0 (start_session h fo) = (out, st)"
    and run: "serveTunnel s env gen family t d reply_ok established h fo = (status, served, st')"
  shows "hp st' = last_attempt env t reply_ok established (length (exclude st)) out
      (failed_attempts env gen t (exclude st) h) \<and>
    status = (case out of Established p up \<Rightarrow> 200 | Unavailable exhausted \<Rightarrow> 503 | SetupFailed p e \<Rightarrow> 502
      | DeadlineExpired \<Rightarrow> 502) \<and>
    served = (case out of Established p up \<Rightarrow> if reply_ok then Some p else None | _ \<Rightarrow> None) \<and>
    (quiet env \<longrightarrow> (\<forall>h. established h = h) \<longrightarrow>
      (\<forall>i < length (exclude st). cells (hp st') (fst (rev (exclude st) ! i)) =
        after_failure env gen t i (snd (rev (exclude st) ! i)) (cells h (fst (rev (exclude st) ! i)))) \<and>
      (case out of
         SetupFailed p e \<Rightarrow> cells (hp st') p = Release (serve (cells h p))
       | Established p up \<Rightarrow> cells (hp st') p = Release (report_success (Addr t) (serve (cells h p)))
       | _ \<Rightarrow> True) \<and>
      (\<forall>q. q \<notin> (case out of SetupFailed p e \<Rightarrow> {p} | Established p up \<Rightarrow> {p} | _ \<Rightarrow> {}) \<union> fst ` set (exclude st) \<longrightarrow>
         cells (hp st') q = cells h q))"
proof (intro conjI impI)
  show "hp st' = last_attempt env t reply_ok established (length (exclude st)) out
      (failed_attempts env gen t (exclude st) h)" by (rule serveTunnel_heap [OF chain run])
  show "status = (case out of Established p up \<Rightarrow> 200 | Unavailable exhausted \<Rightarrow> 503 | SetupFailed p e \<Rightarrow> 502
      | DeadlineExpired \<Rightarrow> 502)"
    and "served = (case out of Established p up \<Rightarrow> if reply_ok then Some p else None | _ \<Rightarrow> None)"
    using run [unfolded serveTunnel_def chain] by (auto split: outcome.splits if_splits)
  assume q: "quiet env" and e: "\<forall>h. established h = h"
  then have "established = (\<lambda>h. h)" by auto
  note cell = serveTunnel_quiet [OF q chain run [unfolded this]]
  show "\<forall>i < length (exclude st). cells (hp st') (fst (rev (exclude st) ! i)) =
        after_failure env gen t i (snd (rev (exclude st) ! i)) (cells h (fst (rev (exclude st) ! i)))"
    using cell by (rule conjunct1)
  show "case out of
         SetupFailed p e \<Rightarrow> cells (hp st') p = Release (serve (cells h p))
       | Established p up \<Rightarrow> cells (hp st') p = Release (report_success (Addr t) (serve (cells h p)))
       | _ \<Rightarrow> True"
    and "\<forall>q. q \<notin> (case out of SetupFailed p e \<Rightarrow> {p} | Established p up \<Rightarrow> {p} | _ \<Rightarrow> {}) \<union> fst ` set (exclude st) \<longrightarrow>
         cells (hp st') q = cells h q"
    using cell [THEN conjunct2] by (cases out; auto)+
qed

theorem serveTunnel_effect_witness:
  "\<exists>out st status served st'.
     attempt_chain demo_server demo_env (demo_gen 3) (Scope_for (demo_gen 3) demo_dest) familyV4 demo_dest 9 0
       (start_session (demo_heap 3) 0) = (out, st) \<and>
     serveTunnel demo_server demo_env (demo_gen 3) familyV4 demo_dest 9 True (\<lambda>h. h) (demo_heap 3) 0 =
       (status, served, st') \<and>
     hp st' = last_attempt demo_env demo_dest True (\<lambda>h. h) (length (exclude st)) out
       (failed_attempts demo_env (demo_gen 3) demo_dest (exclude st) (demo_heap 3)) \<and>
     (\<exists>xs. xs = exclude st \<and> map (\<lambda>x. cells (hp st') (fst x)) (rev xs) =
        map (\<lambda>i. after_failure demo_env (demo_gen 3) demo_dest i (snd (rev xs ! i)) (cells (demo_heap 3) (fst (rev xs ! i))))
          [0..<length xs])"
proof -
  obtain out st where a: "attempt_chain demo_server demo_env (demo_gen 3)
      (Scope_for (demo_gen 3) demo_dest) familyV4 demo_dest 9 0 (start_session (demo_heap 3) 0) = (out, st)"
    by fastforce
  obtain status served st' where b: "serveTunnel demo_server demo_env (demo_gen 3) familyV4 demo_dest 9
      True (\<lambda>h. h) (demo_heap 3) 0 = (status, served, st')" by (metis prod_cases3)
  have "quiet demo_env" by (simp add: quiet_def demo_env_def)
  then have c: "\<forall>i < length (exclude st). cells (hp st') (fst (rev (exclude st) ! i)) =
      after_failure demo_env (demo_gen 3) demo_dest i (snd (rev (exclude st) ! i))
        (cells (demo_heap 3) (fst (rev (exclude st) ! i)))"
    and d: "hp st' = last_attempt demo_env demo_dest True (\<lambda>h. h) (length (exclude st)) out
       (failed_attempts demo_env (demo_gen 3) demo_dest (exclude st) (demo_heap 3))"
    using serveTunnel_effect [OF a b] by auto
  have "map (\<lambda>x. cells (hp st') (fst x)) (rev (exclude st)) =
      map (\<lambda>i. after_failure demo_env (demo_gen 3) demo_dest i (snd (rev (exclude st) ! i))
        (cells (demo_heap 3) (fst (rev (exclude st) ! i)))) [0..<length (exclude st)]"
    using c by (intro nth_equalityI) simp_all
  with a b d show ?thesis by blast
qed

section \<open>Reaching a working route\<close>

text \<open>A working route stays pickable while it has not been tried.\<close>

lemma attempt_serving:
  assumes "may_serve (hp st) g"
    and keep: "\<forall>n k h. may_serve h g \<longrightarrow> may_serve (others env n k h) g"
    and up: "\<forall>n. \<not> isl (fst (dialWarmFirst s env n g t (dialTimeout (generationSettings gen))))"
    and "attempt s env gen cs family t d n st = Inr st'"
  shows "may_serve (hp st') g"
proof -
  from attempt_Inr [OF assms(4)] obtain p h1 e where p: "picked s env gen cs family t n st p h1"
    and e: "fst (dialWarmFirst s env n p t (dialTimeout (generationSettings gen))) = Inl e"
    and hp: "hp st' = release p (others env n 2 (upd p (reported env n (gen_Pool gen) (Addr t) e) h1))"
    by blast
  have "p \<noteq> g" using up e by (metis isl_def)
  have a: "may_serve (upd q f h) g" if "may_serve h g" "q \<noteq> g" for q f h
    using that by (simp add: may_serve_def)
  have b: "may_serve (upd q serve h) g" if "may_serve h g" for q h
    using that by (auto simp: may_serve_def)
  have "may_serve (others env n 0 (hp st)) g" using assms(1) keep by blast
  then have "may_serve h1 g" using b keep p by (auto simp: picked_def)
  then have "may_serve (others env n 2 (upd p (reported env n (gen_Pool gen) (Addr t) e) h1)) g"
    using a [OF _ \<open>p \<noteq> g\<close>] keep by blast
  then show ?thesis unfolding hp release_def by (rule a) (rule \<open>p \<noteq> g\<close>)
qed

lemma working_untried:
  assumes kinds: "kinds_fixed env"
    and run: "attempt_chain s env gen (Scope_for gen t) family t d 0 (start_session h fo) = (out, st)"
    and good: "eligible s gen family t h g"
    and up: "\<forall>n. \<not> isl (fst (dialWarmFirst s env n g t (dialTimeout (generationSettings gen))))"
  shows "g \<notin> fst ` set (exclude st)"
    and "length (exclude st) < card {p. eligible s gen family t h p}"
proof -
  note oc = chain_outcome [OF kinds run]
  show tried: "g \<notin> fst ` set (exclude st)"
  proof
    assume "g \<in> fst ` set (exclude st)"
    then obtain e where "(g, e) \<in> set (rev (exclude st))" by auto
    then obtain i where i: "i < length (exclude st)" "rev (exclude st) ! i = (g, e)"
      by (metis in_set_conv_nth length_rev)
    with oc have "failed_at s env gen t i (g, e)" by metis
    then show False using up by (metis failed_at_def fst_conv isl_def)
  qed
  have fin: "finite {p. eligible s gen family t h p}"
    by (rule finite_subset [of _ "set (entries (gen_Pool gen))"]) (auto simp: eligible_def)
  have "insert g (fst ` set (exclude st)) \<subseteq> {p. eligible s gen family t h p}"
    using oc good by auto
  then have "card (insert g (fst ` set (exclude st))) \<le> card {p. eligible s gen family t h p}"
    by (rule card_mono [OF fin])
  moreover have "card (fst ` set (exclude st)) = length (exclude st)"
    using oc distinct_card [of "map fst (exclude st)"] by simp
  ultimately show "length (exclude st) < card {p. eligible s gen family t h p}" using tried by simp
qed

text \<open>Claim C9: Failover reaches a working route. If some eligible route may serve for as long as the request
  runs and accepts the tunnel whenever it is dialed, if other routes fail only in the ways that are
  retried, if the deadline does not pass, and if the retry budget covers the eligible routes, then the
  request ends with an established tunnel, whatever the health, the order and the failures of the
  other routes.\<close>

theorem serve_reaches:
  assumes kinds: "kinds_fixed env"
    and good: "eligible s gen family t h g" "may_serve h g"
    and keep: "\<forall>n k h. may_serve h g \<longrightarrow> may_serve (others env n k h) g"
    and up: "\<forall>n. \<not> isl (fst (dialWarmFirst s env n g t (dialTimeout (generationSettings gen))))"
    and soft: "\<forall>n p e. failed_at s env gen t n (p, e) \<longrightarrow> retryable e"
    and clock: "\<forall>n. clock env n < d"
    and budget: "int (card {p. eligible s gen family t h p}) \<le> maxRetries (generationSettings gen)"
  shows "\<exists>p up st. attempt_chain s env gen (Scope_for gen t) family t d 0 (start_session h fo) =
    (Established p up, st)"
proof -
  obtain out st where run:
    "attempt_chain s env gen (Scope_for gen t) family t d 0 (start_session h fo) = (out, st)" by fastforce
  note oc = chain_outcome [OF kinds run]
  note tried = working_untried [OF kinds run good(1) up]
  then have few: "int (length (exclude st)) < maxRetries (generationSettings gen)" using budget by linarith
  obtain m st1 where alive: "may_serve (hp st1) g"
    and last: "attempt s env gen (Scope_for gen t) family t d m st1 = Inl (out, st)"
    using chain_rule [where I = "\<lambda>n st. may_serve (hp st) g", OF run]
      attempt_serving [OF _ keep up, where cs = "Scope_for gen t" and family = family and d = d] good(2)
    by (auto simp: start_session_def)
  show ?thesis
  proof (cases out)
    case DeadlineExpired
    with oc have "\<exists>n. d \<le> clock env n" by auto
    with clock show ?thesis by (meson not_less)
  next
    case (SetupFailed p e)
    with oc soft show ?thesis by auto
  next
    case (Unavailable b)
    show ?thesis
    proof (cases b)
      case True
      with Unavailable oc few show ?thesis by simp
    next
      case False
      with Unavailable attempt_Inl [OF last] alive keep have "may_serve (hp st) g" by simp
      with Unavailable False oc good(1) tried(1) show ?thesis by auto
    qed
  next
    case (Established p up)
    with run show ?thesis by blast
  qed
qed

lemma demo_eligible:
  "{p. eligible demo_server (demo_gen 3) familyV4 demo_dest (demo_heap 3) p} = {0, 1, 2}"
  by (auto simp: eligible_def demo_server_def demo_gen_def demo_pool_def demo_heap_def newProxy_def
      demo_spec_route_def Match_def Let_def)

theorem serve_reaches_witness:
  "\<exists>p up st. attempt_chain demo_server (demo_env\<lparr>clock := (\<lambda>n. 0)\<rparr>) (demo_gen 3)
     (Scope_for (demo_gen 3) demo_dest) familyV4 demo_dest 9 0 (start_session (demo_heap 3) 0) = (Established p up, st)"
proof (rule serve_reaches [where g = 2 and h = "demo_heap 3"])
  let ?env = "demo_env\<lparr>clock := (\<lambda>n. 0)\<rparr>"
  show "kinds_fixed ?env" by (simp add: kinds_fixed_def demo_env_def)
  show "eligible demo_server (demo_gen 3) familyV4 demo_dest (demo_heap 3) 2" using demo_eligible by blast
  show "may_serve (demo_heap 3) 2" by (simp add: may_serve_def demo_heap_def newProxy_def Let_def)
  show "int (card {p. eligible demo_server (demo_gen 3) familyV4 demo_dest (demo_heap 3) p})
      \<le> maxRetries (generationSettings (demo_gen 3))"
    unfolding demo_eligible by (simp add: generationSettings_def demo_gen_def demo_config_def)
  show "\<forall>n p e. failed_at demo_server ?env (demo_gen 3) demo_dest n (p, e) \<longrightarrow> retryable e"
    by (auto simp: failed_at_def dialWarmFirst_def demo_server_def demo_env_def retryable_def split: if_splits)
qed (simp_all add: dialWarmFirst_def demo_server_def demo_env_def)

section \<open>Warm connections change nothing but time\<close>

definition cold_server :: "server \<Rightarrow> server" where
  "cold_server s = s\<lparr>has_warm := False\<rparr>"

definition forget :: "session \<Rightarrow> session" where
  "forget st = st\<lparr>discarded := []\<rparr>"

text \<open>Every half connection the warm pool lends turns out to be dead: it fails without an answer of
  the endpoint to the request.\<close>

definition all_dead :: "serve_env \<Rightarrow> target \<Rightarrow> duration \<Rightarrow> bool" where
  "all_dead env t timeout \<longleftrightarrow>
     (\<forall>n p hc. borrow env n p = Some hc \<longrightarrow>
        (case fst (CompleteConnect t timeout (report_at env n) hc) of
           Inr c \<Rightarrow> False | Inl e \<Rightarrow> \<not> IsConnectTargetError e))"

lemma dead_dial:
  "all_dead env t timeout \<Longrightarrow>
     dialWarmFirst (cold_server s) env n p t timeout = (cold env n p, False) \<and>
     fst (dialWarmFirst s env n p t timeout) = cold env n p"
  by (auto simp: dialWarmFirst_def cold_server_def all_dead_def split: option.splits sum.splits)

lemma attempt_dead:
  assumes "all_dead env t (dialTimeout (generationSettings gen))"
  shows "attempt (cold_server s) env gen cs family t d n (forget st) =
    (case attempt s env gen cs family t d n st of
       Inl (out, st') \<Rightarrow> Inl (out, forget st') | Inr st' \<Rightarrow> Inr (forget st'))"
proof -
  note dead = dead_dial [OF assms]
  define dropped where "dropped p = snd (dialWarmFirst s env n p t (dialTimeout (generationSettings gen)))" for p
  have dw: "dialWarmFirst s env n p t (dialTimeout (generationSettings gen)) = (cold env n p, dropped p)" for p
    using dead unfolding dropped_def by (simp add: prod_eq_iff)
  have k: "kinds (cold_server s) = kinds s" by (simp add: cold_server_def)
  have f: "hp (forget st) = hp st" "exclude (forget st) = exclude st" by (simp_all add: forget_def)
  let ?h0 = "others env n 0 (hp st)"
  obtain r h1 where pick: "PickFor (gen_Pool gen) (\<lambda>p. p \<in> fst ` set (exclude st))
      (composed_allow cs (kinds s) family ?h0) (Addr t) (pick_at env n) ?h0 = (r, h1)" by fastforce
  show ?thesis
  proof (cases "0 < n \<and> d \<le> clock env n \<or> maxRetries (generationSettings gen) \<le> int n")
    case True
    then show ?thesis by (auto simp: attempt_def Let_def)
  next
    case go: False
    show ?thesis
    proof (cases r)
      case None
      with go show ?thesis by (auto simp: attempt_def Let_def k f pick) (simp_all add: forget_def)
    next
      case (Some p)
      show ?thesis
      proof (cases "cold env n p")
        case (Inr up)
        with go Some show ?thesis
          by (auto simp: attempt_def Let_def k f pick dw conjunct1 [OF dead]) (simp_all add: forget_def)
      next
        case (Inl e)
        show ?thesis
        proof (cases "report_error env n (gen_Pool gen) p (Addr t) e (others env n 1 h1)")
          case N: None
          with go Some Inl show ?thesis
            by (auto simp: attempt_def Let_def k f pick dw conjunct1 [OF dead]) (simp_all add: forget_def)
        next
          case S: (Some h2)
          with go Some Inl show ?thesis
            by (auto simp: attempt_def Let_def k f pick dw conjunct1 [OF dead]) (simp_all add: forget_def)
        qed
      qed
    qed
  qed
qed

text \<open>Claim C39: A pool full of dead warm connections is invisible: the request has the same outcome, the same
  attempts, the same failovers and leaves the same health behind as on a gateway without a warm pool. No
  route is blamed for a parked connection that died.\<close>

theorem dead_warm_transparent:
  assumes "all_dead env t (dialTimeout (generationSettings gen))"
    and "attempt_chain s env gen cs family t d n st = (out, st')"
  shows "attempt_chain (cold_server s) env gen cs family t d n (forget st) = (out, forget st')"
  using assms(2)
proof (induction "nat (maxRetries (generationSettings gen) - int n)" arbitrary: n st rule: less_induct)
  case less
  show ?case
  proof (cases "attempt s env gen cs family t d n st")
    case (Inl res)
    then have "res = (out, st')" using less.prems by (subst (asm) attempt_chain.simps) simp
    with Inl show ?thesis
      by (subst attempt_chain.simps) (simp add: attempt_dead [OF assms(1)])
  next
    case (Inr st2)
    then have rec: "attempt_chain s env gen cs family t d (n + 1) st2 = (out, st')"
      using less.prems by (subst (asm) attempt_chain.simps) simp
    have "nat (maxRetries (generationSettings gen) - int (n + 1)) <
        nat (maxRetries (generationSettings gen) - int n)" using attempt_bound [OF Inr] by simp
    from less.hyps [OF this rec] Inr show ?thesis
      by (subst attempt_chain.simps) (simp add: attempt_dead [OF assms(1)])
  qed
qed

text \<open>A lent connection whose endpoint closed while it was parked.\<close>

definition dead_half :: half_conn where
  "dead_half = \<lparr>sock = demo_sock [], br = Some [], hc_deadline = 0\<rparr>"

theorem dead_warm_transparent_witness:
  "\<exists>out st. attempt_chain (demo_server\<lparr>has_warm := True\<rparr>) (demo_env\<lparr>borrow := (\<lambda>n p. Some dead_half)\<rparr>)
       (demo_gen 3) None familyV4 demo_dest 9 0 (start_session (demo_heap 3) 0) = (out, st) \<and>
     attempt_chain demo_server (demo_env\<lparr>borrow := (\<lambda>n p. Some dead_half)\<rparr>)
       (demo_gen 3) None familyV4 demo_dest 9 0 (start_session (demo_heap 3) 0) = (out, forget st)"
proof -
  let ?s = "demo_server\<lparr>has_warm := True\<rparr>" and ?env = "demo_env\<lparr>borrow := (\<lambda>n p. Some dead_half)\<rparr>"
  have "all_dead ?env demo_dest (dialTimeout (generationSettings (demo_gen 3)))"
    by (simp add: all_dead_def CompleteConnect_def dead_half_def SetDeadline_def scripted_def demo_sock_def
        socksConnectRequest_def demo_dest_def sock_write_def read_reply_def clear_deadline_def ReadFull_def read_upto.simps
        failHandshake_def IsConnectTargetError_def)
  moreover obtain out st where run: "attempt_chain ?s ?env (demo_gen 3) None familyV4 demo_dest 9 0
      (start_session (demo_heap 3) 0) = (out, st)" by fastforce
  ultimately have "attempt_chain (cold_server ?s) ?env (demo_gen 3) None familyV4 demo_dest 9 0
      (forget (start_session (demo_heap 3) 0)) = (out, forget st)"
    by (rule dead_warm_transparent)
  with run show ?thesis by (simp add: cold_server_def demo_server_def forget_def start_session_def)
qed
end
