(* ===== verification/Warm.thy ===== *)
theory Warm
  imports Serve "HOL-Library.Multiset"
begin

text \<open>
  The pool of half-established connections (internal/warmpool/warmpool.go). A \<open>warm_pool\<close> is the
  state under \<^verbatim>\<open>wp.mu\<close> together with the atomic counters; every critical section is one
  operation, and the shared routes, the generation and the clock are its arguments.

  Buckets are an association list from routes; Go ranges over the map in an arbitrary order,
  the \<open>rng\<close> (range order) argument. A bucket object is named by \<open>b_id\<close>, so that a dial can tell the bucket it
  was claimed for from a later one of the same route; writes to an orphaned bucket are
  unobservable and dropped. A connection is named by \<open>wc_id\<close>; \<open>opened\<close>, \<open>closed\<close> and
  \<open>lent\<close> record, for the proofs only, which connections the pool took over, closed and handed out.
\<close>

section \<open>State\<close>

record warm_conn =
  wc_id :: nat
  epoch :: u64
  created_at :: instant

record routeBucket =
  b_id :: nat
  parked :: "warm_conn list"
  pending :: int
  flying :: int
  failStreak :: int
  backoffUntil :: "instant option"
  authBroken :: bool
  authBrokenEpoch :: u64

record warm_pool =
  buckets :: "(pref \<times> routeBucket) list"
  stopped :: bool
  started :: bool
  workers :: int
  dialing :: int
  wake :: bool
  sweepWake :: bool
  created :: u64
  borrowed :: u64
  discardedStale :: u64
  discardedOverflow :: u64
  generationInvalidated :: u64
  connectFailed :: u64
  replenishAttempts :: u64
  next_bucket :: nat
  opened :: "nat list"
  closed :: "nat list"
  lent :: "nat list"

definition New :: warm_pool where
  "New = \<lparr>buckets = [], stopped = False, started = False, workers = 0, dialing = 0, wake = False,
     sweepWake = False, created = 0, borrowed = 0, discardedStale = 0, discardedOverflow = 0,
     generationInvalidated = 0, connectFailed = 0, replenishAttempts = 0, next_bucket = 0,
     opened = [], closed = [], lent = []\<rparr>"

definition new_bucket :: "nat \<Rightarrow> routeBucket" where
  "new_bucket i = \<lparr>b_id = i, parked = [], pending = 0, flying = 0, failStreak = 0,
     backoffUntil = None, authBroken = False, authBrokenEpoch = 0\<rparr>"

definition close_wc :: "warm_conn \<Rightarrow> warm_pool \<Rightarrow> warm_pool" where
  "close_wc wc wp = wp\<lparr>closed := closed wp @ [wc_id wc]\<rparr>"

definition close_all :: "warm_conn list \<Rightarrow> warm_pool \<Rightarrow> warm_pool" where
  "close_all wcs wp = wp\<lparr>closed := closed wp @ map wc_id wcs\<rparr>"

definition totalIdleLocked :: "(pref \<times> routeBucket) list \<Rightarrow> int" where
  "totalIdleLocked bs = (\<Sum>x\<leftarrow>bs. int (length (parked (snd x))))"

definition warm_cfg :: "generation \<Rightarrow> warm_settings" where
  "warm_cfg gen = WarmPool (gen_Config gen)"

section \<open>The sweep\<close>

text \<open>Removed routes: their buckets go, their connections are closed.\<close>

fun drop_dead :: "pref list \<Rightarrow> (pref \<times> routeBucket) list \<Rightarrow> warm_pool \<Rightarrow> (pref \<times> routeBucket) list \<times> warm_pool" where
  "drop_dead live [] wp = ([], wp)"
| "drop_dead live ((p, b) # bs) wp =
     (if p \<notin> set live then drop_dead live bs (close_all (parked b) wp)
      else (let (bs, wp) = drop_dead live bs wp in ((p, b) # bs, wp)))"

fun add_live :: "pref list \<Rightarrow> (pref \<times> routeBucket) list \<Rightarrow> warm_pool \<Rightarrow> (pref \<times> routeBucket) list \<times> warm_pool" where
  "add_live [] bs wp = (bs, wp)"
| "add_live (p # ps) bs wp =
     (if p \<in> set (keys bs) then add_live ps bs wp
      else add_live ps (bs @ [(p, new_bucket (next_bucket wp))]) (wp\<lparr>next_bucket := next_bucket wp + 1\<rparr>))"

fun expire :: "u64 \<Rightarrow> instant \<Rightarrow> duration \<Rightarrow> warm_conn list \<Rightarrow> warm_pool \<Rightarrow> warm_conn list \<times> warm_pool" where
  "expire ep now ttl [] wp = ([], wp)"
| "expire ep now ttl (wc # wcs) wp =
     (if epoch wc \<noteq> ep then
        expire ep now ttl wcs (close_wc wc (wp\<lparr>generationInvalidated := generationInvalidated wp + 1\<rparr>))
      else if ttl < now - created_at wc then
        expire ep now ttl wcs (close_wc wc (wp\<lparr>discardedStale := discardedStale wp + 1\<rparr>))
      else (let (keep, wp) = expire ep now ttl wcs wp in (wc # keep, wp)))"

function trim :: "int \<Rightarrow> warm_conn list \<Rightarrow> warm_pool \<Rightarrow> warm_conn list \<times> warm_pool" where
  "trim mx wcs wp =
     (if wcs \<noteq> [] \<and> mx < int (length wcs)
      then trim mx (butlast wcs)
             (close_wc (last wcs) (wp\<lparr>discardedOverflow := discardedOverflow wp + 1\<rparr>))
      else (wcs, wp))"
  by pat_completeness auto
termination by (relation "measure (\<lambda>(mx, wcs, wp). length wcs)") auto

declare trim.simps [simp del]

definition sweep_bucket ::
  "warm_settings \<Rightarrow> instant \<Rightarrow> heap \<Rightarrow> pref \<Rightarrow> routeBucket \<Rightarrow> warm_pool \<Rightarrow> routeBucket \<times> warm_pool" where
  "sweep_bucket cfg now h p b wp =
     (let ep = rotationEpoch (cells h p);
          b = (if authBroken b \<and> authBrokenEpoch b \<noteq> ep then b\<lparr>authBroken := False\<rparr> else b);
          (keep, wp) = expire ep now (IdleTTL cfg) (parked b) wp;
          (keep, wp) = trim (MaxIdlePerProxy cfg) keep wp
      in (b\<lparr>parked := keep\<rparr>, wp))"

fun sweep_buckets ::
  "warm_settings \<Rightarrow> instant \<Rightarrow> heap \<Rightarrow> (pref \<times> routeBucket) list \<Rightarrow> warm_pool \<Rightarrow>
   (pref \<times> routeBucket) list \<times> warm_pool" where
  "sweep_buckets cfg now h [] wp = ([], wp)"
| "sweep_buckets cfg now h ((p, b) # bs) wp =
     (let (b, wp) = sweep_bucket cfg now h p b wp;
          (bs, wp) = sweep_buckets cfg now h bs wp
      in ((p, b) # bs, wp))"

fun drain_buckets :: "(pref \<times> routeBucket) list \<Rightarrow> warm_pool \<Rightarrow> (pref \<times> routeBucket) list \<times> warm_pool" where
  "drain_buckets [] wp = ([], wp)"
| "drain_buckets ((p, b) # bs) wp =
     (let (bs, wp) = drain_buckets bs (close_all (parked b) wp) in ((p, b\<lparr>parked := []\<rparr>) # bs, wp))"

definition replenishEligibleLocked :: "heap \<Rightarrow> instant \<Rightarrow> pref \<Rightarrow> routeBucket \<Rightarrow> bool" where
  "replenishEligibleLocked h now p b =
     (if rotating (cells h p) \<or> authBlocked (cells h p) \<or> CooldownActive (cells h p) now then False
      else if authBroken b \<or> (case backoffUntil b of None \<Rightarrow> False | Some t \<Rightarrow> now < t) then False
      else True)"

fun reserve :: "nat \<Rightarrow> int \<Rightarrow> int \<Rightarrow> routeBucket \<Rightarrow> routeBucket \<times> int" where
  "reserve 0 cap tot b = (b, tot)"
| "reserve (Suc d) cap tot b =
     (if cap \<le> tot then (b, tot) else reserve d cap (tot + 1) (b\<lparr>pending := pending b + 1\<rparr>))"

fun schedule ::
  "warm_settings \<Rightarrow> instant \<Rightarrow> heap \<Rightarrow> (pref \<times> routeBucket) list \<Rightarrow> int \<Rightarrow> bool \<Rightarrow>
   (pref \<times> routeBucket) list \<times> int \<times> bool" where
  "schedule cfg now h [] tot wk = ([], tot, wk)"
| "schedule cfg now h ((p, b) # bs) tot wk =
     (if \<not> replenishEligibleLocked h now p b
      then (let (bs, tot, wk) = schedule cfg now h bs tot wk in ((p, b) # bs, tot, wk))
      else (let (b, tot) = reserve (nat (MinIdlePerProxy cfg - (int (length (parked b)) + pending b + flying b)))
                               (MaxTotalIdle cfg) tot b;
                (bs, tot, wk) = schedule cfg now h bs tot (wk \<or> 0 < pending b)
            in ((p, b) # bs, tot, wk)))"

definition reconcileWorkersLocked :: "int \<Rightarrow> warm_pool \<Rightarrow> warm_pool" where
  "reconcileWorkersLocked want wp =
     (let want = (if want < 1 then 1 else want)
      in wp\<lparr>workers := (if workers wp < want then want else workers wp)\<rparr>)"

definition sweep ::
  "((pref \<times> routeBucket) list \<Rightarrow> (pref \<times> routeBucket) list) \<Rightarrow> generation \<Rightarrow> instant \<Rightarrow> heap \<Rightarrow>
   warm_pool \<Rightarrow> warm_pool" where
  "sweep rng gen now h wp =
     (let cfg = warm_cfg gen; live = RoutePointers (gen_Pool gen) in
      if stopped wp then wp
      else (let (bs, wp) = drop_dead live (buckets wp) wp;
                (bs, wp) = add_live live bs wp;
                (bs, wp) = sweep_buckets cfg now h bs wp
            in if \<not> Enabled cfg then (let (bs, wp) = drain_buckets bs wp in wp\<lparr>buckets := bs\<rparr>)
               else (let (bs, tot, wk) = schedule cfg now h (rng bs) (totalIdleLocked bs) (wake wp);
                         wp = wp\<lparr>buckets := bs, wake := wk\<rparr>
                     in if started wp then reconcileWorkersLocked (MaxReplenishConcurrency cfg) wp else wp)))"

definition Start :: "generation \<Rightarrow> warm_pool \<Rightarrow> warm_pool" where
  "Start gen wp =
     (let wp = wp\<lparr>started := True\<rparr>
      in if Enabled (warm_cfg gen) then reconcileWorkersLocked (MaxReplenishConcurrency (warm_cfg gen)) wp
         else wp)"


section \<open>Replenishing\<close>

record dialTask =
  task_p :: pref
  task_b :: nat
  task_epoch :: u64

text \<open>An idle worker's critical section: retire, or claim the first bucket that qualifies.\<close>

definition retireIfSurplus :: "generation \<Rightarrow> warm_pool \<Rightarrow> bool \<times> warm_pool" where
  "retireIfSurplus gen wp =
     (if MaxReplenishConcurrency (warm_cfg gen) < workers wp
      then (True, wp\<lparr>workers := workers wp - 1\<rparr>) else (False, wp))"

definition claimable :: "warm_settings \<Rightarrow> heap \<Rightarrow> instant \<Rightarrow> pref \<times> routeBucket \<Rightarrow> bool" where
  "claimable cfg h now x \<longleftrightarrow>
     \<not> (pending (snd x) = 0 \<or>
        0 < MaxReplenishPerRoute cfg \<and> MaxReplenishPerRoute cfg \<le> flying (snd x) \<or>
        \<not> replenishEligibleLocked h now (fst x) (snd x))"

definition claimTask ::
  "((pref \<times> routeBucket) list \<Rightarrow> (pref \<times> routeBucket) list) \<Rightarrow> generation \<Rightarrow> instant \<Rightarrow> heap \<Rightarrow>
   warm_pool \<Rightarrow> dialTask option \<times> warm_pool" where
  "claimTask rng gen now h wp =
     (let cfg = warm_cfg gen in
      if stopped wp then (None, wp)
      else if \<not> Enabled cfg then (None, wp)
      else if MaxTotalIdle cfg \<le> totalIdleLocked (buckets wp) then (None, wp)
      else if MaxReplenishConcurrency cfg \<le> dialing wp then (None, wp)
      else (case find (claimable cfg h now) (rng (buckets wp)) of
          None \<Rightarrow> (None, wp)
        | Some (p, b) \<Rightarrow>
            (Some \<lparr>task_p = p, task_b = b_id b, task_epoch = rotationEpoch (cells h p)\<rparr>,
             wp\<lparr>buckets := AList.update p (b\<lparr>pending := pending b - 1, flying := flying b + 1\<rparr>) (buckets wp)\<rparr>)))"

text \<open>A write through the task's bucket pointer: an orphaned bucket is out of sight.\<close>

definition on_bucket :: "dialTask \<Rightarrow> (routeBucket \<Rightarrow> routeBucket) \<Rightarrow> warm_pool \<Rightarrow> warm_pool" where
  "on_bucket t f wp =
     (case map_of (buckets wp) (task_p t) of
        None \<Rightarrow> wp
      | Some b \<Rightarrow> if b_id b = task_b t then wp\<lparr>buckets := AList.update (task_p t) (f b) (buckets wp)\<rparr> else wp)"

definition run_dial_start :: "warm_pool \<Rightarrow> warm_pool" where
  "run_dial_start wp = wp\<lparr>replenishAttempts := replenishAttempts wp + 1, dialing := dialing wp + 1\<rparr>"

definition warmBackoffBase :: duration where
  "warmBackoffBase = second"

definition warmBackoffMax :: duration where
  "warmBackoffMax = 8 * second"

definition land :: "routeBucket \<Rightarrow> routeBucket" where
  "land b = b\<lparr>flying := flying b - 1\<rparr>"

text \<open>The dial failed. \<open>jit\<close> is the jitter of the backoff.\<close>

definition run_dial_failed ::
  "(duration \<Rightarrow> duration) \<Rightarrow> dialTask \<Rightarrow> dial_error \<Rightarrow> instant \<Rightarrow> heap \<Rightarrow> warm_pool \<Rightarrow> warm_pool" where
  "run_dial_failed jit t err now h wp =
     (let wp = on_bucket t land wp; wp = wp\<lparr>connectFailed := connectFailed wp + 1\<rparr>
      in if IsAuthError err
         then on_bucket t (\<lambda>b. b\<lparr>authBroken := True, authBrokenEpoch := rotationEpoch (cells h (task_p t))\<rparr>) wp
         else on_bucket t (\<lambda>b. let n = failStreak b + 1 in
                       b\<lparr>failStreak := n,
                         backoffUntil := Some (now + jit (SaturatingCooldown warmBackoffBase warmBackoffMax n))\<rparr>) wp)"

text \<open>The dial succeeded with the new connection \<open>c\<close>. \<open>gen\<close> is the generation loaded before the dial.\<close>

definition park_refused :: "warm_settings \<Rightarrow> dialTask \<Rightarrow> warm_pool \<Rightarrow> bool" where
  "park_refused cfg t wp \<longleftrightarrow>
     stopped wp \<or>
     (case map_of (buckets wp) (task_p t) of
        None \<Rightarrow> True
      | Some b \<Rightarrow> b_id b \<noteq> task_b t \<or> \<not> Enabled cfg \<or>
          MaxIdlePerProxy cfg \<le> int (length (parked b))) \<or>
     MaxTotalIdle cfg \<le> totalIdleLocked (buckets wp)"

definition run_dial_ok ::
  "generation \<Rightarrow> dialTask \<Rightarrow> nat \<Rightarrow> instant \<Rightarrow> heap \<Rightarrow> warm_pool \<Rightarrow> warm_pool" where
  "run_dial_ok gen t c now h wp =
     (let cfg = warm_cfg gen;
          wc = \<lparr>wc_id = c, epoch = task_epoch t, created_at = now\<rparr>;
          wp = wp\<lparr>opened := opened wp @ [c]\<rparr>
      in if rotationEpoch (cells h (task_p t)) \<noteq> task_epoch t
         then close_wc wc ((on_bucket t land wp)\<lparr>generationInvalidated := generationInvalidated wp + 1\<rparr>)
         else if park_refused cfg t wp
         then close_wc wc ((on_bucket t land wp)\<lparr>discardedOverflow := discardedOverflow wp + 1\<rparr>)
         else (on_bucket t (\<lambda>b. (land b)\<lparr>failStreak := 0, backoffUntil := None,
                               parked := parked b @ [wc]\<rparr>) wp)\<lparr>created := created wp + 1\<rparr>)"

text \<open>The deferred decrement, after the critical section.\<close>

definition run_dial_end :: "warm_pool \<Rightarrow> warm_pool" where
  "run_dial_end wp = wp\<lparr>dialing := dialing wp - 1\<rparr>"

section \<open>The request path\<close>

text \<open>\<open>None\<close> as the route is the nil pointer.\<close>

definition Borrow :: "generation \<Rightarrow> pref option \<Rightarrow> heap \<Rightarrow> warm_pool \<Rightarrow> warm_conn option \<times> warm_pool" where
  "Borrow gen po h wp =
     (case po of
        None \<Rightarrow> (None, wp)
      | Some p \<Rightarrow>
          if \<not> Enabled (warm_cfg gen) then (None, wp)
          else (case map_of (buckets wp) p of
              None \<Rightarrow> (None, wp)
            | Some b \<Rightarrow>
                (case parked b of
                   [] \<Rightarrow> (None, wp)
                 | wc # rest \<Rightarrow>
                     (let wp = wp\<lparr>buckets := AList.update p (b\<lparr>parked := rest\<rparr>) (buckets wp)\<rparr>
                      in if epoch wc \<noteq> rotationEpoch (cells h p)
                         then (None, close_wc wc (wp\<lparr>generationInvalidated := generationInvalidated wp + 1\<rparr>))
                         else (Some wc, wp\<lparr>borrowed := borrowed wp + 1, sweepWake := True,
                                          lent := lent wp @ [wc_id wc]\<rparr>)))))"

definition DiscardRoute :: "pref option \<Rightarrow> warm_pool \<Rightarrow> warm_pool" where
  "DiscardRoute po wp =
     (case po of
        None \<Rightarrow> wp
      | Some p \<Rightarrow>
          (case map_of (buckets wp) p of
             None \<Rightarrow> wp
           | Some b \<Rightarrow>
               (let wp = wp\<lparr>discardedStale := discardedStale wp + of_nat (length (parked b))\<rparr>;
                    wp = close_all (parked b) wp
                in wp\<lparr>buckets := AList.update p (b\<lparr>parked := []\<rparr>) (buckets wp)\<rparr>)))"

fun stop_buckets :: "(pref \<times> routeBucket) list \<Rightarrow> warm_pool \<Rightarrow> (pref \<times> routeBucket) list \<times> warm_pool" where
  "stop_buckets [] wp = ([], wp)"
| "stop_buckets ((p, b) # bs) wp =
     (let (bs, wp) = stop_buckets bs (close_all (parked b) wp)
      in ((p, b\<lparr>parked := [], pending := 0\<rparr>) # bs, wp))"

definition Stop :: "warm_pool \<Rightarrow> warm_pool" where
  "Stop wp =
     (let wp = wp\<lparr>stopped := True\<rparr>; (bs, wp) = stop_buckets (buckets wp) wp
      in wp\<lparr>buckets := bs\<rparr>)"

section \<open>Status\<close>

record route_status =
  rs_Upstream :: string
  rs_Idle :: nat
  rs_Pending :: int
  rs_Flying :: int

record warm_status =
  ws_Settings :: warm_settings
  ws_Stopped :: bool
  ws_Workers :: int
  ws_IdleTotal :: int
  ws_Created :: u64
  ws_Borrowed :: u64
  ws_DiscardedStale :: u64
  ws_DiscardedOverflow :: u64
  ws_GenerationInvalidated :: u64
  ws_ConnectFailed :: u64
  ws_ReplenishAttempts :: u64
  ws_Routes :: "route_status list"

text \<open>\<open>sort\<close> is \<^verbatim>\<open>sort.Slice\<close>, which is not stable: some sorted permutation.\<close>

definition warm_Snapshot ::
  "(route_status list \<Rightarrow> route_status list) \<Rightarrow> generation \<Rightarrow> heap \<Rightarrow> warm_pool \<Rightarrow> warm_status" where
  "warm_Snapshot srt gen h wp =
     \<lparr>ws_Settings = warm_cfg gen, ws_Stopped = stopped wp, ws_Workers = workers wp,
      ws_IdleTotal = totalIdleLocked (buckets wp), ws_Created = created wp, ws_Borrowed = borrowed wp,
      ws_DiscardedStale = discardedStale wp, ws_DiscardedOverflow = discardedOverflow wp,
      ws_GenerationInvalidated = generationInvalidated wp, ws_ConnectFailed = connectFailed wp,
      ws_ReplenishAttempts = replenishAttempts wp,
      ws_Routes = srt (map (\<lambda>(p, b). \<lparr>rs_Upstream = url_Host (URL (cells h p)),
         rs_Idle = length (parked b), rs_Pending = pending b, rs_Flying = flying b\<rparr>) (buckets wp))\<rparr>"

end
