(* ===== verification/WarmInv.thy ===== *)
theory WarmInv
  imports Warm
begin

text \<open>
  The warm pool as a transition system: sweeps, claims, dials, borrows, discards, reloads, rotations
  and the stop interleave as they may. Its invariant accounts for every connection exactly once,
  for every scheduled and running dial, and for the rotation each parked connection was dialed
  under. The properties of the pool are read off it.
\<close>

section \<open>Accounting of connections\<close>

definition ids_of :: "warm_conn list \<Rightarrow> nat multiset" where
  "ids_of wcs = mset (map wc_id wcs)"

definition idle_ids :: "(pref \<times> routeBucket) list \<Rightarrow> nat multiset" where
  "idle_ids bs = (\<Sum>x\<leftarrow>bs. ids_of (parked (snd x)))"

lemma ids_of_simps [simp]:
  "ids_of [] = {#}" "ids_of (wc # wcs) = add_mset (wc_id wc) (ids_of wcs)"
  "ids_of (xs @ ys) = ids_of xs + ids_of ys"
  by (simp_all add: ids_of_def)

lemma idle_ids_simps [simp]:
  "idle_ids [] = {#}" "idle_ids ((p, b) # bs) = ids_of (parked b) + idle_ids bs"
  "idle_ids (bs @ cs) = idle_ids bs + idle_ids cs"
  by (simp_all add: idle_ids_def)

lemma close_simps [simp]:
  "mset (closed (close_wc wc wp)) = add_mset (wc_id wc) (mset (closed wp))"
  "mset (closed (close_all wcs wp)) = mset (closed wp) + ids_of wcs"
  by (simp_all add: close_wc_def close_all_def ids_of_def)

text \<open>What closing and counting leave as it was.\<close>

definition same_pool :: "warm_pool \<Rightarrow> warm_pool \<Rightarrow> bool" where
  "same_pool wp wp' \<longleftrightarrow>
     buckets wp' = buckets wp \<and> stopped wp' = stopped wp \<and> started wp' = started wp \<and>
     workers wp' = workers wp \<and> dialing wp' = dialing wp \<and> wake wp' = wake wp \<and>
     sweepWake wp' = sweepWake wp \<and> opened wp' = opened wp \<and> lent wp' = lent wp"

lemma same_pool_refl [simp]: "same_pool wp wp"
  by (simp add: same_pool_def)

lemma same_pool_trans: "same_pool a b \<Longrightarrow> same_pool b c \<Longrightarrow> same_pool a c"
  by (simp add: same_pool_def)

lemma same_pool_close [simp]:
  "same_pool wp (close_wc wc wp')  = same_pool wp wp'" "same_pool wp (close_all wcs wp') = same_pool wp wp'"
  "next_bucket (close_wc wc wp) = next_bucket wp" "next_bucket (close_all wcs wp) = next_bucket wp"
  by (simp_all add: same_pool_def close_wc_def close_all_def)

lemma same_pool_count [simp]:
  "same_pool (wp\<lparr>generationInvalidated := n\<rparr>) wp' = same_pool wp wp'"
  "same_pool (wp\<lparr>discardedStale := n\<rparr>) wp' = same_pool wp wp'"
  "same_pool (wp\<lparr>discardedOverflow := n\<rparr>) wp' = same_pool wp wp'"
  "same_pool (wp\<lparr>next_bucket := m\<rparr>) wp' = same_pool wp wp'"
  "same_pool (close_wc wc wp) wp' = same_pool wp wp'" "same_pool (close_all wcs wp) wp' = same_pool wp wp'"
  by (simp_all add: same_pool_def close_wc_def close_all_def)

text \<open>Moving connections from the idle side to the closed side.\<close>

definition moved :: "nat multiset \<Rightarrow> warm_pool \<Rightarrow> nat multiset \<Rightarrow> warm_pool \<Rightarrow> bool" where
  "moved idle wp idle' wp' \<longleftrightarrow>
     idle' + mset (closed wp') = idle + mset (closed wp) \<and> same_pool wp wp'"

lemma moved_trans:
  "moved a wp b wp' \<Longrightarrow> moved b wp' c wp'' \<Longrightarrow> moved a wp c wp''"
  by (auto simp: moved_def intro: same_pool_trans)

lemma moved_add:
  assumes "moved a wp b wp1" and "moved c wp1 d wp2"
  shows "moved (a + c) wp (b + d) wp2"
proof -
  have "b + d + mset (closed wp2) = b + (c + mset (closed wp1))"
    using assms(2) by (simp add: moved_def add.assoc)
  also have "\<dots> = c + (b + mset (closed wp1))" by (simp add: ac_simps)
  also have "\<dots> = c + (a + mset (closed wp))" using assms(1) by (simp add: moved_def)
  also have "\<dots> = a + c + mset (closed wp)" by (simp add: ac_simps)
  finally show ?thesis using assms by (auto simp: moved_def intro: same_pool_trans)
qed

lemma drop_dead_moved:
  "drop_dead live bs wp = (bs', wp') \<Longrightarrow>
     moved (idle_ids bs) wp (idle_ids bs') wp' \<and> next_bucket wp' = next_bucket wp \<and>
     bs' = filter (\<lambda>x. fst x \<in> set live) bs"
proof (induction live bs wp arbitrary: bs' wp' rule: drop_dead.induct)
  case (2 live p b bs wp)
  show ?case
  proof (cases "p \<in> set live")
    case True
    then obtain bs2 where d: "drop_dead live bs wp = (bs2, wp')" "bs' = (p, b) # bs2"
      using 2(3) by (auto split: prod.splits)
    from 2(2) [OF _ d(1)] True show ?thesis by (auto simp: moved_def d(2) ac_simps)
  next
    case False
    with 2(3) have "drop_dead live bs (close_all (parked b) wp) = (bs', wp')" by simp
    from 2(1) [OF False this] False show ?thesis by (auto simp: moved_def ac_simps)
  qed
qed (simp add: moved_def)

lemma add_live_moved:
  "add_live ps bs wp = (bs', wp') \<Longrightarrow>
     moved (idle_ids bs) wp (idle_ids bs') wp' \<and> closed wp' = closed wp \<and> next_bucket wp \<le> next_bucket wp' \<and>
     set (keys bs') = set (keys bs) \<union> set ps \<and> (distinct (keys bs) \<longrightarrow> distinct (keys bs')) \<and>
     (\<forall>x \<in> set bs'. x \<in> set bs \<or>
        (\<exists>i. snd x = new_bucket i \<and> next_bucket wp \<le> i \<and> i < next_bucket wp'))"
proof (induction ps bs wp arbitrary: bs' wp' rule: add_live.induct)
  case (2 p ps bs wp)
  show ?case
  proof (cases "p \<in> set (keys bs)")
    case True
    with 2(3) have "add_live ps bs wp = (bs', wp')" by simp
    from 2(1) [OF True this] True show ?thesis by auto
  next
    case False
    let ?wp = "wp\<lparr>next_bucket := next_bucket wp + 1\<rparr>" and ?b = "new_bucket (next_bucket wp)"
    from False 2(3) have "add_live ps (bs @ [(p, ?b)]) ?wp = (bs', wp')" by simp
    note ih = 2(2) [OF False this]
    have new: "parked ?b = []" by (simp add: new_bucket_def)
    have k: "keys (bs @ [(p, ?b)]) = keys bs @ [p]" by (simp add: keys_def)
    show ?thesis
    proof (intro conjI)
      show "moved (idle_ids bs) wp (idle_ids bs') wp'"
        using ih by (auto simp: moved_def new)
      show "closed wp' = closed wp" "next_bucket wp \<le> next_bucket wp'" using ih by simp_all
      show "set (keys bs') = set (keys bs) \<union> set (p # ps)" using ih k by auto
      show "distinct (keys bs) \<longrightarrow> distinct (keys bs')" using ih k False by auto
      show "\<forall>x \<in> set bs'. x \<in> set bs \<or>
          (\<exists>i. snd x = new_bucket i \<and> next_bucket wp \<le> i \<and> i < next_bucket wp')"
      proof
        fix x assume "x \<in> set bs'"
        with ih consider "x \<in> set bs" | "x = (p, ?b)"
          | i where "snd x = new_bucket i" "next_bucket ?wp \<le> i" "i < next_bucket wp'"
          by fastforce
        then show "x \<in> set bs \<or> (\<exists>i. snd x = new_bucket i \<and> next_bucket wp \<le> i \<and> i < next_bucket wp')"
        proof cases
          case 2
          with ih show ?thesis by auto
        qed (use ih in auto)
      qed
    qed
  qed
qed (simp add: moved_def)


lemma expire_moved:
  "expire ep now ttl wcs wp = (keep, wp') \<Longrightarrow>
     moved (ids_of wcs) wp (ids_of keep) wp' \<and> next_bucket wp' = next_bucket wp \<and>
     keep = filter (\<lambda>wc. epoch wc = ep \<and> now - created_at wc \<le> ttl) wcs"
proof (induction ep now ttl wcs wp arbitrary: keep wp' rule: expire.induct)
  case (2 ep now ttl wc wcs wp)
  consider (old) "epoch wc \<noteq> ep" | (stale) "epoch wc = ep" "ttl < now - created_at wc"
    | (good) "epoch wc = ep" "\<not> ttl < now - created_at wc" by blast
  then show ?case
  proof cases
    case old
    with 2(4) have "expire ep now ttl wcs (close_wc wc (wp\<lparr>generationInvalidated := generationInvalidated wp + 1\<rparr>)) =
        (keep, wp')" by simp
    from 2(1) [OF old this] old show ?thesis by (auto simp: moved_def)
  next
    case stale
    with 2(4) have "expire ep now ttl wcs (close_wc wc (wp\<lparr>discardedStale := discardedStale wp + 1\<rparr>)) = (keep, wp')"
      by simp
    from 2(2) [OF _ stale(2) this] stale show ?thesis by (auto simp: moved_def)
  next
    case good
    then obtain k where k: "expire ep now ttl wcs wp = (k, wp')" "keep = wc # k"
      using 2(4) by (auto split: prod.splits)
    from 2(3) [OF _ _ k(1)] good k(2) show ?thesis by (auto simp: moved_def)
  qed
qed (simp add: moved_def)

lemma trim_moved:
  "trim mx wcs wp = (keep, wp') \<Longrightarrow>
     moved (ids_of wcs) wp (ids_of keep) wp' \<and> next_bucket wp' = next_bucket wp \<and>
     (\<exists>n. keep = take n wcs) \<and> (0 \<le> mx \<longrightarrow> int (length keep) \<le> mx) \<and>
     (int (length wcs) \<le> mx \<longrightarrow> keep = wcs)"
proof (induction mx wcs wp arbitrary: keep wp' rule: trim.induct)
  case (1 mx wcs wp)
  show ?case
  proof (cases "wcs \<noteq> [] \<and> mx < int (length wcs)")
    case True
    let ?wp = "close_wc (last wcs) (wp\<lparr>discardedOverflow := discardedOverflow wp + 1\<rparr>)"
    from True 1(2) have "trim mx (butlast wcs) ?wp = (keep, wp')" by (subst (asm) trim.simps) simp
    note ih = 1(1) [OF True this]
    have ids: "ids_of wcs = add_mset (wc_id (last wcs)) (ids_of (butlast wcs))"
      using True by (metis append_butlast_last_id ids_of_simps add_mset_add_single)
    obtain n where "keep = take n (butlast wcs)" using ih by blast
    then have "keep = take (min n (length wcs - 1)) wcs" by (simp add: butlast_conv_take min.commute)
    then show ?thesis using ih True ids by (auto simp: moved_def)
  next
    case False
    with 1(2) have "keep = wcs" "wp' = wp" by (subst (asm) trim.simps, auto)+
    with False show ?thesis by (auto simp: moved_def intro!: exI [of _ "length wcs"])
  qed
qed

lemma sweep_bucket_moved:
  assumes "sweep_bucket cfg now h p b wp = (b', wp')"
  shows "moved (ids_of (parked b)) wp (ids_of (parked b')) wp' \<and> next_bucket wp' = next_bucket wp \<and>
    b_id b' = b_id b \<and> pending b' = pending b \<and> flying b' = flying b \<and>
    set (parked b') \<subseteq> set (parked b) \<and>
    (\<forall>wc \<in> set (parked b'). epoch wc = rotationEpoch (cells h p) \<and> now - created_at wc \<le> IdleTTL cfg) \<and>
    (0 \<le> MaxIdlePerProxy cfg \<longrightarrow> int (length (parked b')) \<le> MaxIdlePerProxy cfg)"
proof -
  obtain k1 wp1 where e: "expire (rotationEpoch (cells h p)) now (IdleTTL cfg) (parked b) wp = (k1, wp1)" by fastforce
  obtain k2 wp2 where t: "trim (MaxIdlePerProxy cfg) k1 wp1 = (k2, wp2)" by fastforce
  have b': "parked b' = k2" "wp' = wp2" "b_id b' = b_id b" "pending b' = pending b" "flying b' = flying b"
    using assms e t by (auto simp: sweep_bucket_def Let_def split: if_splits)
  note m1 = expire_moved [OF e] and m2 = trim_moved [OF t]
  have "set k2 \<subseteq> set k1" using m2 set_take_subset by metis
  with b' m1 m2 show ?thesis by (auto intro: moved_trans)
qed

text \<open>The bucket of a route after an operation that only touches parked connections.\<close>

definition thinner :: "routeBucket \<Rightarrow> routeBucket \<Rightarrow> bool" where
  "thinner b b' \<longleftrightarrow> b_id b' = b_id b \<and> flying b' = flying b \<and> set (parked b') \<subseteq> set (parked b)"

lemma sweep_buckets_moved:
  "sweep_buckets cfg now h bs wp = (bs', wp') \<Longrightarrow>
     moved (idle_ids bs) wp (idle_ids bs') wp' \<and> next_bucket wp' = next_bucket wp \<and> keys bs' = keys bs \<and>
     list_all2 (\<lambda>x y. fst y = fst x \<and> thinner (snd x) (snd y) \<and> pending (snd y) = pending (snd x)) bs bs' \<and>
     (\<forall>x \<in> set bs'. (\<forall>wc \<in> set (parked (snd x)). epoch wc = rotationEpoch (cells h (fst x)) \<and>
          now - created_at wc \<le> IdleTTL cfg) \<and>
        (0 \<le> MaxIdlePerProxy cfg \<longrightarrow> int (length (parked (snd x))) \<le> MaxIdlePerProxy cfg))"
proof (induction cfg now h bs wp arbitrary: bs' wp' rule: sweep_buckets.induct)
  case (2 cfg now h p b bs wp)
  obtain b1 wp1 where s: "sweep_bucket cfg now h p b wp = (b1, wp1)" by fastforce
  obtain bs1 wp2 where r: "sweep_buckets cfg now h bs wp1 = (bs1, wp2)" by fastforce
  have eq: "bs' = (p, b1) # bs1" "wp' = wp2" using 2(2) s r by auto
  note m1 = sweep_bucket_moved [OF s] and m2 = 2(1) [OF s [symmetric] refl r]
  have "moved (ids_of (parked b) + idle_ids bs) wp (ids_of (parked b1) + idle_ids bs1) wp2"
    using m1 m2 moved_add by blast
  with m1 m2 show ?case by (simp add: eq thinner_def)
qed (simp add: moved_def)

lemma drain_buckets_moved:
  "drain_buckets bs wp = (bs', wp') \<Longrightarrow>
     moved (idle_ids bs) wp (idle_ids bs') wp' \<and> next_bucket wp' = next_bucket wp \<and>
     bs' = map (\<lambda>x. (fst x, (snd x)\<lparr>parked := []\<rparr>)) bs"
proof (induction bs wp arbitrary: bs' wp' rule: drain_buckets.induct)
  case (2 p b bs wp)
  obtain bs1 wp1 where r: "drain_buckets bs (close_all (parked b) wp) = (bs1, wp1)" by fastforce
  from 2(1) [OF r] 2(2) r show ?case by (auto simp: moved_def ac_simps)
qed (simp add: moved_def)

lemma stop_buckets_moved:
  "stop_buckets bs wp = (bs', wp') \<Longrightarrow>
     moved (idle_ids bs) wp (idle_ids bs') wp' \<and> next_bucket wp' = next_bucket wp \<and>
     bs' = map (\<lambda>x. (fst x, (snd x)\<lparr>parked := [], pending := 0\<rparr>)) bs"
proof (induction bs wp arbitrary: bs' wp' rule: stop_buckets.induct)
  case (2 p b bs wp)
  obtain bs1 wp1 where r: "stop_buckets bs (close_all (parked b) wp) = (bs1, wp1)" by fastforce
  from 2(1) [OF r] 2(2) r show ?case by (auto simp: moved_def ac_simps)
qed (simp add: moved_def)


section \<open>One bucket changes\<close>

lemma update_bucket:
  assumes "distinct (keys bs)" and "map_of bs p = Some b"
  shows "idle_ids (AList.update p b' bs) + ids_of (parked b) = idle_ids bs + ids_of (parked b')"
    and "set (AList.update p b' bs) = insert (p, b') (set bs - {(p, b)})"
    and "keys (AList.update p b' bs) = keys bs"
proof -
  have "idle_ids (AList.update p b' bs) + ids_of (parked b) = idle_ids bs + ids_of (parked b') \<and>
      set (AList.update p b' bs) = insert (p, b') (set bs - {(p, b)})"
    using assms
  proof (induction bs)
    case (Cons x bs)
    obtain q c where x: "x = (q, c)" by (cases x)
    show ?case
    proof (cases "q = p")
      case True
      with Cons.prems x have "c = b" "p \<notin> fst ` set bs" by (auto simp: keys_def)
      then have "(p, b) \<notin> set bs" by force
      with True x \<open>c = b\<close> show ?thesis by (auto simp: ac_simps)
    next
      case False
      with Cons x show ?thesis by (auto simp: ac_simps)
    qed
  qed simp
  then show "idle_ids (AList.update p b' bs) + ids_of (parked b) = idle_ids bs + ids_of (parked b')"
    and "set (AList.update p b' bs) = insert (p, b') (set bs - {(p, b)})" by simp_all
  have "p \<in> set (keys bs)" using assms(2) set_keys [of bs] by auto
  then show "keys (AList.update p b' bs) = keys bs" by (simp add: keys_update)
qed

lemma bucket_mem: "map_of bs p = Some b \<Longrightarrow> (p, b) \<in> set bs"
  by (rule map_of_SomeD)

lemma bucket_only:
  "distinct (keys bs) \<Longrightarrow> (p, b) \<in> set bs \<Longrightarrow> map_of bs p = Some b"
  by (simp add: keys_def)

lemma on_bucket_cases:
  obtains (orphan) "on_bucket t f wp = wp"
    | (hit) b where "map_of (buckets wp) (task_p t) = Some b" "b_id b = task_b t"
        "on_bucket t f wp = wp\<lparr>buckets := AList.update (task_p t) (f b) (buckets wp)\<rparr>"
proof (cases "map_of (buckets wp) (task_p t)")
  case None
  then show thesis by (intro orphan) (simp add: on_bucket_def)
next
  case (Some b)
  show thesis
  proof (cases "b_id b = task_b t")
    case True
    with Some show thesis by (intro hit [of b]) (simp_all add: on_bucket_def)
  next
    case False
    with Some show thesis by (intro orphan) (simp add: on_bucket_def)
  qed
qed

section \<open>Steps\<close>

text \<open>
  The whole warm pool as a transition system. A worker is idle, has claimed a task, is dialing it
  (with the generation it loaded), or is past the critical section that ended the dial. A sweep
  works on the generation that it loaded before it took the lock, and a borrow on that of its request:
  any one, the serving one or an earlier.
  \<open>rots\<close> and \<open>birth\<close> are history: how many rotations each route has begun, and how many had begun
  when the dial of a connection was claimed.
\<close>

record wsys =
  wpool :: warm_pool
  whp :: heap
  wgen :: generation
  claimed :: "(dialTask \<times> nat) list"
  inair :: "(dialTask \<times> nat \<times> generation) list"
  landing :: nat
  rots :: "pref \<Rightarrow> nat"
  birth :: "nat \<Rightarrow> nat"

definition busy :: "wsys \<Rightarrow> int" where
  "busy s = int (length (claimed s) + length (inair s) + landing s)"

definition permutes :: "('a list \<Rightarrow> 'a list) \<Rightarrow> bool" where
  "permutes f \<longleftrightarrow> (\<forall>xs. mset (f xs) = mset xs)"

inductive warm_step :: "wsys \<Rightarrow> wsys \<Rightarrow> bool" where
  start: "warm_step s (s\<lparr>wpool := Start (wgen s) (wpool s)\<rparr>)"
| sweeps: "permutes rng \<Longrightarrow>
    warm_step s (s\<lparr>wpool := sweep rng g now (whp s) (wpool s)\<rparr>)"
| claims: "permutes rng \<Longrightarrow> busy s < workers (wpool s) \<Longrightarrow>
    claimTask rng (wgen s) now (whp s) (wpool s) = (Some t, wp) \<Longrightarrow>
    warm_step s (s\<lparr>wpool := wp, claimed := (t, rots s (task_p t)) # claimed s\<rparr>)"
| retires: "busy s < workers (wpool s) \<Longrightarrow>
    warm_step s (s\<lparr>wpool := snd (retireIfSurplus (wgen s) (wpool s))\<rparr>)"
| dials: "claimed s = us @ (t, n) # vs \<Longrightarrow>
    warm_step s (s\<lparr>wpool := run_dial_start (wpool s), claimed := us @ vs, inair := (t, n, wgen s) # inair s\<rparr>)"
| fails: "inair s = us @ (t, n, g) # vs \<Longrightarrow>
    warm_step s (s\<lparr>wpool := run_dial_failed jit t err now (whp s) (wpool s), inair := us @ vs,
                   landing := landing s + 1\<rparr>)"
| connects: "inair s = us @ (t, n, g) # vs \<Longrightarrow> c \<notin> set (opened (wpool s)) \<Longrightarrow>
    warm_step s (s\<lparr>wpool := run_dial_ok g t c now (whp s) (wpool s), inair := us @ vs,
                   landing := landing s + 1, birth := (birth s)(c := n)\<rparr>)"
| ends: "0 < landing s \<Longrightarrow>
    warm_step s (s\<lparr>wpool := run_dial_end (wpool s), landing := landing s - 1\<rparr>)"
| borrows: "warm_step s (s\<lparr>wpool := snd (Borrow g po (whp s) (wpool s))\<rparr>)"
| discards: "warm_step s (s\<lparr>wpool := DiscardRoute po (wpool s)\<rparr>)"
| stops: "warm_step s (s\<lparr>wpool := Stop (wpool s)\<rparr>)"
| reloads: "warm_step s (s\<lparr>wgen := g\<rparr>)"
| rotates: "warm_step s (s\<lparr>whp := upd p (BeginRotation phase) (whp s), rots := (rots s)(p := rots s p + 1)\<rparr>)"
| serves: "(\<And>p. rotationEpoch (cells h p) = rotationEpoch (cells (whp s) p)) \<Longrightarrow> warm_step s (s\<lparr>whp := h\<rparr>)"

definition warm_init :: "wsys \<Rightarrow> bool" where
  "warm_init s \<longleftrightarrow> wpool s = New \<and> claimed s = [] \<and> inair s = [] \<and> landing s = 0 \<and>
     (\<forall>p. rotationEpoch (cells (whp s) p) = of_nat (rots s p))"

inductive warm_reachable :: "wsys \<Rightarrow> bool" where
  init: "warm_init s \<Longrightarrow> warm_reachable s"
| step: "warm_reachable s \<Longrightarrow> warm_step s s' \<Longrightarrow> warm_reachable s'"

section \<open>Invariants\<close>

definition conn_ok :: "warm_pool \<Rightarrow> bool" where
  "conn_ok wp \<longleftrightarrow>
     idle_ids (buckets wp) + mset (closed wp) + mset (lent wp) = mset (opened wp) \<and>
     distinct (opened wp) \<and> distinct (keys (buckets wp)) \<and>
     (stopped wp \<longrightarrow> (\<forall>x \<in> set (buckets wp). parked (snd x) = []))"

lemma conn_ok_moved:
  assumes "conn_ok wp" and "moved (idle_ids (buckets wp)) wp (idle_ids bs) wp'"
    and "distinct (keys bs)" and "stopped wp \<longrightarrow> (\<forall>x \<in> set bs. parked (snd x) = [])"
  shows "conn_ok (wp'\<lparr>buckets := bs\<rparr>)"
proof -
  have "idle_ids bs + mset (closed wp') + mset (lent wp') = mset (opened wp')"
    using assms(1,2) by (simp add: conn_ok_def moved_def same_pool_def)
  then show ?thesis using assms by (simp add: conn_ok_def moved_def same_pool_def)
qed

lemma on_bucket_conn:
  assumes "conn_ok wp" and "\<And>b. parked (f b) = parked b"
  shows "conn_ok (on_bucket t f wp) \<and> closed (on_bucket t f wp) = closed wp"
proof (cases rule: on_bucket_cases [of t f wp])
  case orphan
  with assms(1) show ?thesis by simp
next
  case (hit b)
  have d: "distinct (keys (buckets wp))" using assms(1) by (simp add: conn_ok_def)
  note u = update_bucket [OF d hit(1), of "f b"]
  have "(task_p t, b) \<in> set (buckets wp)" by (rule bucket_mem [OF hit(1)])
  then show ?thesis using hit(3) assms u by (auto simp: conn_ok_def)
qed

lemma sum_cancel: "(a :: nat multiset) + x = b + x \<Longrightarrow> a = b"
  by simp

lemma Borrow_cases:
  assumes "Borrow g po h wp = (r, wp')"
  obtains (miss) "r = None" "wp' = wp"
  | (old) p b wc rest where "po = Some p" "Enabled (warm_cfg g)" "map_of (buckets wp) p = Some b"
      "parked b = wc # rest" "epoch wc \<noteq> rotationEpoch (cells h p)" "r = None"
      "wp' = close_wc wc (wp\<lparr>buckets := AList.update p (b\<lparr>parked := rest\<rparr>) (buckets wp),
         generationInvalidated := generationInvalidated wp + 1\<rparr>)"
  | (hit) p b wc rest where "po = Some p" "Enabled (warm_cfg g)" "map_of (buckets wp) p = Some b"
      "parked b = wc # rest" "epoch wc = rotationEpoch (cells h p)" "r = Some wc"
      "wp' = wp\<lparr>buckets := AList.update p (b\<lparr>parked := rest\<rparr>) (buckets wp),
         borrowed := borrowed wp + 1, sweepWake := True, lent := lent wp @ [wc_id wc]\<rparr>"
proof (cases po)
  case None
  with assms show thesis by (intro miss) (simp_all add: Borrow_def)
next
  case (Some p)
  show thesis
  proof (cases "Enabled (warm_cfg g) \<and> (\<exists>b wc rest. map_of (buckets wp) p = Some b \<and> parked b = wc # rest)")
    case False
    with assms Some show thesis
      by (intro miss) (auto simp: Borrow_def split: option.splits list.splits if_splits)
  next
    case True
    then obtain b wc rest where b: "Enabled (warm_cfg g)" "map_of (buckets wp) p = Some b" "parked b = wc # rest"
      by blast
    show thesis
    proof (cases "epoch wc = rotationEpoch (cells h p)")
      case True
      with assms Some b show thesis by (intro hit [of p b wc rest]) (simp_all add: Borrow_def Let_def)
    next
      case False
      with assms Some b show thesis by (intro old [of p b wc rest]) (simp_all add: Borrow_def Let_def)
    qed
  qed
qed

lemma Borrow_conn:
  assumes "conn_ok wp" and "Borrow g po h wp = (r, wp')"
  shows "conn_ok wp'"
proof -
  have d: "distinct (keys (buckets wp))" using assms(1) by (simp add: conn_ok_def)
  have go: "conn_ok wp'"
    if b: "map_of (buckets wp) p = Some b" "parked b = wc # rest"
      and wp': "buckets wp' = AList.update p (b\<lparr>parked := rest\<rparr>) (buckets wp)" "opened wp' = opened wp"
        "stopped wp' = stopped wp"
        "mset (closed wp') + mset (lent wp') = add_mset (wc_id wc) (mset (closed wp) + mset (lent wp))"
    for p b wc rest
  proof -
    note u = update_bucket [OF d b(1), of "b\<lparr>parked := rest\<rparr>", folded wp'(1)]
    have ids: "idle_ids (buckets wp') + {#wc_id wc#} = idle_ids (buckets wp)"
      by (rule sum_cancel [of _ "ids_of rest"]) (use u(1) b(2) in \<open>simp add: ac_simps\<close>)
    have "idle_ids (buckets wp') + mset (closed wp') + mset (lent wp') =
        idle_ids (buckets wp') + {#wc_id wc#} + (mset (closed wp) + mset (lent wp))"
      by (simp add: wp'(4) add.assoc)
    also have "\<dots> = mset (opened wp)" unfolding ids using assms(1) by (simp add: conn_ok_def add.assoc)
    finally have "idle_ids (buckets wp') + mset (closed wp') + mset (lent wp') = mset (opened wp)" .
    moreover have "\<not> stopped wp" using assms(1) bucket_mem [OF b(1)] b(2) by (auto simp: conn_ok_def)
    ultimately show ?thesis using assms(1) u(3) d wp' by (simp add: conn_ok_def)
  qed
  from assms(2) show ?thesis
  proof (cases rule: Borrow_cases)
    case miss
    with assms(1) show ?thesis by simp
  next
    case (old p b wc rest)
    show ?thesis by (rule go [OF old(3,4)]) (simp_all add: old(7) close_wc_def)
  next
    case (hit p b wc rest)
    show ?thesis by (rule go [OF hit(3,4)]) (simp_all add: hit(7))
  qed
qed

section \<open>The sweep as one operation\<close>

lemma reserve_spec:
  "reserve d cap tot b = (b', tot') \<Longrightarrow>
     b' = b\<lparr>pending := pending b + (tot' - tot)\<rparr> \<and> tot \<le> tot' \<and> tot' \<le> max tot cap \<and>
     tot' - tot \<le> int d \<and> (tot' - tot = int d \<or> cap \<le> tot')"
  by (induction d cap tot b arbitrary: b' tot' rule: reserve.induct) (fastforce split: if_splits)+

lemma schedule_spec:
  "schedule cfg now h bs tot wk = (bs', tot', wk') \<Longrightarrow>
     keys bs' = keys bs \<and>
     list_all2 (\<lambda>x y. fst y = fst x \<and> (\<exists>k \<ge> 0. snd y = (snd x)\<lparr>pending := pending (snd x) + k\<rparr>)) bs bs' \<and>
     tot \<le> tot' \<and> tot' \<le> max tot (MaxTotalIdle cfg) \<and>
     (\<Sum>x\<leftarrow>bs'. pending (snd x)) = (\<Sum>x\<leftarrow>bs. pending (snd x)) + (tot' - tot) \<and>
     (tot' < MaxTotalIdle cfg \<longrightarrow>
        (\<forall>x \<in> set bs'. replenishEligibleLocked h now (fst x) (snd x) \<longrightarrow>
           MinIdlePerProxy cfg \<le> int (length (parked (snd x))) + pending (snd x) + flying (snd x)))"
proof (induction bs arbitrary: tot wk bs' tot' wk')
  case Nil
  then show ?case by simp
next
  case (Cons x bs)
  obtain p b where x: "x = (p, b)" by (cases x)
  show ?case
  proof (cases "replenishEligibleLocked h now p b")
    case False
    obtain bs1 tot1 wk1 where r: "schedule cfg now h bs tot wk = (bs1, tot1, wk1)" by (metis prod_cases3)
    from Cons.IH [OF r] False Cons.prems r show ?thesis by (auto simp: x)
  next
    case True
    define d where "d = nat (MinIdlePerProxy cfg - (int (length (parked b)) + pending b + flying b))"
    obtain b1 t1 where rs: "reserve d (MaxTotalIdle cfg) tot b = (b1, t1)" by fastforce
    obtain bs1 tot1 wk1 where r: "schedule cfg now h bs t1 (wk \<or> 0 < pending b1) = (bs1, tot1, wk1)"
      by (metis prod_cases3)
    have eq: "bs' = (p, b1) # bs1" "tot' = tot1"
      using Cons.prems True rs r by (auto simp: x d_def)
    note m = reserve_spec [OF rs] and ih = Cons.IH [OF r]
    have met: "MinIdlePerProxy cfg \<le> int (length (parked b1)) + pending b1 + flying b1"
      if "tot' < MaxTotalIdle cfg"
    proof -
      have "t1 < MaxTotalIdle cfg" using that ih eq by simp
      with m have "t1 - tot = int d" by linarith
      then show ?thesis using m by (simp add: d_def)
    qed
    have "\<exists>k \<ge> 0. b1 = b\<lparr>pending := pending b + k\<rparr>" using m by (intro exI [of _ "t1 - tot"]) simp
    moreover have "pending b1 = pending b + (t1 - tot)" using m by simp
    ultimately show ?thesis using ih m met by (auto simp: x eq)
  qed
qed

text \<open>Where the buckets of a swept pool come from.\<close>

definition derived :: "warm_pool \<Rightarrow> warm_pool \<Rightarrow> pref \<times> routeBucket \<Rightarrow> bool" where
  "derived wp wp' x \<longleftrightarrow>
     (\<exists>y \<in> set (buckets wp). fst y = fst x \<and> thinner (snd y) (snd x) \<and> pending (snd y) \<le> pending (snd x)) \<or>
     (next_bucket wp \<le> b_id (snd x) \<and> b_id (snd x) < next_bucket wp' \<and> flying (snd x) = 0 \<and>
      parked (snd x) = [] \<and> 0 \<le> pending (snd x))"

lemma all2_ball:
  "list_all2 P xs ys \<Longrightarrow> (\<forall>y \<in> set ys. \<exists>x \<in> set xs. P x y)"
  by (induction rule: list_all2_induct) auto

lemma idle_ids_mset:
  assumes "mset bs = mset cs"
  shows "idle_ids bs = idle_ids cs" and "totalIdleLocked bs = totalIdleLocked cs"
proof -
  have "mset (map f bs) = mset (map f cs)" for f :: "pref \<times> routeBucket \<Rightarrow> 'a" using assms by simp
  then have "sum_list (map f bs) = sum_list (map f cs)" for f :: "pref \<times> routeBucket \<Rightarrow> 'a::comm_monoid_add"
    using assms by (metis mset_map sum_mset_sum_list)
  then show "idle_ids bs = idle_ids cs" and "totalIdleLocked bs = totalIdleLocked cs"
    by (simp_all only: idle_ids_def totalIdleLocked_def)
qed

lemma keys_mset: "mset bs = mset cs \<Longrightarrow> mset (keys bs) = mset (keys cs)"
  by (simp add: keys_def)

lemma schedule_idle:
  "list_all2 (\<lambda>x y. fst y = fst x \<and> (\<exists>k \<ge> 0. snd y = (snd x)\<lparr>pending := pending (snd x) + k\<rparr>)) bs bs' \<Longrightarrow>
     idle_ids bs' = idle_ids bs \<and> totalIdleLocked bs' = totalIdleLocked bs"
  by (induction rule: list_all2_induct) (auto simp: idle_ids_def totalIdleLocked_def)

text \<open>Everything the sweep does below the lock, once it is not refused.\<close>

lemma sweep_stages:
  assumes "\<not> stopped wp" and "permutes rng"
  obtains bs wp1 where
    "moved (idle_ids (buckets wp)) wp (idle_ids bs) wp1" "next_bucket wp \<le> next_bucket wp1"
    "distinct (keys (buckets wp)) \<longrightarrow> distinct (keys bs)"
    "set (keys bs) = set (entries (gen_Pool gen))"
    "\<And>x. x \<in> set bs \<Longrightarrow> derived wp wp1 x"
    "\<And>x wc. x \<in> set bs \<Longrightarrow> wc \<in> set (parked (snd x)) \<Longrightarrow>
       epoch wc = rotationEpoch (cells h (fst x)) \<and> now - created_at wc \<le> IdleTTL (warm_cfg gen)"
    "\<And>x. x \<in> set bs \<Longrightarrow> 0 \<le> MaxIdlePerProxy (warm_cfg gen) \<Longrightarrow>
       int (length (parked (snd x))) \<le> MaxIdlePerProxy (warm_cfg gen)"
    "sweep rng gen now h wp =
       (if \<not> Enabled (warm_cfg gen) then (let (bs, wp) = drain_buckets bs wp1 in wp\<lparr>buckets := bs\<rparr>)
        else (let (bs, tot, wk) = schedule (warm_cfg gen) now h (rng bs) (totalIdleLocked bs) (wake wp1);
                  wp = wp1\<lparr>buckets := bs, wake := wk\<rparr>
              in if started wp then reconcileWorkersLocked (MaxReplenishConcurrency (warm_cfg gen)) wp else wp))"
proof -
  let ?live = "entries (gen_Pool gen)" and ?cfg = "warm_cfg gen"
  obtain bs1 w1 where 1: "drop_dead ?live (buckets wp) wp = (bs1, w1)" by fastforce
  obtain bs2 w2 where 2: "add_live ?live bs1 w1 = (bs2, w2)" by fastforce
  obtain bs3 w3 where 3: "sweep_buckets ?cfg now h bs2 w2 = (bs3, w3)" by fastforce
  note m1 = drop_dead_moved [OF 1] and m2 = add_live_moved [OF 2] and m3 = sweep_buckets_moved [OF 3]
  have k1: "set (keys bs1) \<subseteq> set ?live" using m1 by (auto simp: keys_def)
  have d1: "distinct (keys (buckets wp)) \<longrightarrow> distinct (keys bs1)"
    using m1 by (auto simp: keys_def intro: distinct_map_filter)
  have der: "derived wp w3 x" if x: "x \<in> set bs3" for x
  proof -
    obtain y where y: "y \<in> set bs2" "fst x = fst y" "thinner (snd y) (snd x)" "pending (snd x) = pending (snd y)"
      using all2_ball [of _ bs2 bs3] m3 x by fastforce
    have "y \<in> set bs1 \<or> (\<exists>i. snd y = new_bucket i \<and> next_bucket w1 \<le> i \<and> i < next_bucket w2)"
      using m2 y(1) by blast
    then show ?thesis
    proof
      assume "y \<in> set bs1"
      then have "y \<in> set (buckets wp)" using m1 by auto
      then show ?thesis using y unfolding derived_def by (intro disjI1 bexI [of _ y]) auto
    next
      assume "\<exists>i. snd y = new_bucket i \<and> next_bucket w1 \<le> i \<and> i < next_bucket w2"
      then show ?thesis using y m1 m3 by (auto simp: derived_def thinner_def new_bucket_def)
    qed
  qed
  show thesis
  proof (rule that [of bs3 w3])
    show "moved (idle_ids (buckets wp)) wp (idle_ids bs3) w3" using m1 m2 m3 moved_trans by blast
    show "next_bucket wp \<le> next_bucket w3" using m1 m2 m3 by simp
    show "distinct (keys (buckets wp)) \<longrightarrow> distinct (keys bs3)" using d1 m2 m3 by simp
    show "set (keys bs3) = set (entries (gen_Pool gen))" using k1 m2 m3 by auto
    show "derived wp w3 x" if "x \<in> set bs3" for x by (rule der [OF that])
    show "epoch wc = rotationEpoch (cells h (fst x)) \<and> now - created_at wc \<le> IdleTTL ?cfg"
      if "x \<in> set bs3" "wc \<in> set (parked (snd x))" for x wc using m3 that by blast
    show "int (length (parked (snd x))) \<le> MaxIdlePerProxy ?cfg"
      if "x \<in> set bs3" "0 \<le> MaxIdlePerProxy ?cfg" for x using m3 that by blast
    show "sweep rng gen now h wp =
       (if \<not> Enabled ?cfg then (let (bs, wp) = drain_buckets bs3 w3 in wp\<lparr>buckets := bs\<rparr>)
        else (let (bs, tot, wk) = schedule ?cfg now h (rng bs3) (totalIdleLocked bs3) (wake w3);
                  wp = w3\<lparr>buckets := bs, wake := wk\<rparr>
              in if started wp then reconcileWorkersLocked (MaxReplenishConcurrency ?cfg) wp else wp))"
      using assms(1) 1 2 3 by (simp add: sweep_def RoutePointers_def Let_def)
  qed
qed


lemma thinner_trans: "thinner a b \<Longrightarrow> thinner b c \<Longrightarrow> thinner a c"
  by (auto simp: thinner_def)

lemma derived_mono:
  assumes "derived wp wp1 x" and "fst y = fst x" and "thinner (snd x) (snd y)"
    and "pending (snd x) \<le> pending (snd y)" and "next_bucket wp1 \<le> next_bucket wp2"
  shows "derived wp wp2 y"
proof -
  from assms(1) consider z where "z \<in> set (buckets wp)" "fst z = fst x" "thinner (snd z) (snd x)"
      "pending (snd z) \<le> pending (snd x)"
    | "next_bucket wp \<le> b_id (snd x)" "b_id (snd x) < next_bucket wp1" "flying (snd x) = 0"
      "parked (snd x) = []" "0 \<le> pending (snd x)"
    unfolding derived_def by blast
  then show ?thesis
  proof cases
    case (1 z)
    then show ?thesis unfolding derived_def
      using assms thinner_trans by (intro disjI1 bexI [of _ z]) auto
  next
    case 2
    then show ?thesis using assms unfolding derived_def thinner_def by auto
  qed
qed

lemma reconcile_simps [simp]:
  "buckets (reconcileWorkersLocked n wp) = buckets wp" "closed (reconcileWorkersLocked n wp) = closed wp"
  "opened (reconcileWorkersLocked n wp) = opened wp" "lent (reconcileWorkersLocked n wp) = lent wp"
  "stopped (reconcileWorkersLocked n wp) = stopped wp" "dialing (reconcileWorkersLocked n wp) = dialing wp"
  "next_bucket (reconcileWorkersLocked n wp) = next_bucket wp"
  "workers wp \<le> workers (reconcileWorkersLocked n wp)"
  by (simp_all add: reconcileWorkersLocked_def Let_def)

lemma conn_ok_reconcile [simp]: "conn_ok (reconcileWorkersLocked n wp) = conn_ok wp"
  by (simp add: conn_ok_def)

text \<open>The effect of a sweep on the books, whichever way it goes.\<close>

definition books :: "warm_pool \<Rightarrow> warm_pool \<Rightarrow> bool" where
  "books wp wp' \<longleftrightarrow> stopped wp' = stopped wp \<and> dialing wp' = dialing wp \<and> opened wp' = opened wp \<and>
     lent wp' = lent wp \<and> workers wp \<le> workers wp' \<and> next_bucket wp \<le> next_bucket wp' \<and>
     (\<forall>x \<in> set (buckets wp'). derived wp wp' x)"

lemma books_reconcile: "books wp v \<Longrightarrow> books wp (reconcileWorkersLocked n v)"
proof -
  assume a: "books wp v"
  have "derived wp (reconcileWorkersLocked n v) x = derived wp v x" for x by (simp add: derived_def)
  moreover have "workers wp \<le> workers (reconcileWorkersLocked n v)"
    using a order_trans [OF _ reconcile_simps(8), of "workers wp" v n] by (simp add: books_def)
  ultimately show ?thesis using a by (simp add: books_def)
qed

lemma books_drain:
  assumes ok: "conn_ok wp" and run: "\<not> stopped wp"
    and st: "moved (idle_ids (buckets wp)) wp (idle_ids bs) wp1" "next_bucket wp \<le> next_bucket wp1" "distinct (keys bs)"
    and der: "\<And>x. x \<in> set bs \<Longrightarrow> derived wp wp1 x"
    and dr: "drain_buckets bs wp1 = (bs2, wp2)"
  shows "conn_ok (wp2\<lparr>buckets := bs2\<rparr>) \<and> books wp (wp2\<lparr>buckets := bs2\<rparr>)"
proof -
  note m = drain_buckets_moved [OF dr]
  have w1: "stopped wp1 = stopped wp" "dialing wp1 = dialing wp" "opened wp1 = opened wp" "lent wp1 = lent wp"
    "workers wp1 = workers wp" using st(1) by (simp_all add: moved_def same_pool_def)
  have k: "keys bs2 = keys bs" using m by (simp add: keys_def comp_def)
  have ok2: "conn_ok (wp2\<lparr>buckets := bs2\<rparr>)"
    by (rule conn_ok_moved [OF ok]) (use st(1,3) m moved_trans k run in auto)
  have w2: "stopped wp2 = stopped wp1" "dialing wp2 = dialing wp1" "opened wp2 = opened wp1"
    "lent wp2 = lent wp1" "workers wp2 = workers wp1" "next_bucket wp2 = next_bucket wp1"
    using m by (simp_all add: moved_def same_pool_def)
  have "derived wp (wp2\<lparr>buckets := bs2\<rparr>) y" if y: "y \<in> set bs2" for y
  proof -
    obtain x where x: "x \<in> set bs" "y = (fst x, (snd x)\<lparr>parked := []\<rparr>)" using m y by auto
    show ?thesis by (rule derived_mono [OF der [OF x(1)]]) (simp_all add: x(2) thinner_def w2)
  qed
  with ok2 w1 w2 st(2) show ?thesis by (simp add: books_def)
qed

lemma books_schedule:
  assumes ok: "conn_ok wp" and run: "\<not> stopped wp"
    and st: "moved (idle_ids (buckets wp)) wp (idle_ids bs) wp1" "next_bucket wp \<le> next_bucket wp1" "distinct (keys bs)"
    and der: "\<And>x. x \<in> set bs \<Longrightarrow> derived wp wp1 x"
    and mr: "mset rbs = mset bs" and sc: "schedule cfg now h rbs tot0 wk0 = (bs2, tot, wk)"
  shows "conn_ok (wp1\<lparr>buckets := bs2, wake := wk\<rparr>) \<and> books wp (wp1\<lparr>buckets := bs2, wake := wk\<rparr>)"
proof -
  note m = schedule_spec [OF sc]
  have w1: "stopped wp1 = stopped wp" "dialing wp1 = dialing wp" "opened wp1 = opened wp" "lent wp1 = lent wp"
    "workers wp1 = workers wp" using st(1) by (simp_all add: moved_def same_pool_def)
  have "idle_ids bs2 = idle_ids rbs" using m schedule_idle [of rbs bs2] by blast
  then have ids: "idle_ids bs2 = idle_ids bs" by (simp add: idle_ids_mset(1) [OF mr])
  have "mset (keys bs2) = mset (keys bs)" using m keys_mset [OF mr] by simp
  then have dk: "distinct (keys bs2)" using st(3) mset_eq_imp_distinct_iff by blast
  have "conn_ok (wp1\<lparr>buckets := bs2\<rparr>)"
    by (rule conn_ok_moved [OF ok]) (use st(1) ids dk run in simp_all)
  moreover have "derived wp (wp1\<lparr>buckets := bs2, wake := wk\<rparr>) y" if y: "y \<in> set bs2" for y
  proof -
    obtain x k where x: "x \<in> set rbs" "fst y = fst x" "0 \<le> k" "snd y = (snd x)\<lparr>pending := pending (snd x) + k\<rparr>"
      using all2_ball [of _ rbs bs2] m y by fastforce
    have "x \<in> set bs" using x(1) mr by (metis set_mset_mset)
    from der [OF this] show ?thesis by (rule derived_mono) (use x in \<open>simp_all add: thinner_def\<close>)
  qed
  ultimately show ?thesis using w1 st(2) by (simp add: books_def conn_ok_def)
qed

lemma sweep_books:
  assumes ok: "conn_ok wp" and perm: "permutes rng"
  shows "conn_ok (sweep rng gen now h wp) \<and> books wp (sweep rng gen now h wp)"
proof (cases "stopped wp")
  case True
  have "derived wp wp x" if "x \<in> set (buckets wp)" for x
    using that unfolding derived_def thinner_def by (intro disjI1 bexI [of _ x]) auto
  with True ok show ?thesis by (simp add: sweep_def Let_def books_def)
next
  case False
  show ?thesis
  proof (rule sweep_stages [OF False perm, where gen = gen and now = now and h = h])
    fix bs wp1
    assume st: "moved (idle_ids (buckets wp)) wp (idle_ids bs) wp1" "next_bucket wp \<le> next_bucket wp1"
      "distinct (keys (buckets wp)) \<longrightarrow> distinct (keys bs)"
      and der: "\<And>x. x \<in> set bs \<Longrightarrow> derived wp wp1 x"
      and sw: "sweep rng gen now h wp =
         (if \<not> Enabled (warm_cfg gen) then (let (bs, wp) = drain_buckets bs wp1 in wp\<lparr>buckets := bs\<rparr>)
          else (let (bs, tot, wk) = schedule (warm_cfg gen) now h (rng bs) (totalIdleLocked bs) (wake wp1);
                    wp = wp1\<lparr>buckets := bs, wake := wk\<rparr>
                in if started wp then reconcileWorkersLocked (MaxReplenishConcurrency (warm_cfg gen)) wp else wp))"
    have d: "distinct (keys bs)" using st(3) ok by (simp add: conn_ok_def)
    show ?thesis
    proof (cases "Enabled (warm_cfg gen)")
      case off: False
      obtain bs2 wp2 where dr: "drain_buckets bs wp1 = (bs2, wp2)" by fastforce
      show ?thesis using books_drain [OF ok False st(1,2) d der dr] sw off dr by simp
    next
      case on: True
      have mr: "mset (rng bs) = mset bs" using perm by (simp add: permutes_def)
      obtain bs2 tot wk where sc: "schedule (warm_cfg gen) now h (rng bs) (totalIdleLocked bs) (wake wp1) = (bs2, tot, wk)"
        by (metis prod_cases3)
      have "sweep rng gen now h wp = (let wp = wp1\<lparr>buckets := bs2, wake := wk\<rparr>
          in if started wp then reconcileWorkersLocked (MaxReplenishConcurrency (warm_cfg gen)) wp else wp)"
        unfolding sw using on sc by simp
      then show ?thesis
        using books_schedule [OF ok False st(1,2) d der mr sc] books_reconcile conn_ok_reconcile
        unfolding Let_def by presburger
    qed
  qed
qed


section \<open>The system invariant\<close>

definition airborne :: "wsys \<Rightarrow> (dialTask \<times> nat) list" where
  "airborne s = claimed s @ map (\<lambda>x. (fst x, fst (snd x))) (inair s)"

definition tasks_for :: "pref \<Rightarrow> nat \<Rightarrow> (dialTask \<times> nat) list \<Rightarrow> nat" where
  "tasks_for p i ts = length (filter (\<lambda>x. task_p (fst x) = p \<and> task_b (fst x) = i) ts)"

definition stamped :: "wsys \<Rightarrow> pref \<Rightarrow> u64 \<Rightarrow> nat \<Rightarrow> bool" where
  "stamped s p ep n \<longleftrightarrow> ep = of_nat n \<and> n \<le> rots s p"

definition bucket_ok :: "wsys \<Rightarrow> pref \<times> routeBucket \<Rightarrow> bool" where
  "bucket_ok s x \<longleftrightarrow>
     b_id (snd x) < next_bucket (wpool s) \<and> 0 \<le> pending (snd x) \<and>
     flying (snd x) = int (tasks_for (fst x) (b_id (snd x)) (airborne s)) \<and>
     (\<forall>wc \<in> set (parked (snd x)). stamped s (fst x) (epoch wc) (birth s (wc_id wc)))"

definition task_ok :: "wsys \<Rightarrow> dialTask \<times> nat \<Rightarrow> bool" where
  "task_ok s y \<longleftrightarrow> task_b (fst y) < next_bucket (wpool s) \<and>
     stamped s (task_p (fst y)) (task_epoch (fst y)) (snd y)"

definition sys_ok :: "wsys \<Rightarrow> bool" where
  "sys_ok s \<longleftrightarrow>
     conn_ok (wpool s) \<and> (\<forall>x \<in> set (buckets (wpool s)). bucket_ok s x) \<and>
     (\<forall>y \<in> set (airborne s). task_ok s y) \<and>
     (\<forall>p. rotationEpoch (cells (whp s) p) = of_nat (rots s p)) \<and>
     dialing (wpool s) = int (length (inair s) + landing s) \<and> busy s \<le> workers (wpool s)"

lemma tasks_for_mset: "mset ts = mset us \<Longrightarrow> tasks_for p i ts = tasks_for p i us"
  unfolding tasks_for_def by (rule mset_eq_length) simp

lemma tasks_for_simps [simp]:
  "tasks_for p i [] = 0"
  "tasks_for p i (x # ts) = (if task_p (fst x) = p \<and> task_b (fst x) = i then 1 else 0) + tasks_for p i ts"
  "tasks_for p i (ts @ us) = tasks_for p i ts + tasks_for p i us"
  by (simp_all add: tasks_for_def)

lemma claimTask_spec:
  assumes "conn_ok wp" and "permutes rng" and "claimTask rng gen now h wp = (Some t, wp')"
  shows "\<exists>b. map_of (buckets wp) (task_p t) = Some b \<and> \<not> stopped wp \<and> Enabled (warm_cfg gen) \<and>
    task_b t = b_id b \<and> task_epoch t = rotationEpoch (cells h (task_p t)) \<and>
    claimable (warm_cfg gen) h now (task_p t, b) \<and> dialing wp < MaxReplenishConcurrency (warm_cfg gen) \<and>
    totalIdleLocked (buckets wp) < MaxTotalIdle (warm_cfg gen) \<and>
    wp' = wp\<lparr>buckets := AList.update (task_p t) (b\<lparr>pending := pending b - 1, flying := flying b + 1\<rparr>) (buckets wp)\<rparr>"
proof -
  obtain p b where f: "find (claimable (warm_cfg gen) h now) (rng (buckets wp)) = Some (p, b)"
    and t: "t = \<lparr>task_p = p, task_b = b_id b, task_epoch = rotationEpoch (cells h p)\<rparr>"
    and w: "wp' = wp\<lparr>buckets := AList.update p (b\<lparr>pending := pending b - 1, flying := flying b + 1\<rparr>) (buckets wp)\<rparr>"
    and g: "\<not> stopped wp" "Enabled (warm_cfg gen)" "dialing wp < MaxReplenishConcurrency (warm_cfg gen)"
      "totalIdleLocked (buckets wp) < MaxTotalIdle (warm_cfg gen)"
    using assms(3) by (auto simp: claimTask_def Let_def split: if_splits option.splits)
  have "(p, b) \<in> set (rng (buckets wp))" and c: "claimable (warm_cfg gen) h now (p, b)"
    using f by (auto simp: find_Some_iff)
  then have "(p, b) \<in> set (buckets wp)" using assms(2) by (metis permutes_def set_mset_mset)
  then have "map_of (buckets wp) p = Some b"
    using assms(1) by (intro bucket_only) (simp_all add: conn_ok_def)
  with t w g c show ?thesis by simp
qed

lemma on_bucket_mem:
  assumes "distinct (keys (buckets wp))" and "x \<in> set (buckets (on_bucket t f wp))"
  shows "x \<in> set (buckets wp) \<and> \<not> (fst x = task_p t \<and> b_id (snd x) = task_b t) \<or>
    (\<exists>b. (task_p t, b) \<in> set (buckets wp) \<and> b_id b = task_b t \<and> x = (task_p t, f b))"
proof (cases "map_of (buckets wp) (task_p t)")
  case None
  then have "on_bucket t f wp = wp" by (simp add: on_bucket_def)
  moreover have "fst x \<noteq> task_p t" if "x \<in> set (buckets wp)"
    using that None by (metis weak_map_of_SomeI option.distinct(1) prod.collapse)
  ultimately show ?thesis using assms(2) by auto
next
  case (Some b)
  have only: "snd x = b" if "x \<in> set (buckets wp)" "fst x = task_p t"
    using that bucket_only [OF assms(1)] Some by (metis option.inject prod.collapse)
  show ?thesis
  proof (cases "b_id b = task_b t")
    case False
    with Some have "on_bucket t f wp = wp" by (simp add: on_bucket_def)
    with assms(2) only False show ?thesis by auto
  next
    case True
    with Some have "on_bucket t f wp = wp\<lparr>buckets := AList.update (task_p t) (f b) (buckets wp)\<rparr>"
      by (simp add: on_bucket_def)
    then have "x = (task_p t, f b) \<or> x \<in> set (buckets wp) \<and> x \<noteq> (task_p t, b)"
      using assms(2) update_bucket(2) [OF assms(1) Some] by auto
    then show ?thesis
    proof
      assume "x = (task_p t, f b)"
      with bucket_mem [OF Some] True show ?thesis by blast
    next
      assume x: "x \<in> set (buckets wp) \<and> x \<noteq> (task_p t, b)"
      then have "fst x \<noteq> task_p t" using only by (metis prod.collapse)
      with x show ?thesis by simp
    qed
  qed
qed

lemma on_bucket_frame [simp]:
  "stopped (on_bucket t f wp) = stopped wp" "dialing (on_bucket t f wp) = dialing wp"
  "workers (on_bucket t f wp) = workers wp" "next_bucket (on_bucket t f wp) = next_bucket wp"
  "opened (on_bucket t f wp) = opened wp" "lent (on_bucket t f wp) = lent wp"
  "closed (on_bucket t f wp) = closed wp"
  by (cases rule: on_bucket_cases [of t f wp]; simp)+


section \<open>Every step keeps the invariant\<close>

lemma stamped_mono: "stamped s p ep n \<Longrightarrow> rots s p \<le> rots s' p \<Longrightarrow> stamped s' p ep n"
  by (auto simp: stamped_def)

text \<open>A pool operation whose buckets derive from the old ones, with the same tasks.\<close>

lemma sys_ok_books:
  assumes ok: "sys_ok s" and "conn_ok wp" and bk: "books (wpool s) wp"
  shows "sys_ok (s\<lparr>wpool := wp\<rparr>)"
proof -
  have none: "tasks_for q i (airborne s) = 0" if "next_bucket (wpool s) \<le> i" for q i
  proof -
    have "task_b (fst y) \<noteq> i" if "y \<in> set (airborne s)" for y
      using ok that \<open>next_bucket (wpool s) \<le> i\<close> unfolding sys_ok_def task_ok_def by force
    then show ?thesis by (simp add: tasks_for_def filter_empty_conv)
  qed
  have "bucket_ok (s\<lparr>wpool := wp\<rparr>) x" if x: "x \<in> set (buckets wp)" for x
  proof -
    have le: "next_bucket (wpool s) \<le> next_bucket wp" using bk by (simp add: books_def)
    have "derived (wpool s) wp x" using bk x by (simp add: books_def)
    then consider y where "y \<in> set (buckets (wpool s))" "fst y = fst x" "thinner (snd y) (snd x)"
        "pending (snd y) \<le> pending (snd x)"
      | "next_bucket (wpool s) \<le> b_id (snd x)" "b_id (snd x) < next_bucket wp" "flying (snd x) = 0"
        "parked (snd x) = []" "0 \<le> pending (snd x)"
      unfolding derived_def by blast
    then show ?thesis
    proof cases
      case (1 y)
      have "bucket_ok s y" using ok 1(1) by (simp add: sys_ok_def)
      with 1 le show ?thesis by (auto simp: bucket_ok_def thinner_def airborne_def stamped_def)
    next
      case 2
      then show ?thesis using none by (simp add: bucket_ok_def airborne_def)
    qed
  qed
  moreover have "task_ok (s\<lparr>wpool := wp\<rparr>) y" if "y \<in> set (airborne s)" for y
    using ok that bk by (fastforce simp: sys_ok_def task_ok_def stamped_def books_def)
  ultimately show ?thesis
    using assms by (auto simp: sys_ok_def books_def airborne_def busy_def)
qed

lemma claim_ok:
  assumes ok: "sys_ok s" and "permutes rng" and idle: "busy s < workers (wpool s)"
    and cl: "claimTask rng (wgen s) now (whp s) (wpool s) = (Some t, wp)"
  shows "sys_ok (s\<lparr>wpool := wp, claimed := (t, rots s (task_p t)) # claimed s\<rparr>)"
proof -
  let ?s = "s\<lparr>wpool := wp, claimed := (t, rots s (task_p t)) # claimed s\<rparr>"
  have c: "conn_ok (wpool s)" using ok by (simp add: sys_ok_def)
  obtain b where b: "map_of (buckets (wpool s)) (task_p t) = Some b" "task_b t = b_id b" "\<not> stopped (wpool s)"
      "task_epoch t = rotationEpoch (cells (whp s) (task_p t))" "pending b \<noteq> 0"
    and wp: "wp = (wpool s)\<lparr>buckets := AList.update (task_p t) (b\<lparr>pending := pending b - 1, flying := flying b + 1\<rparr>)
      (buckets (wpool s))\<rparr>"
    using claimTask_spec [OF c assms(2) cl] by (auto simp: claimable_def)
  have d: "distinct (keys (buckets (wpool s)))" using c by (simp add: conn_ok_def)
  note u = update_bucket [OF d b(1), of "b\<lparr>pending := pending b - 1, flying := flying b + 1\<rparr>"]
  have bo: "bucket_ok s (task_p t, b)" using ok bucket_mem [OF b(1)] by (simp add: sys_ok_def)
  have "conn_ok wp" using c u b(3) by (simp add: conn_ok_def wp)
  moreover have "bucket_ok ?s x" if x: "x \<in> set (buckets wp)" for x
  proof (cases "x = (task_p t, b\<lparr>pending := pending b - 1, flying := flying b + 1\<rparr>)")
    case True
    then show ?thesis using bo b by (auto simp: bucket_ok_def wp airborne_def stamped_def)
  next
    case False
    then have old: "x \<in> set (buckets (wpool s))" "x \<noteq> (task_p t, b)" using x u(2) by (auto simp: wp)
    then have "fst x \<noteq> task_p t"
      using bucket_only [OF d] b(1) by (metis option.inject prod.collapse)
    with ok old show ?thesis by (auto simp: sys_ok_def bucket_ok_def wp airborne_def stamped_def)
  qed
  moreover have "task_ok ?s y" if y: "y \<in> set (airborne ?s)" for y
  proof (cases "y = (t, rots s (task_p t))")
    case True
    then show ?thesis using b bo ok by (simp add: task_ok_def stamped_def wp bucket_ok_def sys_ok_def)
  next
    case False
    with y have "y \<in> set (airborne s)" by (auto simp: airborne_def)
    with ok show ?thesis by (simp add: sys_ok_def task_ok_def stamped_def wp)
  qed
  ultimately show ?thesis
    using ok idle by (simp add: sys_ok_def busy_def wp)
qed

text \<open>A dial that leaves the air: one task less, one in the bucket it was claimed for.\<close>

lemma landed_ok:
  assumes ok: "sys_ok s" and air: "inair s = us @ (t, n, g) # vs"
    and same: "next_bucket wp = next_bucket (wpool s)" "dialing wp = dialing (wpool s)"
      "workers wp = workers (wpool s)"
    and conn: "conn_ok wp"
    and bks: "\<And>x. x \<in> set (buckets wp) \<Longrightarrow>
      x \<in> set (buckets (wpool s)) \<and> \<not> (fst x = task_p t \<and> b_id (snd x) = task_b t) \<or>
      (\<exists>b. (task_p t, b) \<in> set (buckets (wpool s)) \<and> b_id b = task_b t \<and> fst x = task_p t \<and>
         b_id (snd x) = b_id b \<and> flying (snd x) = flying b - 1 \<and> pending (snd x) = pending b \<and>
         (\<forall>wc \<in> set (parked (snd x)). wc \<in> set (parked b) \<or> epoch wc = task_epoch t \<and> bt (wc_id wc) = n))"
    and keep: "\<And>x wc. x \<in> set (buckets (wpool s)) \<Longrightarrow> wc \<in> set (parked (snd x)) \<Longrightarrow>
      bt (wc_id wc) = birth s (wc_id wc)"
  shows "sys_ok (s\<lparr>wpool := wp, inair := us @ vs, landing := landing s + 1, birth := bt\<rparr>)"
proof -
  let ?s = "s\<lparr>wpool := wp, inair := us @ vs, landing := landing s + 1, birth := bt\<rparr>"
  have cnt: "tasks_for q i (airborne s) =
      (if task_p t = q \<and> task_b t = i then 1 else 0) + tasks_for q i (airborne ?s)" for q i
    by (simp add: airborne_def air)
  have tk: "task_ok s (t, n)" using ok by (simp add: sys_ok_def airborne_def air)
  have "bucket_ok ?s x" if x: "x \<in> set (buckets wp)" for x
  proof (cases "x \<in> set (buckets (wpool s)) \<and> \<not> (fst x = task_p t \<and> b_id (snd x) = task_b t)")
    case True
    then have bo: "bucket_ok s x" using ok by (simp add: sys_ok_def)
    have "\<forall>wc \<in> set (parked (snd x)). bt (wc_id wc) = birth s (wc_id wc)" using keep True by blast
    with True bo cnt [of "fst x" "b_id (snd x)"] show ?thesis
      by (auto simp: bucket_ok_def same stamped_def)
  next
    case False
    with bks [OF x] obtain b where b: "(task_p t, b) \<in> set (buckets (wpool s))" "b_id b = task_b t" "fst x = task_p t"
         "b_id (snd x) = b_id b" "flying (snd x) = flying b - 1" "pending (snd x) = pending b"
         "\<forall>wc \<in> set (parked (snd x)). wc \<in> set (parked b) \<or> epoch wc = task_epoch t \<and> bt (wc_id wc) = n"
      by blast
    have bo: "bucket_ok s (task_p t, b)" using ok b(1) by (simp add: sys_ok_def)
    have "stamped ?s (fst x) (epoch wc) (birth ?s (wc_id wc))" if "wc \<in> set (parked (snd x))" for wc
      using b that bo tk keep [OF b(1), of wc] by (auto simp: bucket_ok_def task_ok_def stamped_def)
    then show ?thesis using b bo cnt [of "task_p t" "task_b t"] by (simp add: bucket_ok_def same)
  qed
  moreover have "task_ok ?s y" if "y \<in> set (airborne ?s)" for y
  proof -
    have "y \<in> set (airborne s)" using that by (auto simp: airborne_def air)
    with ok show ?thesis by (simp add: sys_ok_def task_ok_def same stamped_def)
  qed
  ultimately show ?thesis using ok conn by (simp add: sys_ok_def busy_def air same)
qed


lemma on_bucket_twice:
  assumes "\<And>b. b_id (f b) = b_id b"
  shows "buckets (on_bucket t g ((on_bucket t f wp)\<lparr>connectFailed := k\<rparr>)) =
    buckets (on_bucket t (\<lambda>b. g (f b)) wp)"
proof (cases "map_of (buckets wp) (task_p t)")
  case None
  then show ?thesis by (simp add: on_bucket_def)
next
  case (Some b)
  then show ?thesis using assms by (simp add: on_bucket_def map_of_update)
qed

lemma failed_ok:
  assumes ok: "sys_ok s" and air: "inair s = us @ (t, n, g) # vs"
  shows "sys_ok (s\<lparr>wpool := run_dial_failed jit t err now h (wpool s), inair := us @ vs,
    landing := landing s + 1\<rparr>)"
proof -
  define f2 :: "routeBucket \<Rightarrow> routeBucket" where "f2 = (if IsAuthError err
      then (\<lambda>b. b\<lparr>authBroken := True, authBrokenEpoch := rotationEpoch (cells h (task_p t))\<rparr>)
      else (\<lambda>b. let n = failStreak b + 1 in b\<lparr>failStreak := n,
             backoffUntil := Some (now + jit (SaturatingCooldown warmBackoffBase warmBackoffMax n))\<rparr>))"
  let ?w1 = "(on_bucket t land (wpool s))\<lparr>connectFailed := connectFailed (on_bucket t land (wpool s)) + 1\<rparr>"
  let ?wp = "run_dial_failed jit t err now h (wpool s)"
  have eq: "?wp = on_bucket t f2 ?w1" by (simp add: run_dial_failed_def f2_def Let_def)
  have f2: "b_id (f2 b) = b_id b" "parked (f2 b) = parked b" "pending (f2 b) = pending b" "flying (f2 b) = flying b" for b
    by (simp_all add: f2_def Let_def)
  have c: "conn_ok (wpool s)" using ok by (simp add: sys_ok_def)
  then have d: "distinct (keys (buckets (wpool s)))" by (simp add: conn_ok_def)
  have "conn_ok ?w1" using on_bucket_conn [OF c, of land t] by (simp add: conn_ok_def land_def)
  then have conn: "conn_ok ?wp" unfolding eq using on_bucket_conn f2 by blast
  have bk: "buckets ?wp = buckets (on_bucket t (\<lambda>b. f2 (land b)) (wpool s))"
    unfolding eq by (rule on_bucket_twice) (simp add: land_def)
  have "sys_ok (s\<lparr>wpool := ?wp, inair := us @ vs, landing := landing s + 1, birth := birth s\<rparr>)"
  proof (rule landed_ok [OF ok air])
    show "next_bucket ?wp = next_bucket (wpool s)" "dialing ?wp = dialing (wpool s)"
      "workers ?wp = workers (wpool s)" by (simp_all add: eq)
    fix x assume "x \<in> set (buckets ?wp)"
    from on_bucket_mem [OF d this [unfolded bk]]
    show "x \<in> set (buckets (wpool s)) \<and> \<not> (fst x = task_p t \<and> b_id (snd x) = task_b t) \<or>
      (\<exists>b. (task_p t, b) \<in> set (buckets (wpool s)) \<and> b_id b = task_b t \<and> fst x = task_p t \<and>
         b_id (snd x) = b_id b \<and> flying (snd x) = flying b - 1 \<and> pending (snd x) = pending b \<and>
         (\<forall>wc \<in> set (parked (snd x)). wc \<in> set (parked b) \<or> epoch wc = task_epoch t \<and> birth s (wc_id wc) = n))"
      by (auto simp: f2 land_def)
  qed (use conn in simp_all)
  then show ?thesis by simp
qed

lemma fresh_conn:
  assumes "conn_ok wp" and "c \<notin> set (opened wp)" and "x \<in> set (buckets wp)" and "wc \<in> set (parked (snd x))"
  shows "wc_id wc \<noteq> c"
proof
  assume "wc_id wc = c"
  then have "c \<in># ids_of (parked (snd x))" using assms(4) by (auto simp: ids_of_def)
  moreover have "ids_of (parked (snd x)) \<subseteq># idle_ids (buckets wp)"
  proof -
    obtain us vs where "buckets wp = us @ x # vs" using assms(3) by (metis split_list)
    then show ?thesis by (simp add: idle_ids_def)
  qed
  ultimately have "c \<in># mset (opened wp)"
    using assms(1) unfolding conn_ok_def by (metis mset_subset_eqD union_iff)
  with assms(2) show False by simp
qed

definition parked_conn :: "dialTask \<Rightarrow> nat \<Rightarrow> instant \<Rightarrow> warm_conn" where
  "parked_conn t c now = \<lparr>wc_id = c, epoch = task_epoch t, created_at = now\<rparr>"

definition park_in :: "warm_conn \<Rightarrow> routeBucket \<Rightarrow> routeBucket" where
  "park_in wc b = (land b)\<lparr>failStreak := 0, backoffUntil := None, parked := parked b @ [wc]\<rparr>"

lemma run_dial_ok_shape:
  fixes wp :: warm_pool and g :: generation and t :: dialTask and c :: nat and now :: instant and h :: heap
  assumes co: "conn_ok wp" and c: "c \<notin> set (opened wp)"
  defines "wp' \<equiv> run_dial_ok g t c now h wp" and "wc \<equiv> parked_conn t c now"
  shows "conn_ok wp' \<and> next_bucket wp' = next_bucket wp \<and> dialing wp' = dialing wp \<and> workers wp' = workers wp \<and>
    (buckets wp' = buckets (on_bucket t land wp) \<or> buckets wp' = buckets (on_bucket t (park_in wc) wp))"
proof -
  let ?w1 = "wp\<lparr>opened := opened wp @ [c]\<rparr>"
  note wc_eq = wc_def [unfolded parked_conn_def]
  have d: "distinct (keys (buckets wp))" using co by (simp add: conn_ok_def)
  have bw1: "buckets (on_bucket t f ?w1) = buckets (on_bucket t f wp)" for f
    by (simp add: on_bucket_def split: option.split)
  have land_conn: "idle_ids (buckets (on_bucket t land wp)) = idle_ids (buckets wp) \<and>
      distinct (keys (buckets (on_bucket t land wp))) \<and>
      (stopped wp \<longrightarrow> (\<forall>x \<in> set (buckets (on_bucket t land wp)). parked (snd x) = []))"
    using on_bucket_conn [OF co, of land t] co by (simp add: conn_ok_def land_def) (metis add_right_cancel)
  consider (refused) k where "wp' = close_wc wc (k (on_bucket t land ?w1))" "k = (\<lambda>w. w\<lparr>generationInvalidated := generationInvalidated ?w1 + 1\<rparr>) \<or>
      k = (\<lambda>w. w\<lparr>discardedOverflow := discardedOverflow ?w1 + 1\<rparr>)"
    | (parked) "\<not> park_refused (warm_cfg g) t ?w1" "wp' = (on_bucket t (park_in wc) ?w1)\<lparr>created := created ?w1 + 1\<rparr>"
    unfolding wp'_def run_dial_ok_def Let_def wc_eq [symmetric] park_in_def [abs_def]
    by (metis (no_types, lifting))
  then show ?thesis
  proof cases
    case (refused k)
    have "conn_ok wp'"
      using refused co c land_conn bw1 by (auto simp: conn_ok_def close_wc_def wc_eq)
    with refused bw1 show ?thesis by (auto simp: close_wc_def)
  next
    case parked
    then obtain b where b: "map_of (buckets wp) (task_p t) = Some b" "b_id b = task_b t" "\<not> stopped wp"
      by (auto simp: park_refused_def split: option.splits)
    have hit: "buckets (on_bucket t (park_in wc) wp) = AList.update (task_p t) (park_in wc b) (buckets wp)"
      using b by (simp add: on_bucket_def)
    note u = update_bucket [OF d b(1), of "park_in wc b"]
    have "idle_ids (AList.update (task_p t) (park_in wc b) (buckets wp)) = add_mset c (idle_ids (buckets wp))"
      by (rule sum_cancel [of _ "ids_of (parked b)"]) (use u(1) in \<open>simp add: park_in_def wc_eq land_def\<close>)
    then have "conn_ok wp'" using parked(2) co c bw1 hit u(3) b(3) by (simp add: conn_ok_def)
    with parked bw1 show ?thesis by simp
  qed
qed

lemma connected_ok:
  assumes ok: "sys_ok s" and air: "inair s = us @ (t, n, g) # vs" and c: "c \<notin> set (opened (wpool s))"
  shows "sys_ok (s\<lparr>wpool := run_dial_ok g t c now h (wpool s), inair := us @ vs,
    landing := landing s + 1, birth := (birth s)(c := n)\<rparr>)"
proof -
  let ?wp = "run_dial_ok g t c now h (wpool s)" and ?wc = "parked_conn t c now"
  have co: "conn_ok (wpool s)" using ok by (simp add: sys_ok_def)
  then have d: "distinct (keys (buckets (wpool s)))" by (simp add: conn_ok_def)
  note main = run_dial_ok_shape [OF co c, of g t now h]
  show ?thesis
  proof (rule landed_ok [OF ok air])
    fix x assume x: "x \<in> set (buckets ?wp)"
    have p: "b_id (park_in wc b) = b_id b" "flying (park_in wc b) = flying b - 1" "pending (park_in wc b) = pending b"
      "parked (park_in wc b) = parked b @ [wc]" "b_id (land b) = b_id b" "flying (land b) = flying b - 1"
      "pending (land b) = pending b" "parked (land b) = parked b" for wc b
      by (simp_all add: park_in_def land_def)
    from main x consider "x \<in> set (buckets (on_bucket t land (wpool s)))"
      | "x \<in> set (buckets (on_bucket t (park_in ?wc) (wpool s)))" by auto
    then show "x \<in> set (buckets (wpool s)) \<and> \<not> (fst x = task_p t \<and> b_id (snd x) = task_b t) \<or>
      (\<exists>b. (task_p t, b) \<in> set (buckets (wpool s)) \<and> b_id b = task_b t \<and> fst x = task_p t \<and>
         b_id (snd x) = b_id b \<and> flying (snd x) = flying b - 1 \<and> pending (snd x) = pending b \<and>
         (\<forall>wc \<in> set (parked (snd x)). wc \<in> set (parked b) \<or>
            epoch wc = task_epoch t \<and> ((birth s)(c := n)) (wc_id wc) = n))"
    proof cases
      case 1
      from on_bucket_mem [OF d this] show ?thesis by (auto simp: p)
    next
      case 2
      from on_bucket_mem [OF d this] show ?thesis
      proof (elim disjE exE)
        fix b assume "(task_p t, b) \<in> set (buckets (wpool s)) \<and> b_id b = task_b t \<and> x = (task_p t, park_in ?wc b)"
        then show ?thesis by (intro disjI2 exI [of _ b]) (auto simp: p parked_conn_def)
      qed simp
    qed
  next
    fix x wc assume "x \<in> set (buckets (wpool s))" "wc \<in> set (parked (snd x))"
    then have "wc_id wc \<noteq> c" using fresh_conn [OF co c] by blast
    then show "((birth s)(c := n)) (wc_id wc) = birth s (wc_id wc)" by simp
  qed (use main in simp_all)
qed


lemma thin_ok:
  assumes ok: "sys_ok s" and conn: "conn_ok wp"
    and same: "next_bucket wp = next_bucket (wpool s)" "dialing wp = dialing (wpool s)"
      "workers wp = workers (wpool s)"
    and bks: "\<And>x. x \<in> set (buckets wp) \<Longrightarrow>
      \<exists>y \<in> set (buckets (wpool s)). fst y = fst x \<and> thinner (snd y) (snd x) \<and> 0 \<le> pending (snd x)"
  shows "sys_ok (s\<lparr>wpool := wp\<rparr>)"
proof -
  have "bucket_ok (s\<lparr>wpool := wp\<rparr>) x" if x: "x \<in> set (buckets wp)" for x
  proof -
    obtain y where y: "y \<in> set (buckets (wpool s))" "fst y = fst x" "thinner (snd y) (snd x)" "0 \<le> pending (snd x)"
      using bks [OF x] by blast
    have "bucket_ok s y" using ok y(1) by (simp add: sys_ok_def)
    with y same show ?thesis by (auto simp: bucket_ok_def thinner_def airborne_def stamped_def)
  qed
  then show ?thesis
    using ok conn same by (simp add: sys_ok_def airborne_def task_ok_def stamped_def busy_def)
qed

lemma sys_pending: "sys_ok s \<Longrightarrow> x \<in> set (buckets (wpool s)) \<Longrightarrow> 0 \<le> pending (snd x)"
  by (simp add: sys_ok_def bucket_ok_def)

lemma update_thin:
  assumes ok: "sys_ok s" and b: "map_of (buckets (wpool s)) p = Some b"
    and x: "x \<in> set (AList.update p b' (buckets (wpool s)))" and "thinner b b'" and "pending b' = pending b"
  shows "\<exists>y \<in> set (buckets (wpool s)). fst y = fst x \<and> thinner (snd y) (snd x) \<and> 0 \<le> pending (snd x)"
proof -
  have d: "distinct (keys (buckets (wpool s)))" using ok by (simp add: sys_ok_def conn_ok_def)
  from x update_bucket(2) [OF d b, of b'] have "x = (p, b') \<or> x \<in> set (buckets (wpool s))" by auto
  then show ?thesis
  proof
    assume "x = (p, b')"
    then show ?thesis using bucket_mem [OF b] assms(4,5) sys_pending [OF ok, of "(p, b)"]
      by (intro bexI [of _ "(p, b)"]) simp_all
  next
    assume "x \<in> set (buckets (wpool s))"
    then show ?thesis using sys_pending [OF ok] by (intro bexI [of _ x]) (auto simp: thinner_def)
  qed
qed

lemma borrow_ok:
  assumes ok: "sys_ok s"
  shows "sys_ok (s\<lparr>wpool := snd (Borrow g po h (wpool s))\<rparr>)"
proof -
  obtain r wp where br: "Borrow g po h (wpool s) = (r, wp)" by fastforce
  have conn: "conn_ok wp" using ok Borrow_conn [OF _ br] by (simp add: sys_ok_def)
  have go: "sys_ok (s\<lparr>wpool := wp\<rparr>)"
    if b: "map_of (buckets (wpool s)) p = Some b" "parked b = wc # rest"
      "buckets wp = AList.update p (b\<lparr>parked := rest\<rparr>) (buckets (wpool s))"
      and same: "next_bucket wp = next_bucket (wpool s)" "dialing wp = dialing (wpool s)"
        "workers wp = workers (wpool s)" for p b wc rest
  proof (rule thin_ok [OF ok conn same])
    fix x assume "x \<in> set (buckets wp)"
    then show "\<exists>y \<in> set (buckets (wpool s)). fst y = fst x \<and> thinner (snd y) (snd x) \<and> 0 \<le> pending (snd x)"
      by (intro update_thin [OF ok b(1), where b' = "b\<lparr>parked := rest\<rparr>"]) (use b in \<open>auto simp: thinner_def\<close>)
  qed
  from br have "sys_ok (s\<lparr>wpool := wp\<rparr>)"
  proof (cases rule: Borrow_cases)
    case miss
    with ok show "sys_ok (s\<lparr>wpool := wp\<rparr>)" by simp
  next
    case (old p b wc rest)
    show "sys_ok (s\<lparr>wpool := wp\<rparr>)" by (rule go [OF old(3,4)]) (simp_all add: old(7) close_wc_def)
  next
    case (hit p b wc rest)
    show "sys_ok (s\<lparr>wpool := wp\<rparr>)" by (rule go [OF hit(3,4)]) (simp_all add: hit(7))
  qed
  then show ?thesis by (simp add: br)
qed

lemma discard_ok:
  assumes ok: "sys_ok s"
  shows "sys_ok (s\<lparr>wpool := DiscardRoute po (wpool s)\<rparr>)"
proof (cases "\<exists>p b. po = Some p \<and> map_of (buckets (wpool s)) p = Some b")
  case False
  then have "DiscardRoute po (wpool s) = wpool s" by (auto simp: DiscardRoute_def split: option.splits)
  with ok show ?thesis by simp
next
  case True
  then obtain p b where b: "po = Some p" "map_of (buckets (wpool s)) p = Some b" by blast
  let ?wp = "DiscardRoute po (wpool s)" and ?b = "b\<lparr>parked := []\<rparr>"
  have co: "conn_ok (wpool s)" using ok by (simp add: sys_ok_def)
  then have d: "distinct (keys (buckets (wpool s)))" by (simp add: conn_ok_def)
  have bk: "buckets ?wp = AList.update p ?b (buckets (wpool s))"
    "mset (closed ?wp) = mset (closed (wpool s)) + ids_of (parked b)"
    "lent ?wp = lent (wpool s)" "opened ?wp = opened (wpool s)" "stopped ?wp = stopped (wpool s)"
    "next_bucket ?wp = next_bucket (wpool s)" "dialing ?wp = dialing (wpool s)" "workers ?wp = workers (wpool s)"
    using b by (simp_all add: DiscardRoute_def Let_def close_all_def ids_of_def)
  note u = update_bucket [OF d b(2), of ?b]
  have "idle_ids (buckets ?wp) + ids_of (parked b) = idle_ids (buckets (wpool s))" using u(1) by (simp add: bk)
  then have "idle_ids (buckets ?wp) + mset (closed ?wp) + mset (lent ?wp) = mset (opened ?wp)"
    using co by (simp add: bk(2-5) conn_ok_def) (metis add.assoc add.commute)
  moreover have "\<forall>x \<in> set (buckets ?wp). parked (snd x) = []" if "stopped (wpool s)"
    using co that u(2) by (auto simp: bk conn_ok_def)
  ultimately have conn: "conn_ok ?wp" using co u(3) by (simp add: conn_ok_def bk)
  show ?thesis
  proof (rule thin_ok [OF ok conn bk(6-8)])
    fix x assume "x \<in> set (buckets ?wp)"
    then show "\<exists>y \<in> set (buckets (wpool s)). fst y = fst x \<and> thinner (snd y) (snd x) \<and> 0 \<le> pending (snd x)"
      by (intro update_thin [OF ok b(2), where b' = ?b]) (simp_all add: bk(1) thinner_def)
  qed
qed

lemma stop_ok:
  assumes ok: "sys_ok s"
  shows "sys_ok (s\<lparr>wpool := Stop (wpool s)\<rparr>)"
proof -
  let ?w = "(wpool s)\<lparr>stopped := True\<rparr>"
  obtain bs wp where st: "stop_buckets (buckets (wpool s)) ?w = (bs, wp)" by fastforce
  have eq: "Stop (wpool s) = wp\<lparr>buckets := bs\<rparr>" using st by (simp add: Stop_def Let_def)
  note m = stop_buckets_moved [OF st]
  have co: "conn_ok (wpool s)" using ok by (simp add: sys_ok_def)
  have k: "keys bs = keys (buckets (wpool s))" using m by (simp add: keys_def comp_def)
  have w: "stopped wp" "opened wp = opened (wpool s)" "lent wp = lent (wpool s)" "dialing wp = dialing (wpool s)"
    "workers wp = workers (wpool s)" "next_bucket wp = next_bucket (wpool s)"
    "idle_ids bs + mset (closed wp) = idle_ids (buckets (wpool s)) + mset (closed (wpool s))"
    using m by (auto simp: moved_def same_pool_def)
  have conn: "conn_ok (wp\<lparr>buckets := bs\<rparr>)" using co k m w by (simp add: conn_ok_def)
  show ?thesis
    unfolding eq
  proof (rule thin_ok [OF ok conn])
    fix x assume "x \<in> set (buckets (wp\<lparr>buckets := bs\<rparr>))"
    then obtain y where "y \<in> set (buckets (wpool s))" "x = (fst y, (snd y)\<lparr>parked := [], pending := 0\<rparr>)"
      using m by auto
    then show "\<exists>y \<in> set (buckets (wpool s)). fst y = fst x \<and> thinner (snd y) (snd x) \<and> 0 \<le> pending (snd x)"
      by (intro bexI [of _ y]) (simp_all add: thinner_def)
  qed (simp_all add: w)
qed


lemma rotate_ok:
  assumes ok: "sys_ok s"
  shows "sys_ok (s\<lparr>whp := upd p (BeginRotation phase) (whp s), rots := (rots s)(p := rots s p + 1)\<rparr>)"
proof -
  let ?s = "s\<lparr>whp := upd p (BeginRotation phase) (whp s), rots := (rots s)(p := rots s p + 1)\<rparr>"
  have st: "stamped s q ep n \<Longrightarrow> stamped ?s q ep n" for q ep n by (auto simp: stamped_def)
  have "bucket_ok ?s x" if "x \<in> set (buckets (wpool s))" for x
    using ok that st by (auto simp: sys_ok_def bucket_ok_def airborne_def)
  moreover have "task_ok ?s y" if "y \<in> set (airborne s)" for y
    using ok that st by (auto simp: sys_ok_def task_ok_def)
  ultimately show ?thesis
    using ok by (auto simp: sys_ok_def BeginRotation_def airborne_def busy_def)
qed

lemma frame_ok:
  assumes "sys_ok s" and "conn_ok wp" and "buckets wp = buckets (wpool s)"
    and "next_bucket wp = next_bucket (wpool s)" and "dialing wp = dialing (wpool s)"
    and "busy s \<le> workers wp"
  shows "sys_ok (s\<lparr>wpool := wp\<rparr>)"
  using assms by (auto simp: sys_ok_def bucket_ok_def task_ok_def airborne_def stamped_def busy_def)

lemma dial_ok:
  assumes ok: "sys_ok s" and "claimed s = us @ (t, n) # vs"
  shows "sys_ok (s\<lparr>wpool := run_dial_start (wpool s), claimed := us @ vs, inair := (t, n, wgen s) # inair s\<rparr>)"
proof -
  let ?s = "s\<lparr>wpool := run_dial_start (wpool s), claimed := us @ vs, inair := (t, n, wgen s) # inair s\<rparr>"
  have air: "mset (airborne ?s) = mset (airborne s)" using assms(2) by (simp add: airborne_def)
  have "tasks_for q i (airborne ?s) = tasks_for q i (airborne s)" for q i by (rule tasks_for_mset [OF air])
  then have "bucket_ok ?s x" if "x \<in> set (buckets (wpool s))" for x
    using ok that by (auto simp: sys_ok_def bucket_ok_def run_dial_start_def stamped_def)
  moreover have "task_ok ?s y" if "y \<in> set (airborne ?s)" for y
    using ok that mset_eq_setD [OF air] by (auto simp: sys_ok_def task_ok_def run_dial_start_def stamped_def)
  moreover have "conn_ok (run_dial_start (wpool s))" using ok by (simp add: sys_ok_def conn_ok_def run_dial_start_def)
  ultimately show ?thesis using ok assms(2) by (simp add: sys_ok_def busy_def run_dial_start_def)
qed

lemma start_ok: "sys_ok s \<Longrightarrow> sys_ok (s\<lparr>wpool := Start (wgen s) (wpool s)\<rparr>)"
proof (rule frame_ok)
  assume ok: "sys_ok s"
  then show "conn_ok (Start (wgen s) (wpool s))" by (simp add: Start_def Let_def sys_ok_def conn_ok_def)
  have "busy s \<le> workers ((wpool s)\<lparr>started := True\<rparr>)" using ok by (simp add: sys_ok_def)
  then show "busy s \<le> workers (Start (wgen s) (wpool s))"
    unfolding Start_def Let_def by (auto intro: order_trans [OF _ reconcile_simps(8)])
qed (simp_all add: Start_def Let_def)

lemma end_ok:
  assumes "sys_ok s" and "0 < landing s"
  shows "sys_ok (s\<lparr>wpool := run_dial_end (wpool s), landing := landing s - 1\<rparr>)"
  using assms by (auto simp: sys_ok_def conn_ok_def run_dial_end_def bucket_ok_def task_ok_def airborne_def
      stamped_def busy_def)

lemma retire_ok:
  assumes "sys_ok s" and "busy s < workers (wpool s)"
  shows "sys_ok (s\<lparr>wpool := snd (retireIfSurplus (wgen s) (wpool s))\<rparr>)"
  by (rule frame_ok [OF assms(1)])
    (use assms in \<open>auto simp: retireIfSurplus_def sys_ok_def conn_ok_def\<close>)

lemma step_ok:
  assumes ok: "sys_ok s" and "warm_step s s'"
  shows "sys_ok s'"
  using assms(2)
proof cases
  case start
  then show ?thesis using start_ok [OF ok] by simp
next
  case (sweeps rng g now)
  have "conn_ok (wpool s)" using ok by (simp add: sys_ok_def)
  from sweep_books [OF this sweeps(2)] show ?thesis using sys_ok_books [OF ok] sweeps(1) by blast
next
  case (claims rng now t wp)
  then show ?thesis using claim_ok [OF ok claims(2-4)] by simp
next
  case retires
  then show ?thesis using retire_ok [OF ok] by simp
next
  case (dials us t n vs)
  then show ?thesis using dial_ok [OF ok dials(2)] by simp
next
  case (fails us t n g vs jit err now)
  then show ?thesis using failed_ok [OF ok fails(2)] by simp
next
  case (connects us t n g vs c now)
  then show ?thesis using connected_ok [OF ok connects(2,3)] by simp
next
  case ends
  then show ?thesis using end_ok [OF ok] by simp
next
  case (borrows g po)
  then show ?thesis using borrow_ok [OF ok] by simp
next
  case (discards po)
  then show ?thesis using discard_ok [OF ok] by simp
next
  case stops
  then show ?thesis using stop_ok [OF ok] by simp
next
  case (reloads g)
  then show ?thesis
    using ok by (simp add: sys_ok_def bucket_ok_def task_ok_def airborne_def stamped_def busy_def)
next
  case (rotates p phase)
  then show ?thesis using rotate_ok [OF ok] by simp
next
  case (serves h)
  then show ?thesis
    using ok by (simp add: sys_ok_def bucket_ok_def task_ok_def airborne_def stamped_def busy_def)
qed

lemma reachable_ok: "warm_reachable s \<Longrightarrow> sys_ok s"
proof (induction rule: warm_reachable.induct)
  case (init s)
  then show ?case by (simp add: warm_init_def sys_ok_def conn_ok_def New_def airborne_def busy_def)
qed (rule step_ok)


section \<open>Properties\<close>


text \<open>A run of one route: start, sweep, claim, dial, connect.\<close>

definition demo_task :: dialTask where
  "demo_task = \<lparr>task_p = 0, task_b = 0, task_epoch = 0\<rparr>"

definition pool_a :: warm_pool where
  "pool_a = New\<lparr>started := True, workers := 2\<rparr>"

definition pool_b :: warm_pool where
  "pool_b = pool_a\<lparr>buckets := [(0, (new_bucket 0)\<lparr>pending := 1\<rparr>)], wake := True, next_bucket := 1\<rparr>"

definition pool_c :: warm_pool where
  "pool_c = pool_b\<lparr>buckets := [(0, (new_bucket 0)\<lparr>flying := 1\<rparr>)]\<rparr>"

definition pool_d :: warm_pool where
  "pool_d = pool_c\<lparr>replenishAttempts := 1, dialing := 1\<rparr>"

definition pool_e :: warm_pool where
  "pool_e = pool_d\<lparr>buckets := [(0, (new_bucket 0)\<lparr>parked := [\<lparr>wc_id = 7, epoch = 0, created_at = 3\<rparr>]\<rparr>)],
     opened := [7], created := 1\<rparr>"

lemmas demo_pools = New_def pool_a_def pool_b_def pool_c_def pool_d_def pool_e_def new_bucket_def demo_task_def

lemma demo_cfg: "warm_cfg (demo_gen n) = WarmPool demo_config" "entries (gen_Pool (demo_gen n)) = [0..<n]"
  by (simp_all add: warm_cfg_def demo_gen_def demo_pool_def)

lemma demo_cell: "rotationEpoch (cells (demo_heap n) p) = 0"
  "replenishEligibleLocked (demo_heap n) now p b \<longleftrightarrow>
     \<not> (authBroken b \<or> (case backoffUntil b of None \<Rightarrow> False | Some t \<Rightarrow> now < t))"
  by (simp_all add: demo_heap_def newProxy_def Let_def replenishEligibleLocked_def CooldownActive_def)

lemma demo_start: "Start (demo_gen 1) New = pool_a"
  by (simp add: Start_def demo_cfg demo_config_def reconcileWorkersLocked_def demo_pools)

lemma demo_sweep: "sweep (\<lambda>bs. bs) (demo_gen 1) 1 (demo_heap 1) pool_a = pool_b"
  by (simp add: sweep_def demo_cfg demo_config_def reconcileWorkersLocked_def demo_pools RoutePointers_def
      sweep_bucket_def trim.simps demo_cell totalIdleLocked_def)

lemma demo_claim: "claimTask (\<lambda>bs. bs) (demo_gen 1) 2 (demo_heap 1) pool_b = (Some demo_task, pool_c)"
  by (simp add: claimTask_def demo_cfg demo_config_def demo_pools claimable_def demo_cell totalIdleLocked_def)

lemma demo_connect: "run_dial_ok (demo_gen 1) demo_task 7 3 (demo_heap 1) (run_dial_start pool_c) = pool_e"
  by (simp add: run_dial_ok_def run_dial_start_def demo_cfg demo_config_def demo_pools demo_cell
      park_refused_def on_bucket_def totalIdleLocked_def land_def)

definition warm0 :: wsys where
  "warm0 = \<lparr>wpool = New, whp = demo_heap 1, wgen = demo_gen 1, claimed = [], inair = [], landing = 0,
     rots = (\<lambda>p. 0), birth = (\<lambda>c. 0)\<rparr>"

definition warm5 :: wsys where
  "warm5 = warm0\<lparr>wpool := pool_e, landing := 1, birth := (\<lambda>c. 0)(7 := 0)\<rparr>"

lemma warm5_reachable: "warm_reachable warm5"
proof -
  have "warm_init warm0" by (simp add: warm_init_def warm0_def demo_cell del: One_nat_def)
  then have 0: "warm_reachable warm0" by (rule warm_reachable.init)
  have 1: "warm_reachable (warm0\<lparr>wpool := pool_a\<rparr>)"
    using warm_reachable.step [OF 0 warm_step.start] by (simp add: warm0_def demo_start del: One_nat_def)
  have 2: "warm_reachable (warm0\<lparr>wpool := pool_b\<rparr>)"
    using warm_reachable.step [OF 1 warm_step.sweeps [where rng = "\<lambda>bs. bs" and g = "demo_gen 1" and now = 1]]
    by (simp add: permutes_def warm0_def demo_sweep del: One_nat_def)
  have 3: "warm_reachable (warm0\<lparr>wpool := pool_c, claimed := [(demo_task, 0)]\<rparr>)"
    using warm_reachable.step [OF 2 warm_step.claims [where rng = "\<lambda>bs. bs" and now = 2 and t = demo_task
        and wp = pool_c]]
    by (simp add: permutes_def warm0_def demo_claim busy_def del: One_nat_def) (simp add: demo_pools)
  have 4: "warm_reachable (warm0\<lparr>wpool := run_dial_start pool_c, claimed := [], inair := [(demo_task, 0, demo_gen 1)]\<rparr>)"
    using warm_reachable.step [OF 3 warm_step.dials [where us = "[]" and t = demo_task and n = 0 and vs = "[]"]]
    by (simp add: warm0_def del: One_nat_def)
  show ?thesis
    using warm_reachable.step [OF 4 warm_step.connects [where us = "[]" and t = demo_task and n = 0
        and g = "demo_gen 1" and vs = "[]" and c = 7 and now = 3]]
    by (simp add: warm0_def warm5_def demo_connect del: One_nat_def) (simp add: demo_pools run_dial_start_def)
qed


text \<open>Claim C18: Rotation isolation. A half connection is lent to a request only while exactly as many rotations of
  its route have begun as when its dial was claimed: it neither straddled a rotation nor was parked before
  one. It was open and had not been lent before. (The epoch is a 64-bit counter, so a route may rotate
  almost \<open>2 ^ 64\<close> times.)\<close>

theorem Borrow_isolated:
  assumes "warm_reachable s" and br: "Borrow g (Some p) (whp s) (wpool s) = (Some wc, wp)"
    and "rots s p < 2 ^ 64"
  shows "birth s (wc_id wc) = rots s p \<and> wc_id wc \<in> set (opened (wpool s)) \<and>
    wc_id wc \<notin> set (closed wp) \<and> wc_id wc \<notin> set (lent (wpool s)) \<and> Enabled (warm_cfg g) \<and>
    \<not> stopped (wpool s)"
  using br
proof (cases rule: Borrow_cases)
  case (hit q b c rest)
  have ok: "sys_ok s" by (rule reachable_ok [OF assms(1)])
  then have co: "conn_ok (wpool s)" by (simp add: sys_ok_def)
  have qp: "q = p" "c = wc" using hit by simp_all
  have mem: "(p, b) \<in> set (buckets (wpool s))" using bucket_mem [OF hit(3)] qp by simp
  have "bucket_ok s (p, b)" using ok mem by (simp add: sys_ok_def)
  then have st: "epoch wc = of_nat (birth s (wc_id wc))" "birth s (wc_id wc) \<le> rots s p"
    using hit(4) qp by (simp_all add: bucket_ok_def stamped_def)
  have "rotationEpoch (cells (whp s) p) = of_nat (rots s p)" using ok by (simp add: sys_ok_def)
  with st(1) hit(5) qp have "(of_nat (birth s (wc_id wc)) :: u64) = of_nat (rots s p)" by simp
  then have "birth s (wc_id wc) mod 2 ^ 64 = rots s p mod 2 ^ 64"
    by (simp add: word_of_nat_eq_iff take_bit_eq_mod)
  then have "birth s (wc_id wc) = rots s p" using st(2) assms(3) by simp
  moreover have "wc_id wc \<in># idle_ids (buckets (wpool s))"
  proof -
    obtain us vs where "buckets (wpool s) = us @ (p, b) # vs" using mem by (metis split_list)
    then show ?thesis using hit(4) qp by simp
  qed
  moreover have "closed wp = closed (wpool s)" "\<not> stopped (wpool s)"
    using hit mem qp co by (auto simp: conn_ok_def)
  moreover have "wc_id wc \<in> set (opened (wpool s)) \<and> wc_id wc \<notin> set (closed (wpool s)) \<and>
      wc_id wc \<notin> set (lent (wpool s))" if idle: "wc_id wc \<in># idle_ids (buckets (wpool s))"
  proof -
    let ?i = "wc_id wc"
    have eq: "idle_ids (buckets (wpool s)) + mset (closed (wpool s)) + mset (lent (wpool s)) = mset (opened (wpool s))"
      and d: "distinct (opened (wpool s))" using co by (simp_all add: conn_ok_def)
    have "count (mset (opened (wpool s))) ?i =
        count (idle_ids (buckets (wpool s))) ?i + count (mset (closed (wpool s))) ?i + count (mset (lent (wpool s))) ?i"
      by (simp add: eq [symmetric])
    moreover have "count (mset (opened (wpool s))) ?i \<le> 1" using d by (simp add: distinct_count_atmost_1)
    moreover have "0 < count (idle_ids (buckets (wpool s))) ?i" using idle by simp
    ultimately have "count (mset (opened (wpool s))) ?i = 1" "count (mset (closed (wpool s))) ?i = 0"
      "count (mset (lent (wpool s))) ?i = 0" by linarith+
    then show ?thesis by (metis count_eq_zero_iff set_mset_mset zero_neq_one)
  qed
  ultimately show ?thesis using hit(2) by simp
qed simp_all


theorem Borrow_isolated_witness:
  "\<exists>wc wp. Borrow (demo_gen 1) (Some 0) (whp warm5) (wpool warm5) = (Some wc, wp) \<and>
     birth warm5 (wc_id wc) = rots warm5 0 \<and> wc_id wc \<in> set (opened (wpool warm5))"
proof -
  have "fst (Borrow (demo_gen 1) (Some 0) (whp warm5) (wpool warm5)) \<noteq> None"
    by (simp add: Borrow_def demo_cfg demo_config_def warm5_def warm0_def demo_pools demo_cell)
  then obtain wc wp where br: "Borrow (demo_gen 1) (Some 0) (whp warm5) (wpool warm5) = (Some wc, wp)"
    by (cases "Borrow (demo_gen 1) (Some 0) (whp warm5) (wpool warm5)") auto
  have "rots warm5 0 < 2 ^ 64"
    by (simp add: warm5_def warm0_def)
  from Borrow_isolated [OF warm5_reachable br this] br show ?thesis by blast
qed


lemma sum_pending_nonneg:
  "(\<And>x. x \<in> set bs \<Longrightarrow> 0 \<le> pending (snd x)) \<Longrightarrow> 0 \<le> (\<Sum>x\<leftarrow>bs. pending (snd x))"
  by (induction bs) auto

text \<open>Claim C19: What one sweep establishes, for the generation that it loaded. The buckets are those of its routes; every connection left parked is
  of its route's current rotation epoch and within its idle lifetime, and no bucket exceeds its bound; a
  disabled pool parks nothing; and in an enabled pool every route that may be replenished is owed its
  minimum, parked, scheduled or in the air, unless the total bound has been reached.\<close>

theorem sweep_bounds:
  assumes "warm_reachable s" and perm: "permutes rng" and on: "\<not> stopped (wpool s)"
    and wp: "sweep rng g now (whp s) (wpool s) = wp"
  shows "set (keys (buckets wp)) = set (entries (gen_Pool g)) \<and>
    (\<forall>x \<in> set (buckets wp). \<forall>wc \<in> set (parked (snd x)).
       epoch wc = rotationEpoch (cells (whp s) (fst x)) \<and> now - created_at wc \<le> IdleTTL (warm_cfg g)) \<and>
    (0 \<le> MaxIdlePerProxy (warm_cfg g) \<longrightarrow>
       (\<forall>x \<in> set (buckets wp). int (length (parked (snd x))) \<le> MaxIdlePerProxy (warm_cfg g))) \<and>
    (if Enabled (warm_cfg g)
     then (\<forall>x \<in> set (buckets wp). replenishEligibleLocked (whp s) now (fst x) (snd x) \<longrightarrow>
             MinIdlePerProxy (warm_cfg g) \<le> int (length (parked (snd x))) + pending (snd x) + flying (snd x)) \<or>
          MaxTotalIdle (warm_cfg g) \<le> totalIdleLocked (buckets wp) + (\<Sum>x\<leftarrow>buckets wp. pending (snd x))
     else \<forall>x \<in> set (buckets wp). parked (snd x) = [])"
proof (rule sweep_stages [OF on perm, where gen = "g" and now = now and h = "whp s"])
  let ?cfg = "warm_cfg g"
  fix bs wp1
  assume ks: "set (keys bs) = set (entries (gen_Pool g))"
    and der: "\<And>x. x \<in> set bs \<Longrightarrow> derived (wpool s) wp1 x"
    and cur: "\<And>x wc. x \<in> set bs \<Longrightarrow> wc \<in> set (parked (snd x)) \<Longrightarrow>
       epoch wc = rotationEpoch (cells (whp s) (fst x)) \<and> now - created_at wc \<le> IdleTTL ?cfg"
    and bnd: "\<And>x. x \<in> set bs \<Longrightarrow> 0 \<le> MaxIdlePerProxy ?cfg \<Longrightarrow>
       int (length (parked (snd x))) \<le> MaxIdlePerProxy ?cfg"
    and sw: "sweep rng g now (whp s) (wpool s) =
       (if \<not> Enabled ?cfg then (let (bs, wp) = drain_buckets bs wp1 in wp\<lparr>buckets := bs\<rparr>)
        else (let (bs, tot, wk) = schedule ?cfg now (whp s) (rng bs) (totalIdleLocked bs) (wake wp1);
                  wp = wp1\<lparr>buckets := bs, wake := wk\<rparr>
              in if started wp then reconcileWorkersLocked (MaxReplenishConcurrency ?cfg) wp else wp))"
  show ?thesis
  proof (cases "Enabled ?cfg")
    case False
    obtain bs2 wp2 where dr: "drain_buckets bs wp1 = (bs2, wp2)" by fastforce
    note m = drain_buckets_moved [OF dr]
    have "buckets wp = bs2" using sw wp False dr by auto
    moreover have "keys bs2 = keys bs" using m by (simp add: keys_def comp_def)
    ultimately show ?thesis using m ks False by auto
  next
    case True
    obtain bs2 tot wk where sc: "schedule ?cfg now (whp s) (rng bs) (totalIdleLocked bs) (wake wp1) = (bs2, tot, wk)"
      by (metis prod_cases3)
    note m = schedule_spec [OF sc]
    have mr: "mset (rng bs) = mset bs" using perm by (simp add: permutes_def)
    have sr: "set (rng bs) = set bs" using mr by (metis set_mset_mset)
    have bw: "buckets wp = bs2" using sw wp True sc by (auto simp: Let_def split: if_splits)
    have k: "set (keys bs2) = set (keys bs)" using m sr by (simp add: keys_def)
    have src: "\<exists>x \<in> set bs. fst y = fst x \<and> parked (snd y) = parked (snd x)" if "y \<in> set bs2" for y
      using all2_ball [of _ "rng bs" bs2] m that sr by fastforce
    have "0 \<le> pending (snd x)" if "x \<in> set (rng bs)" for x
      using der [of x] that sr reachable_ok [OF assms(1)]
      by (fastforce simp: derived_def sys_ok_def bucket_ok_def)
    then have "0 \<le> (\<Sum>x\<leftarrow>rng bs. pending (snd x))" by (rule sum_pending_nonneg)
    moreover have "totalIdleLocked bs2 = totalIdleLocked bs"
      using m schedule_idle [of "rng bs" bs2] idle_ids_mset(2) [OF mr] by simp
    ultimately have "(\<forall>x \<in> set bs2. replenishEligibleLocked (whp s) now (fst x) (snd x) \<longrightarrow>
             MinIdlePerProxy ?cfg \<le> int (length (parked (snd x))) + pending (snd x) + flying (snd x)) \<or>
          MaxTotalIdle ?cfg \<le> totalIdleLocked bs2 + (\<Sum>x\<leftarrow>bs2. pending (snd x))"
      using m by (cases "tot < MaxTotalIdle ?cfg") auto
    then show ?thesis using bw k ks True src cur bnd by (simp add: bw) (metis (no_types, lifting))
  qed
qed

theorem sweep_bounds_witness:
  "\<exists>wp. sweep (\<lambda>bs. bs) (demo_gen 1) 9 (demo_heap 1) (wpool warm5) = wp \<and>
     set (keys (buckets wp)) = {0} \<and> (\<forall>x \<in> set (buckets wp). int (length (parked (snd x))) \<le> 2)"
proof -
  have "\<not> stopped (wpool warm5)" "wgen warm5 = demo_gen 1" "whp warm5 = demo_heap 1"
    by (simp_all add: warm5_def warm0_def demo_pools)
  then show ?thesis
    using sweep_bounds [OF warm5_reachable, of "\<lambda>bs. bs" "demo_gen 1" 9] by (simp add: permutes_def demo_cfg demo_config_def)
qed

section \<open>Reservations of earlier sweeps\<close>

text \<open>
  The total bound is checked against parked connections only: a reservation an earlier sweep made does
  not count once it is pending or in the air. Two routes, a total bound of one, and two sweeps with a
  claim between them leave two connections owed.
\<close>

definition tight_gen :: generation where
  "tight_gen = (demo_gen 2)\<lparr>gen_Config := demo_config\<lparr>WarmPool := (WarmPool demo_config)\<lparr>MaxTotalIdle := 1\<rparr>\<rparr>\<rparr>"

definition owed :: "warm_pool \<Rightarrow> int" where
  "owed wp = totalIdleLocked (buckets wp) + (\<Sum>x\<leftarrow>buckets wp. pending (snd x) + flying (snd x))"

lemma sweep_overbooks:
  "MaxTotalIdle (warm_cfg tight_gen) <
     owed (sweep (\<lambda>bs. bs) tight_gen 3 (demo_heap 2)
       (snd (claimTask (\<lambda>bs. bs) tight_gen 2 (demo_heap 2)
          (sweep (\<lambda>bs. bs) tight_gen 1 (demo_heap 2) pool_a))))"
proof -
  have cfg: "warm_cfg tight_gen = (WarmPool demo_config)\<lparr>MaxTotalIdle := 1\<rparr>" "entries (gen_Pool tight_gen) = [0, 1]"
    by (simp_all add: tight_gen_def warm_cfg_def demo_gen_def demo_pool_def upt_rec)
  define w1 where "w1 = pool_a\<lparr>buckets := [(0, (new_bucket 0)\<lparr>pending := 1\<rparr>), (1, new_bucket 1)], wake := True,
      next_bucket := 2\<rparr>"
  define w2 where "w2 = w1\<lparr>buckets := [(0, (new_bucket 0)\<lparr>flying := 1\<rparr>), (1, new_bucket 1)]\<rparr>"
  have 1: "sweep (\<lambda>bs. bs) tight_gen 1 (demo_heap 2) pool_a = w1"
    by (simp add: sweep_def cfg demo_config_def reconcileWorkersLocked_def demo_pools RoutePointers_def
        sweep_bucket_def trim.simps demo_cell totalIdleLocked_def w1_def)
  have 2: "claimTask (\<lambda>bs. bs) tight_gen 2 (demo_heap 2) w1 = (Some demo_task, w2)"
    by (simp add: claimTask_def cfg demo_config_def demo_pools claimable_def demo_cell totalIdleLocked_def w1_def w2_def)
  have 3: "owed (sweep (\<lambda>bs. bs) tight_gen 3 (demo_heap 2) w2) = 2"
    by (simp add: sweep_def cfg demo_config_def reconcileWorkersLocked_def demo_pools RoutePointers_def
        sweep_bucket_def trim.simps demo_cell totalIdleLocked_def w1_def w2_def owed_def)
  show ?thesis by (simp add: 1 2 3 cfg)
qed

end
