(* ===== verification/Probe.thy ===== *)
theory Probe
  imports Socks Sanitize
begin

text \<open>
  Observing a route's egress address and calling its provider (internal/rotation/probe.go).

  What the Go libraries do on the wire is a parameter: \<open>probe_net\<close> holds \<^verbatim>\<open>url.Parse\<close> and
  \<^verbatim>\<open>RequestURI\<close>, the dialer seam \<^verbatim>\<open>e.dial\<close>, the deadline call, the TLS handshake (which
  verifies the certificate for the server name it is given), the write of the request and the
  response \<^verbatim>\<open>net/http\<close> reads; \<open>api_net\<close> holds the request constructor and
  \<^verbatim>\<open>client.Do\<close>. Everything the program decides from their answers is written out.
\<close>

section \<open>The egress address of a response\<close>

definition newline :: char where
  "newline = chr 10"

fun parse_ip_lines :: "string list \<Rightarrow> string" where
  "parse_ip_lines [] = []"
| "parse_ip_lines (l # ls) =
     (let line = TrimSpace l in
      if HasPrefix line ''ip='' then
        (let value = TrimSpace (drop 3 line) in if ParseIP value = None then [] else value)
      else parse_ip_lines ls)"

definition parseIPLine :: "string \<Rightarrow> string" where
  "parseIPLine body = parse_ip_lines (split_on newline body)"

section \<open>The probe\<close>

datatype probe_error = ErrProbe string | DialFailed dial_error

record probe_net =
  pn_parse :: "string \<Rightarrow> url option"
  pn_request_uri :: "url \<Rightarrow> string"
  pn_dial :: "url \<Rightarrow> target \<Rightarrow> duration \<Rightarrow> dial_error + net_conn"
  pn_set_deadline :: "net_conn \<Rightarrow> instant \<Rightarrow> bool"
  pn_handshake :: "net_conn \<Rightarrow> string \<Rightarrow> bool"
  pn_send :: "net_conn \<Rightarrow> string \<Rightarrow> bool"
  pn_status :: "net_conn \<Rightarrow> int option"
  pn_body :: "net_conn \<Rightarrow> string \<times> bool"

definition crlf :: string where
  "crlf = [chr 13, chr 10]"

definition probe_request :: "url \<Rightarrow> string \<Rightarrow> string" where
  "probe_request checkURL uri =
     ''GET '' @ uri @ '' HTTP/1.1'' @ crlf @
     ''Host: '' @ url_Host checkURL @ crlf @
     ''User-Agent: rotation-proxy-gateway'' @ crlf @
     ''Accept: */*'' @ crlf @
     ''Connection: close'' @ crlf @ crlf"

definition body_limit :: nat where
  "body_limit = 65536"

text \<open>
  \<^verbatim>\<open>io.ReadAll\<close> of a limited reader: the bytes the body delivers before its end, cut at the
  limit; an error of the stream is seen only when it comes before the limit.
\<close>

definition read_limited :: "string \<times> bool \<Rightarrow> string option" where
  "read_limited b =
     (if snd b \<and> length (fst b) < body_limit then None else Some (take body_limit (fst b)))"

definition probe_deadline :: "instant \<Rightarrow> duration \<Rightarrow> instant option \<Rightarrow> instant" where
  "probe_deadline start timeout ctx_deadline =
     (let deadline = start + timeout in
      case ctx_deadline of None \<Rightarrow> deadline | Some dl \<Rightarrow> if dl < deadline then dl else deadline)"

definition probeIP ::
  "probe_net \<Rightarrow> string \<Rightarrow> url \<Rightarrow> instant \<Rightarrow> instant option \<Rightarrow> duration \<Rightarrow> probe_error + string" where
  "probeIP net check_url route start ctx_deadline timeout =
     (case pn_parse net check_url of
        None \<Rightarrow> Inl (ErrProbe ''ip-check-url is not parseable'')
      | Some checkURL \<Rightarrow>
          if url_Host checkURL = [] then Inl (ErrProbe ''ip-check-url is not parseable'')
          else
            (let hostPort = (if url_Port checkURL = [] then JoinHostPort (Hostname checkURL) ''443''
                             else url_Host checkURL) in
             case TargetFromAddr hostPort of
               None \<Rightarrow> Inl (ErrProbe ''ip-check endpoint address is not usable'')
             | Some t \<Rightarrow>
                 (case pn_dial net route t timeout of
                    Inl e \<Rightarrow> Inl (DialFailed e)
                  | Inr c \<Rightarrow>
                      if \<not> pn_set_deadline net c (probe_deadline start timeout ctx_deadline)
                        then Inl (ErrProbe ''setting ip-check deadline failed'')
                      else if \<not> pn_handshake net c (Hostname checkURL)
                        then Inl (ErrProbe ''TLS handshake with ip-check endpoint failed'')
                      else if \<not> pn_send net c (probe_request checkURL (pn_request_uri net checkURL))
                        then Inl (ErrProbe ''sending ip-check request failed'')
                      else
                        (case pn_status net c of
                           None \<Rightarrow> Inl (ErrProbe ''reading ip-check response failed'')
                         | Some status \<Rightarrow>
                             (case read_limited (pn_body net c) of
                                None \<Rightarrow> Inl (ErrProbe ''reading ip-check body failed'')
                              | Some body \<Rightarrow>
                                  if status \<noteq> 200
                                    then Inl (ErrProbe (''ip-check endpoint returned status '' @ Itoa status))
                                  else
                                    (let ip = parseIPLine body in
                                     if ip = [] then Inl (ErrProbe ''ip-check response has no usable ip= entry'')
                                     else Inr ip))))))"

section \<open>The rotate call\<close>

text \<open>\<^verbatim>\<open>Header.Set\<close> stores under the canonical form of the name.\<close>

definition token_byte :: "char \<Rightarrow> bool" where
  "token_byte c \<longleftrightarrow> is_digit c \<or> is_lower c \<or> is_upper c \<or> c \<in> set ''!#$%&*+-.^_`|~'' \<or> ord c = 39"

definition upper_char :: "char \<Rightarrow> char" where
  "upper_char c = (if is_lower c then chr (ord c - 32) else c)"

fun capitalize :: "bool \<Rightarrow> string \<Rightarrow> string" where
  "capitalize upper [] = []"
| "capitalize upper (c # s) =
     (if upper then upper_char c else lower_char c) # capitalize (c = CHR ''-'') s"

definition CanonicalHeaderKey :: "string \<Rightarrow> string" where
  "CanonicalHeaderKey name = (if list_all token_byte name then capitalize True name else name)"

record http_request =
  rq_Method :: string
  rq_URL :: string
  rq_Header :: "(string \<times> string) list"
  rq_Body :: "string option"

definition set_headers :: "(string \<times> string) list \<Rightarrow> (string \<times> string) list" where
  "set_headers hs = foldl (\<lambda>m (name, value). AList.update (CanonicalHeaderKey name) value m) [] hs"

definition rotate_request :: "rotate_api \<Rightarrow> http_request" where
  "rotate_request api =
     \<lparr>rq_Method = api_Method api, rq_URL = api_URL api, rq_Header = set_headers (api_Headers api),
      rq_Body = (if api_Body api \<noteq> [] then Some (api_Body api) else None)\<rparr>"

text \<open>A failed call is a \<^verbatim>\<open>*url.Error\<close> (its operation and its cause) or some other error.\<close>

datatype api_result = CallFailed "(string \<times> string) option" | Responded int string

record api_net =
  an_request_ok :: "string \<Rightarrow> string \<Rightarrow> bool"
  an_do :: "http_request \<Rightarrow> duration \<Rightarrow> api_result"

definition parseRetryAfter :: "string \<Rightarrow> duration" where
  "parseRetryAfter value =
     (case Atoi (TrimSpace value) of
        None \<Rightarrow> 0
      | Some seconds \<Rightarrow> if seconds \<le> 0 then 0 else wrap64 (seconds * second))"

definition callRotateAPI :: "api_net \<Rightarrow> rotate_api \<Rightarrow> duration \<times> string option" where
  "callRotateAPI net api =
     (if \<not> an_request_ok net (api_Method api) (api_URL api)
      then (0, Some ''building the rotate API request failed'')
      else
        (case an_do net (rotate_request api) (api_Timeout api) of
           CallFailed (Some (op, cause)) \<Rightarrow>
             (0, Some (''rotate API '' @ ToLower op @ '' failed: '' @ ErrorString (Some cause)))
         | CallFailed None \<Rightarrow> (0, Some ''rotate API call failed'')
         | Responded status retry_after \<Rightarrow>
             if 200 \<le> status \<and> status < 300 then (0, None)
             else if status = 429
               then (parseRetryAfter retry_after, Some (''rotate API returned status '' @ Itoa status))
             else (0, Some (''rotate API returned status '' @ Itoa status))))"

section \<open>What a probe may return\<close>

lemma TrimSpace_idem [simp]: "TrimSpace (TrimSpace s) = TrimSpace s"
proof -
  have d: "dropWhile P (dropWhile P xs) = dropWhile P xs" for P :: "char \<Rightarrow> bool" and xs
    by (induction xs) auto
  define u where "u = dropWhile is_space s"
  define v where "v = dropWhile is_space (rev u)"
  have "dropWhile is_space (rev v) = rev v"
  proof (cases "rev v")
    case (Cons c r)
    have "u = rev v @ rev (takeWhile is_space (rev u))"
      unfolding v_def by (metis rev_append rev_rev_ident takeWhile_dropWhile_id)
    with Cons have "hd u = c" "u \<noteq> []" by (metis append_Cons list.sel(1), metis append_Cons list.distinct(1))
    then have "\<not> is_space c" unfolding u_def by (metis hd_dropWhile)
    with Cons show ?thesis by simp
  qed simp
  then show ?thesis by (simp add: TrimSpace_def d v_def u_def)
qed

lemma parse_ip_lines_iff:
  "parse_ip_lines ls = v \<and> v \<noteq> [] \<longleftrightarrow>
     (\<exists>pre l post. ls = pre @ l # post \<and> (\<forall>x \<in> set pre. \<not> HasPrefix (TrimSpace x) ''ip='') \<and>
        HasPrefix (TrimSpace l) ''ip='' \<and> v = TrimSpace (drop 3 (TrimSpace l)) \<and> ParseIP v \<noteq> None)"
  (is "?L ls \<longleftrightarrow> ?R ls")
proof (induction ls)
  case (Cons x ls)
  show ?case
  proof (cases "HasPrefix (TrimSpace x) ''ip=''")
    case True
    have nil: "ParseIP [] = None" by (simp add: ParseIP_def)
    have "?R (x # ls) \<longleftrightarrow> v = TrimSpace (drop 3 (TrimSpace x)) \<and> ParseIP v \<noteq> None"
    proof
      assume "v = TrimSpace (drop 3 (TrimSpace x)) \<and> ParseIP v \<noteq> None"
      then show "?R (x # ls)"
        using True by - (rule exI [of _ "[]"], rule exI [of _ x], rule exI [of _ ls], auto)
    qed (use True in \<open>auto simp: Cons_eq_append_conv\<close>)
    then show ?thesis using True nil by (auto simp: Let_def)
  next
    case False
    have "?R (x # ls) \<longleftrightarrow> ?R ls"
    proof
      assume "?R (x # ls)"
      then obtain pre l post where r: "x # ls = pre @ l # post"
        "\<forall>x \<in> set pre. \<not> HasPrefix (TrimSpace x) ''ip=''" "HasPrefix (TrimSpace l) ''ip=''"
        "v = TrimSpace (drop 3 (TrimSpace l))" "ParseIP v \<noteq> None" by blast
      with False obtain pre' where "pre = x # pre'" by (cases pre) auto
      with r show "?R ls" by (intro exI [of _ pre'] exI [of _ l] exI [of _ post]) simp
    next
      assume "?R ls"
      then obtain pre l post where "ls = pre @ l # post"
        "\<forall>x \<in> set pre. \<not> HasPrefix (TrimSpace x) ''ip=''" "HasPrefix (TrimSpace l) ''ip=''"
        "v = TrimSpace (drop 3 (TrimSpace l))" "ParseIP v \<noteq> None" by blast
      with False show "?R (x # ls)" by (intro exI [of _ "x # pre"] exI [of _ l] exI [of _ post]) simp
    qed
    with Cons False show ?thesis by simp
  qed
qed simp

lemma probeIP_literal: "probeIP net cu route start dl tmo = Inr ip \<Longrightarrow> ParseIP ip \<noteq> None"
  using parse_ip_lines_iff [of _ ip]
  by (auto simp: probeIP_def parseIPLine_def Let_def split: option.splits if_splits sum.splits)

text \<open>Claim C27: an egress address is only ever learned from a verified endpoint. A probe that
  reports an address dialed the route with the check endpoint's own host and port, gave the
  socket a deadline no later than its budget and the context's deadline, verified TLS for the
  endpoint's host name whatever the gateway's target setting, got status 200, and read the
  address from the first \<^verbatim>\<open>ip=\<close> line within the body limit; the address is a literal, so junk
  never enters rotation state.\<close>

theorem probeIP_trusted:
  assumes "probeIP net cu route start ctxd tmo = Inr ip"
  shows "\<exists>u t c d body pre l post. pn_parse net cu = Some u \<and> url_Host u \<noteq> [] \<and>
    TargetFromAddr (if url_Port u = [] then JoinHostPort (Hostname u) ''443'' else url_Host u) = Some t \<and>
    pn_dial net route t tmo = Inr c \<and>
    d \<le> start + tmo \<and> (\<forall>dl. ctxd = Some dl \<longrightarrow> d \<le> dl) \<and> pn_set_deadline net c d \<and>
    pn_handshake net c (Hostname u) \<and> pn_status net c = Some 200 \<and>
    body = take body_limit (fst (pn_body net c)) \<and>
    (snd (pn_body net c) \<longrightarrow> body_limit \<le> length (fst (pn_body net c))) \<and>
    split_on newline body = pre @ l # post \<and>
    (\<forall>x \<in> set pre. \<not> HasPrefix (TrimSpace x) ''ip='') \<and>
    (\<exists>v. TrimSpace l = ''ip='' @ v \<and> ip = TrimSpace v) \<and> ParseIP ip \<noteq> None"
proof -
  obtain u t c body where u: "pn_parse net cu = Some u" "url_Host u \<noteq> []"
    and t: "TargetFromAddr (if url_Port u = [] then JoinHostPort (Hostname u) ''443'' else url_Host u) = Some t"
    and c: "pn_dial net route t tmo = Inr c" "pn_set_deadline net c (probe_deadline start tmo ctxd)"
      "pn_handshake net c (Hostname u)" "pn_status net c = Some 200"
    and b: "read_limited (pn_body net c) = Some body" "parseIPLine body = ip" "ip \<noteq> []"
    using assms by (auto simp: probeIP_def Let_def split: option.splits if_splits sum.splits)
  obtain pre l post where l: "split_on newline body = pre @ l # post"
    "\<forall>x \<in> set pre. \<not> HasPrefix (TrimSpace x) ''ip=''" "HasPrefix (TrimSpace l) ''ip=''"
    "ip = TrimSpace (drop 3 (TrimSpace l))" "ParseIP ip \<noteq> None"
    using parse_ip_lines_iff [of "split_on newline body" ip] b(2,3) unfolding parseIPLine_def by blast
  have d: "probe_deadline start tmo ctxd \<le> start + tmo" "\<forall>dl. ctxd = Some dl \<longrightarrow> probe_deadline start tmo ctxd \<le> dl"
    by (auto simp: probe_deadline_def Let_def split: option.split)
  have "body = take body_limit (fst (pn_body net c)) \<and>
      (snd (pn_body net c) \<longrightarrow> body_limit \<le> length (fst (pn_body net c)))"
    using b(1) by (auto simp: read_limited_def split: if_splits)
  moreover have "\<exists>v. TrimSpace l = ''ip='' @ v \<and> ip = TrimSpace v"
    using l(3,4) by (auto simp: HasPrefix_iff)
  ultimately show ?thesis using u t c d l(1,2,5) by blast
qed

definition demo_check :: url where
  "demo_check = \<lparr>Scheme = ''https'', User = None, url_Host = ''chk'', Path = ''/t'', RawQuery = [], Fragment = []\<rparr>"

definition demo_net :: "string \<Rightarrow> probe_net" where
  "demo_net ip =
     \<lparr>pn_parse = (\<lambda>_. Some demo_check), pn_request_uri = (\<lambda>_. ''/t''),
      pn_dial = (\<lambda>_ t _. if Host t = ''chk'' \<and> Port t = 443 then Inr (RawConn (demo_sock []))
                         else Inl (ProxyDialError ''other'')),
      pn_set_deadline = (\<lambda>_ d. d \<le> 10), pn_handshake = (\<lambda>_ h. h = ''chk''), pn_send = (\<lambda>_ _. True),
      pn_status = (\<lambda>_. Some 200), pn_body = (\<lambda>_. (''a=b'' @ [newline] @ ''ip= '' @ ip @ [newline], False))\<rparr>"

lemma demo_parts:
  "parseIPLine (''a=b'' @ [newline] @ ''ip= '' @ ''::1'' @ [newline]) = ''::1''"
  "url_Host demo_check = ''chk''" "url_Port demo_check = []" "Hostname demo_check = ''chk''"
  "TargetFromAddr (JoinHostPort ''chk'' ''443'') = Some \<lparr>Host = ''chk'', Port = 443, Type = AddrDomain\<rparr>"
  by code_simp+

theorem probeIP_trusted_witness:
  "\<exists>u t. pn_parse (demo_net ''::1'') ''x'' = Some u \<and>
     TargetFromAddr (JoinHostPort (Hostname u) ''443'') = Some t \<and> ParseIP ''::1'' \<noteq> None"
proof -
  have "probeIP (demo_net ''::1'') ''x'' demo_check 0 (Some 7) 5 = Inr ''::1''"
    using demo_parts
    by (simp add: probeIP_def demo_net_def read_limited_def probe_deadline_def body_limit_def)
  from probeIP_trusted [OF this] obtain u t where u: "pn_parse (demo_net ''::1'') ''x'' = Some u"
    and t: "TargetFromAddr (if url_Port u = [] then JoinHostPort (Hostname u) ''443'' else url_Host u) = Some t"
    and ip: "ParseIP ''::1'' \<noteq> None" by blast
  from u have "u = demo_check" by (simp add: demo_net_def)
  with t have "TargetFromAddr (JoinHostPort (Hostname u) ''443'') = Some t" by (simp add: demo_parts)
  with u ip show ?thesis by blast
qed

end
