(* ===== verification/Frame.thy ===== *)
theory Frame
  imports Probe
begin

text \<open>
  The inbound bytes of one client connection (internal/proxyserver/http.go): the framing of the
  header block, the explicit Host field, the version test, the header map operations, the removal
  of the gateway's control headers, and the base64 of \<^verbatim>\<open>Proxy-Authorization\<close>.

  A connection is read as the string of all bytes the client sends before its read side fails
  (end of file, reset or the handshake deadline).
\<close>

section \<open>Reading the header block\<close>

definition inboundBufSize :: nat where
  "inboundBufSize = 4 * 1024"

definition maxInboundHeaderBytes :: nat where
  "maxInboundHeaderBytes = 1024 * 1024"

datatype read_error = ErrBufferFull | ReadFailed

text \<open>\<^verbatim>\<open>bufio.Reader.ReadSlice\<close> at the newline: the slice, its error, and what is left to read.\<close>

definition ReadSlice :: "string \<Rightarrow> string \<times> read_error option \<times> string" where
  "ReadSlice input =
     (let (a, b, found) = Cut input newline in
      if found \<and> length a < inboundBufSize then (a @ [newline], None, b)
      else if inboundBufSize \<le> length input
        then (take inboundBufSize input, Some ErrBufferFull, drop inboundBufSize input)
      else (input, Some ReadFailed, []))"

datatype frame_error = HeaderTooLong | HeaderCut

definition ends_block :: "string \<Rightarrow> bool" where
  "ends_block header \<longleftrightarrow> HasSuffix header (crlf @ crlf)"

lemma ReadSlice_split: "ReadSlice input = (line, err, rest) \<Longrightarrow> input = line @ rest"
  by (auto simp: ReadSlice_def Let_def Cut_found split: prod.splits if_splits)

lemma ReadSlice_shrinks:
  assumes "ReadSlice input = (line, err, rest)" and "err \<noteq> Some ReadFailed"
  shows "length rest < length input"
proof -
  have "0 < inboundBufSize" by (simp add: inboundBufSize_def)
  then have "line \<noteq> []"
    using assms by (auto simp: ReadSlice_def Let_def split: prod.splits if_splits)
  then show ?thesis using ReadSlice_split [OF assms(1)] by simp
qed

function read_header :: "string \<Rightarrow> string \<Rightarrow> frame_error + string \<times> string" where
  "read_header header input =
     (let (line, err, rest) = ReadSlice input; header = header @ line in
      if maxInboundHeaderBytes < length header then Inl HeaderTooLong
      else if err = Some ReadFailed then Inl HeaderCut
      else if ends_block header then Inr (header, rest)
      else read_header header rest)"
  by pat_completeness auto
termination
  by (relation "measure (\<lambda>(header, input). length input)") (auto dest: ReadSlice_shrinks [OF sym])

declare read_header.simps [simp del]

definition readHTTPHeader :: "string \<Rightarrow> frame_error + string \<times> string" where
  "readHTTPHeader input = read_header [] input"

section \<open>Fields of the header block\<close>

text \<open>Up to the first CRLF and after it (\<^verbatim>\<open>bytes.Index\<close>).\<close>

fun cut_crlf :: "string \<Rightarrow> (string \<times> string) option" where
  "cut_crlf [] = None"
| "cut_crlf (c # s) =
     (if HasPrefix (c # s) crlf then Some ([], drop 2 (c # s))
      else (case cut_crlf s of None \<Rightarrow> None | Some (a, b) \<Rightarrow> Some (c # a, b)))"

lemma cut_crlf_Some: "cut_crlf s = Some (a, b) \<Longrightarrow> s = a @ crlf @ b"
proof (induction s arbitrary: a)
  case (Cons c s)
  show ?case
  proof (cases "HasPrefix (c # s) crlf")
    case True
    then show ?thesis using Cons.prems by (auto simp: HasPrefix_iff crlf_def)
  next
    case False
    then show ?thesis using Cons by (auto split: option.splits prod.splits)
  qed
qed simp

text \<open>\<^verbatim>\<open>http.ParseHTTPVersion\<close> answers major 1 and minor 1 for exactly one text.\<close>

definition ParseHTTPVersion :: "string \<Rightarrow> (nat \<times> nat) option" where
  "ParseHTTPVersion vers =
     (if length vers = 8 \<and> HasPrefix vers ''HTTP/'' \<and> vers ! 6 = CHR ''.'' \<and>
         is_digit (vers ! 5) \<and> is_digit (vers ! 7)
      then Some (ord (vers ! 5) - 48, ord (vers ! 7) - 48) else None)"

definition headerRequestsUnsupportedHTTPVersion :: "string \<Rightarrow> bool" where
  "headerRequestsUnsupportedHTTPVersion header =
     (case cut_crlf header of
        None \<Rightarrow> False
      | Some (line, rest) \<Rightarrow>
          (let fields = split_on CHR '' '' line in
           if length fields < 3 \<or> fields ! 0 = [] \<or> fields ! 1 = [] then False
           else ParseHTTPVersion (fields ! 2) \<noteq> Some (1, 1)))"

text \<open>\<^verbatim>\<open>strings.EqualFold\<close>; \<open>uf\<close> decides the pairs in which either side is not ASCII.\<close>

definition Equal_Fold :: "(string \<Rightarrow> string \<Rightarrow> bool) \<Rightarrow> string \<Rightarrow> string \<Rightarrow> bool" where
  "Equal_Fold uf a b =
     (if is_ascii a \<and> is_ascii b then map lower_char a = map lower_char b else uf a b)"

datatype header_host_error = LacksCRLF | LacksHeaders

function headerHost :: "(string \<Rightarrow> string \<Rightarrow> bool) \<Rightarrow> string \<Rightarrow> header_host_error + string" where
  "headerHost uf header =
     (if header = [] then Inl LacksHeaders
      else (case cut_crlf header of
          None \<Rightarrow> Inl LacksCRLF
        | Some (line, rest) \<Rightarrow>
            if line = [] then Inr []
            else (let (name, field, colon) = Cut line CHR '':'' in
              if \<not> colon then headerHost uf rest
              else if \<not> Equal_Fold uf name ''Host'' then headerHost uf rest
              else Inr (TrimSpace field))))"
  by pat_completeness auto
termination
  by (relation "measure (\<lambda>(uf, header). length header)")
    (auto dest!: cut_crlf_Some simp: crlf_def)

declare headerHost.simps [simp del]

section \<open>The header map\<close>

text \<open>\<^verbatim>\<open>http.Header\<close>: canonical names to values; a Go map has no order, and the functions below read
  it through \<open>map_of\<close> only.\<close>

type_synonym header = "(string \<times> string list) list"

definition Values :: "header \<Rightarrow> string \<Rightarrow> string list" where
  "Values h key = (case map_of h (CanonicalHeaderKey key) of None \<Rightarrow> [] | Some vs \<Rightarrow> vs)"

definition Del :: "header \<Rightarrow> string \<Rightarrow> header" where
  "Del h key = AList.delete (CanonicalHeaderKey key) h"

text \<open>One turn of the loop of \<^verbatim>\<open>stripEcomaControlHeaders\<close> at a key the map still holds, and the
  loop over the keys in the order the iteration happens to take them.\<close>

definition is_ecoma :: "string \<Rightarrow> bool" where
  "is_ecoma name \<longleftrightarrow> HasPrefix (ToLower name) ''x-ecoma-''"

definition strip_key :: "header \<Rightarrow> string \<Rightarrow> header" where
  "strip_key h name =
     (case map_of h name of
        None \<Rightarrow> h
      | Some vs \<Rightarrow>
          if \<not> is_ecoma name then h
          else (let canonical = CanonicalHeaderKey name;
                    h = (if canonical \<noteq> name then AList.delete name (AList.update canonical vs h) else h)
                in Del h name))"

definition stripEcomaControlHeaders :: "string list \<Rightarrow> header \<Rightarrow> header" where
  "stripEcomaControlHeaders order h = foldl strip_key h order"

section \<open>Base64\<close>

definition b64_val :: "char \<Rightarrow> nat option" where
  "b64_val c =
     (if is_upper c then Some (ord c - 65)
      else if is_lower c then Some (ord c - 71)
      else if is_digit c then Some (ord c + 4)
      else if c = CHR ''+'' then Some 62
      else if c = CHR ''/'' then Some 63
      else None)"

definition b64_char :: "nat \<Rightarrow> char" where
  "b64_char n =
     (if n < 26 then chr (n + 65) else if n < 52 then chr (n + 71) else if n < 62 then chr (n - 4)
      else if n = 62 then CHR ''+'' else CHR ''/'')"

text \<open>Four digits make three bytes; the padded last group makes one or two, and the bits it has
  beyond them are ignored, as \<^verbatim>\<open>base64.StdEncoding\<close> does.\<close>

fun b64_groups :: "string \<Rightarrow> string option" where
  "b64_groups [] = Some []"
| "b64_groups (a # b # c # d # s) =
     (case (b64_val a, b64_val b) of
        (Some x, Some y) \<Rightarrow>
          if c = CHR ''='' then
            (if d = CHR ''='' \<and> s = [] then Some [chr (x * 4 + y div 16)] else None)
          else (case b64_val c of
              None \<Rightarrow> None
            | Some z \<Rightarrow>
                if d = CHR ''='' then
                  (if s = [] then Some [chr (x * 4 + y div 16), chr (y mod 16 * 16 + z div 4)] else None)
                else (case (b64_val d, b64_groups s) of
                    (Some w, Some t) \<Rightarrow>
                      Some (chr (x * 4 + y div 16) # chr (y mod 16 * 16 + z div 4) # chr (z mod 4 * 64 + w) # t)
                  | _ \<Rightarrow> None))
      | _ \<Rightarrow> None)"
| "b64_groups _ = None"

definition DecodeString :: "string \<Rightarrow> string option" where
  "DecodeString s = b64_groups (filter (\<lambda>c. ord c \<noteq> 13 \<and> ord c \<noteq> 10) s)"

fun EncodeToString :: "string \<Rightarrow> string" where
  "EncodeToString [] = []"
| "EncodeToString [p] = [b64_char (ord p div 4), b64_char (ord p mod 4 * 16), CHR ''='', CHR ''='']"
| "EncodeToString [p, q] =
     [b64_char (ord p div 4), b64_char (ord p mod 4 * 16 + ord q div 16), b64_char (ord q mod 16 * 4), CHR ''='']"
| "EncodeToString (p # q # r # s) =
     b64_char (ord p div 4) # b64_char (ord p mod 4 * 16 + ord q div 16) #
     b64_char (ord q mod 16 * 4 + ord r div 64) # b64_char (ord r mod 64) # EncodeToString s"


section \<open>The framing is exact\<close>

text \<open>The header block of an input: its shortest prefix that ends in an empty line.\<close>

definition header_block :: "string \<Rightarrow> string \<Rightarrow> bool" where
  "header_block input header \<longleftrightarrow>
     ends_block header \<and> (\<exists>rest. input = header @ rest) \<and> (\<forall>k < length header. \<not> ends_block (take k header))"

lemma ends_block_last: "ends_block s \<Longrightarrow> s \<noteq> [] \<and> last s = newline"
  by (auto simp: ends_block_def HasSuffix_iff crlf_def newline_def)

lemma newline_crlf: "newline = last crlf"
  by (simp add: newline_def crlf_def)

text \<open>No block can end inside a slice that holds no newline.\<close>

lemma no_block_inside:
  assumes "\<forall>k \<le> length header. \<not> ends_block (take k header)" and "newline \<notin> set a" and "k \<le> length (header @ a)"
  shows "\<not> ends_block (take k (header @ a))"
proof
  assume e: "ends_block (take k (header @ a))"
  show False
  proof (cases "k \<le> length header")
    case True
    then show False using e assms(1) by simp
  next
    case False
    then have "take k (header @ a) = header @ take (k - length header) a" "take (k - length header) a \<noteq> []"
      using assms(3) by auto
    then have "last (take k (header @ a)) \<in> set a"
      by (metis last_appendR last_in_set set_take_subset subsetD)
    then show False using ends_block_last [OF e] assms(2) by simp
  qed
qed

lemma ReadSlice_cases:
  obtains (line) a rest where "ReadSlice input = (a @ [newline], None, rest)" "newline \<notin> set a"
  | (full) "ReadSlice input = (take inboundBufSize input, Some ErrBufferFull, drop inboundBufSize input)"
      "newline \<notin> set (take inboundBufSize input)"
  | (cut) "ReadSlice input = (input, Some ReadFailed, [])" "newline \<notin> set input"
proof -
  obtain a b found where c: "Cut input newline = (a, b, found)" by (cases "Cut input newline") auto
  show thesis
  proof (cases found)
    case True
    then have i: "input = a @ newline # b" "newline \<notin> set a" using c by (auto simp: Cut_found)
    show thesis
    proof (cases "length a < inboundBufSize")
      case True
      then show thesis using c \<open>found\<close> i line [of a b] by (simp add: ReadSlice_def)
    next
      case False
      then have "take inboundBufSize input = take inboundBufSize a" using i by simp
      then have "newline \<notin> set (take inboundBufSize input)" using i in_set_takeD by metis
      then show thesis using c False i full by (simp add: ReadSlice_def)
    qed
  next
    case False
    then have i: "newline \<notin> set input" "a = input" using c by (auto simp: Cut_not_found)
    show thesis
    proof (cases "inboundBufSize \<le> length input")
      case True
      have "newline \<notin> set (take inboundBufSize input)" using i in_set_takeD by metis
      then show thesis using c False True full by (simp add: ReadSlice_def)
    next
      case False
      then show thesis using c \<open>\<not> found\<close> i cut by (simp add: ReadSlice_def)
    qed
  qed
qed

lemma header_block_step:
  assumes "\<forall>k < length header'. \<not> ends_block (take k header')" and "header_block (header' @ rest) h"
  shows "length header' \<le> length h"
proof (rule ccontr)
  assume "\<not> length header' \<le> length h"
  moreover obtain t where "header' @ rest = h @ t" using assms(2) by (auto simp: header_block_def)
  ultimately have "h = take (length h) header'" "length h < length header'"
    by (auto simp: append_eq_append_conv2)
  then show False using assms by (metis header_block_def)
qed

lemma no_block_line:
  assumes low: "\<forall>k \<le> length header. \<not> ends_block (take k header)"
    and r: "ReadSlice input = (line, err, rst)"
  shows "\<forall>k < length (header @ line). \<not> ends_block (take k (header @ line))"
proof (intro allI impI)
  obtain a where a: "newline \<notin> set a" "line = a \<or> line = a @ [newline]"
    using r by (cases rule: ReadSlice_cases [of input]) auto
  fix k assume "k < length (header @ line)"
  then have k: "k \<le> length (header @ a)" and "take k (header @ line) = take k (header @ a)"
    using a(2) by auto
  then show "\<not> ends_block (take k (header @ line))" using no_block_inside [OF low a(1) k] by simp
qed

lemma header_block_unique:
  assumes "header_block s h" and "header_block s g"
  shows "h = g"
proof -
  have le: "\<not> length g < length h" if "header_block s h" "header_block s g" for h g
  proof
    assume l: "length g < length h"
    from that obtain t u where "s = h @ t" "s = g @ u" unfolding header_block_def by metis
    then have "take (length g) h = g" using l by (metis append_eq_append_conv_if append_eq_conv_conj nat_less_le)
    then show False using that l by (metis header_block_def)
  qed
  have "length h = length g" using le [OF assms] le [OF assms(2,1)] by simp
  moreover obtain t u where "s = h @ t" "s = g @ u" using assms unfolding header_block_def by metis
  ultimately show ?thesis by (metis append_eq_append_conv)
qed

lemma read_header_sound:
  assumes "\<forall>k \<le> length header. \<not> ends_block (take k header)"
  shows "read_header header input = Inr (h, rest) \<longleftrightarrow>
    header_block (header @ input) h \<and> header @ input = h @ rest \<and> length h \<le> maxInboundHeaderBytes"
  using assms
proof (induction header input rule: read_header.induct)
  case (1 header input)
  obtain line err rst where r: "ReadSlice input = (line, err, rst)" by (cases "ReadSlice input") auto
  let ?h = "header @ line"
  note split = ReadSlice_split [OF r]
  have inner: "\<forall>k < length ?h. \<not> ends_block (take k ?h)"
    by (rule no_block_line [OF 1(2) r])
  note low = header_block_step [OF inner, of rst h]
  consider (long) "maxInboundHeaderBytes < length ?h"
    | (failed) "length ?h \<le> maxInboundHeaderBytes" "err = Some ReadFailed"
    | (found) "length ?h \<le> maxInboundHeaderBytes" "err \<noteq> Some ReadFailed" "ends_block ?h"
    | (more) "length ?h \<le> maxInboundHeaderBytes" "err \<noteq> Some ReadFailed" "\<not> ends_block ?h"
    by linarith
  then show ?case
  proof cases
    case long
    then show ?thesis using low split r by (subst read_header.simps) auto
  next
    case failed
    then have "rst = []" "line = input" "newline \<notin> set input"
      using r by (cases rule: ReadSlice_cases [of input]; simp)+
    then have "\<not> ends_block (take k (header @ input))" for k
      using no_block_inside [OF 1(2) \<open>newline \<notin> set input\<close>, of "min k (length (header @ input))"]
      by (cases "k \<le> length (header @ input)") auto
    then have "\<not> header_block (header @ input) h"
      by (metis header_block_def append_eq_conv_conj)
    then show ?thesis using failed r by (subst read_header.simps) simp
  next
    case found
    have block: "header_block (header @ input) ?h" using found inner split by (auto simp: header_block_def)
    have "header_block (header @ input) h \<Longrightarrow> h = ?h"
      using header_block_unique [OF _ block] .
    then show ?thesis using found r block split by (subst read_header.simps) auto
  next
    case more
    have "\<forall>k \<le> length ?h. \<not> ends_block (take k ?h)"
      using inner more(3) by (metis le_neq_implies_less take_all_iff order_refl)
    then show ?thesis using more r split 1(1) [OF r [symmetric] refl refl] by (subst read_header.simps) simp
  qed
qed

section \<open>What the removal of the control headers leaves\<close>

lemma token_ascii: "token_byte c \<Longrightarrow> ord c < 128"
  by (auto simp: token_byte_def is_digit_def is_lower_def is_upper_def ord_def)

lemma lower_upper: "ord c < 128 \<Longrightarrow> lower_char (upper_char c) = lower_char c"
  by (auto simp: lower_char_def upper_char_def is_lower_def is_upper_def ord_chr)

lemma upper_ascii: "ord c < 128 \<Longrightarrow> ord (upper_char c) < 128"
  by (auto simp: upper_char_def is_lower_def ord_chr)

lemma lower_ascii: "ord c < 128 \<Longrightarrow> ord (lower_char c) < 128"
  by (auto simp: lower_char_def is_upper_def ord_chr)

lemma capitalize_ascii:
  assumes "list_all token_byte s"
  shows "is_ascii (capitalize b s) \<and> map lower_char (capitalize b s) = map lower_char s"
  using assms
  by (induction b s rule: capitalize.induct)
    (auto simp: is_ascii_def lower_upper upper_ascii lower_ascii dest: token_ascii)

lemma is_ecoma_canonical [simp]: "is_ecoma (CanonicalHeaderKey name) = is_ecoma name"
proof (cases "list_all token_byte name")
  case True
  then have "is_ascii name" using token_ascii by (auto simp: is_ascii_def list_all_iff)
  then show ?thesis
    using True capitalize_ascii [OF True, of True] by (simp add: is_ecoma_def CanonicalHeaderKey_def ToLower_ascii)
qed (auto simp: CanonicalHeaderKey_def is_ecoma_def)

lemma map_of_Del: "map_of (Del h key) = (map_of h)(CanonicalHeaderKey key := None)"
  by (simp add: Del_def map_of_delete)

lemma map_of_strip_key:
  "map_of (strip_key h name) =
     (if is_ecoma name \<and> map_of h name \<noteq> None
      then (map_of h)(name := None, CanonicalHeaderKey name := None) else map_of h)"
  by (auto simp: strip_key_def Let_def map_of_Del map_of_update map_of_delete split: option.splits)

text \<open>Whatever order the map is iterated in, exactly the control keys go.\<close>

lemma strip_other:
  "\<not> is_ecoma k \<Longrightarrow> map_of (stripEcomaControlHeaders order h) k = map_of h k"
  unfolding stripEcomaControlHeaders_def
  by (induction order arbitrary: h) (auto simp: map_of_strip_key)

lemma strip_only_removes:
  "map_of h k = None \<Longrightarrow> map_of (stripEcomaControlHeaders order h) k = None"
  unfolding stripEcomaControlHeaders_def
  by (induction order arbitrary: h) (auto simp: map_of_strip_key)

lemma strip_control:
  assumes "is_ecoma k" and "k \<in> set order"
  shows "map_of (stripEcomaControlHeaders order h) k = None"
  using assms
proof (induction order arbitrary: h)
  case (Cons name order)
  show ?case
  proof (cases "k = name")
    case True
    then have "map_of (strip_key h name) k = None" using Cons.prems by (auto simp: map_of_strip_key)
    then show ?thesis using strip_only_removes by (simp add: stripEcomaControlHeaders_def)
  next
    case False
    then show ?thesis using Cons by (simp add: stripEcomaControlHeaders_def)
  qed
qed simp

lemma strip_exact:
  assumes "set order = dom (map_of h)"
  shows "map_of (stripEcomaControlHeaders order h) k = (if is_ecoma k then None else map_of h k)"
proof (cases "is_ecoma k \<and> k \<notin> set order")
  case True
  then have "map_of h k = None" using assms by auto
  then show ?thesis using True strip_only_removes by simp
qed (use strip_other strip_control in auto)

section \<open>Base64 round trip\<close>

lemma ord_marks [simp]: "ord (CHR ''+'') = 43" "ord (CHR ''/'') = 47" "ord (CHR ''='') = 61" "ord (CHR '' '') = 32"
  by (simp_all add: ord_def)

lemma b64_digits: "n < 64 \<Longrightarrow> b64_val (b64_char n) = Some n"
  by (auto simp: b64_val_def b64_char_def is_upper_def is_lower_def is_digit_def ord_chr)

lemma ord_b64: "n < 64 \<Longrightarrow> ord (b64_char n) \<notin> {61, 13, 10, 32, 9} \<and> ord (b64_char n) < 128"
  by (auto simp: b64_char_def ord_chr)

lemma b64_plain:
  assumes "n < 64"
  shows "b64_char n \<noteq> CHR ''=''" "ord (b64_char n) \<noteq> 13" "ord (b64_char n) \<noteq> 10"
    "b64_char n \<noteq> CHR '' ''" "ord (b64_char n) \<noteq> 9"
  using ord_b64 [OF assms] by auto

lemma sextets:
  "ord p div 4 < 64" "ord p mod 4 * 16 < 64" "ord p mod 4 * 16 + ord q div 16 < 64" "ord q mod 16 * 4 < 64"
  "ord q mod 16 * 4 + ord r div 64 < 64" "ord r mod 64 < 64"
  using ord_less [of p] ord_less [of q] ord_less [of r] by auto

lemma recombine:
  "ord q div 16 div 16 = 0" "ord r div 64 div 4 = 0"
  "ord q div 16 mod 16 * 16 + ord q mod 16 = ord q" "ord r div 64 mod 4 * 64 + ord r mod 64 = ord r"
proof -
  have "ord q div 16 < 16" "ord r div 64 < 4" using ord_less [of q] ord_less [of r] by auto
  then show "ord q div 16 div 16 = 0" "ord r div 64 div 4 = 0"
    "ord q div 16 mod 16 * 16 + ord q mod 16 = ord q" "ord r div 64 mod 4 * 64 + ord r mod 64 = ord r"
    by simp_all
qed

lemma b64_groups_Encode: "b64_groups (EncodeToString s) = Some s"
  by (induction s rule: EncodeToString.induct)
    (simp_all add: b64_digits b64_plain sextets recombine)

lemma Encode_plain: "c \<in> set (EncodeToString s) \<Longrightarrow> ord c \<noteq> 13 \<and> ord c \<noteq> 10 \<and> c \<noteq> CHR '' '' \<and> ord c \<noteq> 9"
  by (induction s rule: EncodeToString.induct)
    (auto simp: b64_plain sextets)

lemma Decode_Encode: "DecodeString (EncodeToString s) = Some s"
proof -
  have "filter (\<lambda>c. ord c \<noteq> 13 \<and> ord c \<noteq> 10) (EncodeToString s) = EncodeToString s"
    using Encode_plain by (intro filter_True) blast
  then show ?thesis by (simp add: DecodeString_def b64_groups_Encode)
qed

end
