(* ===== verification/Config.thy ===== *)
theory Config
  imports Probe
begin

text \<open>
  Loading the configuration: the runtime YAML (internal/config/runtime.go and
  internal/config/routing.go), the bootstrap environment and the inbound account
  (internal/config/account.go). The YAML decoder is a third-party package: the model starts
  from the decoded document, whose untyped counts are \<open>yaml\<close> values. \<^verbatim>\<open>time.ParseDuration\<close>
  (\<open>pd\<close>), \<^verbatim>\<open>url.Parse\<close> (\<open>pu\<close>) and \<^verbatim>\<open>URL.String\<close> (\<open>ru\<close>) are parameters. An error is
  the list of the joined errors, each a constructor named after its message.
\<close>

section \<open>Errors and results\<close>

datatype config_error =
    BadDuration string | NotWhole string | BelowMinimum string int | NotPositive string
  | Exceeds string string | BadLogLevel | EmptyProxies | DuplicateRoute
  | BadConcurrent | BadPercent
  | URLNotAbsolute | URLNotHTTPS | URLWithoutHost
  | InvalidRoute route_error | IDEmpty | IDTooLong | IDCharacters
  | IntervalMissing | APIURLMissing | APIURLInvalid | APIHostMissing | APIMethodInvalid
  | APIHeaderName | APIHeaderValue
  | RouteAt string nat config_error
  | IDUsedTwice string nat | IDMissing string nat
  | RuleWithoutDomains nat | RuleWithoutRoutes nat | RuleUnknownRoute nat string
  | DefaultsEmpty | DefaultUnknownRoute string | PolicyInvalid compile_error
  | Renamed string string | ConfigFileEmpty | NoListener | ListenerAddress string | ListenerPort string
  | ListenerHost string | ListenersOverlap string string
  | AccountForm | AccountUsername | AccountPassword

type_synonym 'a parsed = "config_error list + 'a"

fun and_then :: "'a parsed \<Rightarrow> ('a \<Rightarrow> 'b parsed) \<Rightarrow> 'b parsed" where
  "and_then (Inl es) f = Inl es"
| "and_then (Inr x) f = f x"

definition errors_of :: "'a parsed \<Rightarrow> config_error list" where
  "errors_of r = (case r of Inl es \<Rightarrow> es | Inr _ \<Rightarrow> [])"

text \<open>\<^verbatim>\<open>errors.Join\<close>: no error when the list is empty.\<close>

definition joined :: "config_error list \<Rightarrow> 'a \<Rightarrow> 'a parsed" where
  "joined es x = (if es = [] then Inr x else Inl es)"

definition error_if :: "bool \<Rightarrow> config_error \<Rightarrow> config_error list" where
  "error_if b e = (if b then [e] else [])"

section \<open>The decoded document\<close>

datatype yaml = YAbsent | YInt int | YText string | YOther

record cooldown_file =
  cf_Base :: string
  cf_Max :: string

record rotation_file =
  rf_MaxConcurrent :: yaml
  rf_DrainTimeout :: string
  rf_RotateOnStart :: "bool option"
  rf_IPCheckURL :: string
  rf_IPCheckTimeout :: string
  rf_IPCheckInterval :: string
  rf_RetryBackoffMax :: string

record warm_file =
  wf_Enabled :: "bool option"
  wf_MinIdlePerProxy :: yaml
  wf_MaxIdlePerProxy :: yaml
  wf_MaxTotalIdle :: yaml
  wf_MaxReplenishConcurrency :: yaml
  wf_MaxReplenishPerRoute :: yaml
  wf_IdleTTL :: string

record api_file =
  af_URL :: string
  af_Method :: string
  af_Headers :: "(string \<times> string) list"
  af_Body :: string
  af_Timeout :: string

record auto_file =
  au_ID :: "string option"
  au_Proxy :: string
  au_Kind :: string

record manual_file =
  ma_ID :: "string option"
  ma_Proxy :: string
  ma_Kind :: string
  ma_RotateInterval :: string
  ma_API :: api_file

record rule_file =
  ru_Domains :: "string list"
  ru_Routes :: "string list"

record routing_file =
  rt_Rules :: "rule_file list"
  rt_DefaultRoutes :: "string list option"

record file_config =
  fc_LogLevel :: string
  fc_MaxRetries :: yaml
  fc_Cooldown :: cooldown_file
  fc_DialTimeout :: string
  fc_Rotation :: rotation_file
  fc_Auto :: "auto_file list"
  fc_Manual :: "manual_file list"
  fc_WarmPool :: warm_file
  fc_Routing :: "routing_file option"

section \<open>Scalars\<close>

definition parseRuntimeDuration :: "(string \<Rightarrow> duration option) \<Rightarrow> string \<Rightarrow> string \<Rightarrow> duration parsed" where
  "parseRuntimeDuration pd name value =
     (case pd value of None \<Rightarrow> Inl [BadDuration name] | Some d \<Rightarrow> Inr d)"

text \<open>An empty value keeps the default.\<close>

definition override_duration ::
  "(string \<Rightarrow> duration option) \<Rightarrow> string \<Rightarrow> string \<Rightarrow> duration \<Rightarrow> duration parsed" where
  "override_duration pd name value deflt =
     (if value \<noteq> [] then parseRuntimeDuration pd name value else Inr deflt)"

definition parseMaxRetries :: "yaml \<Rightarrow> int parsed" where
  "parseMaxRetries raw =
     (case raw of YAbsent \<Rightarrow> Inr 0 | YInt n \<Rightarrow> Inr n | _ \<Rightarrow> Inl [NotWhole ''max-retries''])"

definition parseWarmCount :: "string \<Rightarrow> yaml \<Rightarrow> int option parsed" where
  "parseWarmCount name raw =
     (case raw of YAbsent \<Rightarrow> Inr None | YInt n \<Rightarrow> Inr (Some n) | _ \<Rightarrow> Inl [NotWhole name])"

definition parseMaxConcurrent :: "yaml \<Rightarrow> (int option \<times> int option) parsed" where
  "parseMaxConcurrent raw =
     (case raw of
        YAbsent \<Rightarrow> Inr (Some 1, None)
      | YInt v \<Rightarrow> if v < 1 then Inl [BelowMinimum ''rotation.max-concurrent'' v] else Inr (Some v, None)
      | YText v \<Rightarrow>
          (let t = TrimSpace v in
           if \<not> HasSuffix t ''%'' then Inl [BadConcurrent]
           else (case Atoi (TrimSpace (TrimSuffix t ''%'')) of
               None \<Rightarrow> Inl [BadPercent]
             | Some n \<Rightarrow> if n < 1 \<or> 100 < n then Inl [BadPercent] else Inr (None, Some n)))
      | YOther \<Rightarrow> Inl [BadConcurrent])"

section \<open>Rotation settings\<close>

definition DefaultIPCheckURL :: string where
  "DefaultIPCheckURL = ''https://www.cloudflare.com/cdn-cgi/trace''"

definition default_rotation :: rotation_settings where
  "default_rotation = \<lparr>MaxConcurrentFixed = None, MaxConcurrentPercent = None,
     DrainTimeout = 55 * second, RotateOnStart = False, IPCheckURL = DefaultIPCheckURL,
     IPCheckTimeout = 20 * second, IPCheckInterval = 2 * second, RetryBackoffMax = 15 * 60 * second\<rparr>"

definition IsAbs :: "url \<Rightarrow> bool" where
  "IsAbs u \<longleftrightarrow> Scheme u \<noteq> []"

definition check_url_errors :: "(string \<Rightarrow> url option) \<Rightarrow> string \<Rightarrow> config_error list" where
  "check_url_errors pu raw =
     (case pu raw of
        None \<Rightarrow> [URLNotAbsolute]
      | Some u \<Rightarrow>
          if \<not> IsAbs u then [URLNotAbsolute]
          else if Scheme u \<noteq> ''https'' then [URLNotHTTPS]
          else if Hostname u = [] then [URLWithoutHost]
          else [])"

definition rotation_validate :: "(string \<Rightarrow> url option) \<Rightarrow> rotation_settings \<Rightarrow> config_error list" where
  "rotation_validate pu r =
     check_url_errors pu (IPCheckURL r) @
     error_if (DrainTimeout r \<le> 0) (NotPositive ''rotation.drain-timeout'') @
     error_if (IPCheckTimeout r \<le> 0) (NotPositive ''rotation.ip-check-timeout'') @
     error_if (IPCheckInterval r \<le> 0) (NotPositive ''rotation.ip-check-interval'') @
     error_if (IPCheckTimeout r < IPCheckInterval r)
       (Exceeds ''rotation.ip-check-interval'' ''rotation.ip-check-timeout'') @
     error_if (RetryBackoffMax r \<le> 0) (NotPositive ''rotation.retry-backoff-max'')"

definition parseRotationSettings ::
  "(string \<Rightarrow> duration option) \<Rightarrow> (string \<Rightarrow> url option) \<Rightarrow> rotation_file \<Rightarrow> rotation_settings parsed" where
  "parseRotationSettings pd pu raw =
     and_then (parseMaxConcurrent (rf_MaxConcurrent raw)) (\<lambda>(fixed, percent).
     and_then (override_duration pd ''rotation.drain-timeout'' (rf_DrainTimeout raw)
                 (DrainTimeout default_rotation)) (\<lambda>drain_timeout.
     and_then (override_duration pd ''rotation.ip-check-timeout'' (rf_IPCheckTimeout raw)
                 (IPCheckTimeout default_rotation)) (\<lambda>check_timeout.
     and_then (override_duration pd ''rotation.ip-check-interval'' (rf_IPCheckInterval raw)
                 (IPCheckInterval default_rotation)) (\<lambda>check_interval.
     and_then (override_duration pd ''rotation.retry-backoff-max'' (rf_RetryBackoffMax raw)
                 (RetryBackoffMax default_rotation)) (\<lambda>backoff_max.
     (let settings =
        \<lparr>MaxConcurrentFixed = fixed, MaxConcurrentPercent = percent, DrainTimeout = drain_timeout,
         RotateOnStart = (case rf_RotateOnStart raw of None \<Rightarrow> False | Some b \<Rightarrow> b),
         IPCheckURL = (if rf_IPCheckURL raw \<noteq> [] then rf_IPCheckURL raw else IPCheckURL default_rotation),
         IPCheckTimeout = check_timeout, IPCheckInterval = check_interval,
         RetryBackoffMax = backoff_max\<rparr>
      in joined (rotation_validate pu settings) settings))))))"

section \<open>Warm pool settings\<close>

definition default_warm :: warm_settings where
  "default_warm = \<lparr>Enabled = False, MinIdlePerProxy = 1, MaxIdlePerProxy = 2, MaxTotalIdle = 64,
     MaxReplenishConcurrency = 2, MaxReplenishPerRoute = 0, IdleTTL = 45 * second\<rparr>"

definition warm_validate :: "warm_settings \<Rightarrow> config_error list" where
  "warm_validate w =
     error_if (MinIdlePerProxy w < 0) (BelowMinimum ''warm-pool.min-idle-per-proxy'' (MinIdlePerProxy w)) @
     error_if (MaxIdlePerProxy w < 1) (BelowMinimum ''warm-pool.max-idle-per-proxy'' (MaxIdlePerProxy w)) @
     error_if (MaxTotalIdle w < 1) (BelowMinimum ''warm-pool.max-total-idle'' (MaxTotalIdle w)) @
     error_if (MaxReplenishConcurrency w < 1)
       (BelowMinimum ''warm-pool.max-replenish-concurrency'' (MaxReplenishConcurrency w)) @
     error_if (MaxReplenishPerRoute w < 0)
       (BelowMinimum ''warm-pool.max-replenish-per-route'' (MaxReplenishPerRoute w)) @
     error_if (IdleTTL w \<le> 0) (NotPositive ''warm-pool.idle-ttl'') @
     error_if (MaxIdlePerProxy w < MinIdlePerProxy w)
       (Exceeds ''warm-pool.min-idle-per-proxy'' ''warm-pool.max-idle-per-proxy'') @
     error_if (MaxTotalIdle w < MaxIdlePerProxy w)
       (Exceeds ''warm-pool.max-idle-per-proxy'' ''warm-pool.max-total-idle'')"

text \<open>A count that is absent or wrong leaves the default in place; a wrong one is also reported.\<close>

definition warm_count :: "int option parsed \<Rightarrow> int \<Rightarrow> int" where
  "warm_count r deflt = (case r of Inr (Some n) \<Rightarrow> n | _ \<Rightarrow> deflt)"

definition parseWarmPoolSettings :: "(string \<Rightarrow> duration option) \<Rightarrow> warm_file \<Rightarrow> warm_settings parsed" where
  "parseWarmPoolSettings pd raw =
     (let min_idle = parseWarmCount ''warm-pool.min-idle-per-proxy'' (wf_MinIdlePerProxy raw);
          max_idle = parseWarmCount ''warm-pool.max-idle-per-proxy'' (wf_MaxIdlePerProxy raw);
          total_idle = parseWarmCount ''warm-pool.max-total-idle'' (wf_MaxTotalIdle raw);
          fleet = parseWarmCount ''warm-pool.max-replenish-concurrency'' (wf_MaxReplenishConcurrency raw);
          per_route = parseWarmCount ''warm-pool.max-replenish-per-route'' (wf_MaxReplenishPerRoute raw);
          ttl = override_duration pd ''warm-pool.idle-ttl'' (wf_IdleTTL raw) (IdleTTL default_warm);
          settings =
            \<lparr>Enabled = (case wf_Enabled raw of None \<Rightarrow> False | Some b \<Rightarrow> b),
             MinIdlePerProxy = warm_count min_idle (MinIdlePerProxy default_warm),
             MaxIdlePerProxy = warm_count max_idle (MaxIdlePerProxy default_warm),
             MaxTotalIdle = warm_count total_idle (MaxTotalIdle default_warm),
             MaxReplenishConcurrency = warm_count fleet (MaxReplenishConcurrency default_warm),
             MaxReplenishPerRoute = warm_count per_route (MaxReplenishPerRoute default_warm),
             IdleTTL = (case ttl of Inl _ \<Rightarrow> IdleTTL default_warm | Inr d \<Rightarrow> d)\<rparr>
      in joined (errors_of min_idle @ errors_of max_idle @ errors_of total_idle @ errors_of fleet @
           errors_of per_route @ errors_of ttl @ warm_validate settings) settings)"

section \<open>Routes\<close>

definition maxRouteIDLength :: nat where
  "maxRouteIDLength = 128"

definition id_char :: "char \<Rightarrow> bool" where
  "id_char c \<longleftrightarrow> is_lower c \<or> is_upper c \<or> is_digit c \<or> c = CHR ''-'' \<or> c = CHR ''_''"

definition validateRouteID :: "string \<Rightarrow> config_error option" where
  "validateRouteID i =
     (if i = [] then Some IDEmpty
      else if maxRouteIDLength < length i then Some IDTooLong
      else if \<not> list_all id_char i then Some IDCharacters
      else None)"

definition applyRouteID :: "route_spec \<Rightarrow> string option \<Rightarrow> route_spec parsed" where
  "applyRouteID s raw =
     (case raw of
        None \<Rightarrow> Inr s
      | Some i \<Rightarrow> (case validateRouteID i of Some e \<Rightarrow> Inl [e] | None \<Rightarrow> Inr (s\<lparr>spec_ID := i\<rparr>)))"

definition kinded :: "(string \<Rightarrow> url option) \<Rightarrow> string \<Rightarrow> string \<Rightarrow> route_spec parsed" where
  "kinded pu proxy kind =
     (case parseKindedProxy pu proxy kind of Inl e \<Rightarrow> Inl [InvalidRoute e] | Inr s \<Rightarrow> Inr s)"

definition parseRouteSpec :: "(string \<Rightarrow> url option) \<Rightarrow> auto_file \<Rightarrow> route_spec parsed" where
  "parseRouteSpec pu raw =
     and_then (kinded pu (au_Proxy raw) (au_Kind raw)) (\<lambda>s.
       applyRouteID (s\<lparr>spec_Origin := RouteOriginAuto\<rparr>) (au_ID raw))"

section \<open>The rotate API\<close>

text \<open>\<open>strings.ToUpper\<close>, with the two letters outside ASCII whose upper case is ASCII.\<close>

fun ToUpper :: "string \<Rightarrow> string" where
  "ToUpper (a # b # s) =
     (if ord a = 196 \<and> ord b = 177 then CHR ''I'' # ToUpper s
      else if ord a = 197 \<and> ord b = 191 then CHR ''S'' # ToUpper s
      else upper_char a # ToUpper (b # s))"
| "ToUpper [a] = [upper_char a]"
| "ToUpper [] = []"

definition token_mark :: "char \<Rightarrow> bool" where
  "token_mark c \<longleftrightarrow> c \<in> set ''!#$%&*+-.^_`|~'' \<or> ord c = 39"

definition validHeaderFieldName :: "string \<Rightarrow> bool" where
  "validHeaderFieldName name \<longleftrightarrow> name \<noteq> [] \<and>
     list_all (\<lambda>c. is_upper c \<or> is_lower c \<or> is_digit c \<or> token_mark c) name"

definition validHeaderFieldValue :: "string \<Rightarrow> bool" where
  "validHeaderFieldValue value \<longleftrightarrow> value \<noteq> [] \<and>
     list_all (\<lambda>c. ord c = 9 \<or> ord c = 32 \<or> (33 \<le> ord c \<and> ord c \<le> 126)) value"

definition validHTTPMethod :: "string \<Rightarrow> bool" where
  "validHTTPMethod meth \<longleftrightarrow> meth \<noteq> [] \<and> length meth \<le> 32 \<and>
     list_all (\<lambda>c. is_upper c \<or> is_digit c \<or> token_mark c) meth"

fun parse_headers :: "(string \<times> string) list \<Rightarrow> (string \<times> string) list \<Rightarrow> (string \<times> string) list parsed" where
  "parse_headers [] acc = Inr acc"
| "parse_headers ((name, value) # hs) acc =
     (let canonical = CanonicalHeaderKey name in
      if \<not> validHeaderFieldName canonical then Inl [APIHeaderName]
      else if \<not> validHeaderFieldValue value then Inl [APIHeaderValue]
      else parse_headers hs (AList.update canonical value acc))"

definition parseRotateAPI ::
  "(string \<Rightarrow> duration option) \<Rightarrow> (string \<Rightarrow> url option) \<Rightarrow> (url \<Rightarrow> string) \<Rightarrow> api_file \<Rightarrow> rotate_api parsed" where
  "parseRotateAPI pd pu ru raw =
     (if af_URL raw = [] then Inl [APIURLMissing]
      else (case pu (af_URL raw) of
          None \<Rightarrow> Inl [APIURLInvalid]
        | Some u \<Rightarrow>
            if \<not> IsAbs u \<or> (Scheme u \<noteq> ''http'' \<and> Scheme u \<noteq> ''https'') then Inl [APIURLInvalid]
            else if Hostname u = [] then Inl [APIHostMissing]
            else
              (let meth = (if af_Method raw \<noteq> [] then ToUpper (af_Method raw) else ''POST'') in
               if af_Method raw \<noteq> [] \<and> \<not> validHTTPMethod meth then Inl [APIMethodInvalid]
               else
                 and_then (override_duration pd ''api.timeout'' (af_Timeout raw) (10 * second)) (\<lambda>timeout.
                   if af_Timeout raw \<noteq> [] \<and> timeout \<le> 0 then Inl [NotPositive ''api.timeout'']
                   else and_then (parse_headers (af_Headers raw) []) (\<lambda>headers.
                     Inr \<lparr>api_URL = ru u, api_Method = meth, api_Headers = headers, api_Body = af_Body raw,
                          api_Timeout = timeout\<rparr>)))))"

definition parseManualRouteSpec ::
  "(string \<Rightarrow> duration option) \<Rightarrow> (string \<Rightarrow> url option) \<Rightarrow> (url \<Rightarrow> string) \<Rightarrow> manual_file \<Rightarrow>
   manual_route_spec parsed" where
  "parseManualRouteSpec pd pu ru raw =
     and_then (kinded pu (ma_Proxy raw) (ma_Kind raw)) (\<lambda>s.
     and_then (applyRouteID (s\<lparr>spec_Origin := RouteOriginManual\<rparr>) (ma_ID raw)) (\<lambda>s.
       if ma_RotateInterval raw = [] then Inl [IntervalMissing]
       else and_then (parseRuntimeDuration pd ''rotate-interval'' (ma_RotateInterval raw)) (\<lambda>interval.
         if interval \<le> 0 then Inl [NotPositive ''rotate-interval'']
         else and_then (parseRotateAPI pd pu ru (ma_API raw)) (\<lambda>api.
           Inr \<lparr>RouteSpec = s, RotateInterval = interval, API = api\<rparr>))))"

text \<open>The two loops over the route lists; an error names its entry.\<close>

fun parse_list :: "string \<Rightarrow> ('a \<Rightarrow> 'b parsed) \<Rightarrow> nat \<Rightarrow> 'a list \<Rightarrow> 'b list parsed" where
  "parse_list name f n [] = Inr []"
| "parse_list name f n (x # xs) =
     (case f x of
        Inl es \<Rightarrow> Inl (map (RouteAt name n) es)
      | Inr y \<Rightarrow> and_then (parse_list name f (n + 1) xs) (\<lambda>ys. Inr (y # ys)))"

section \<open>Routing\<close>

type_synonym labeled_route = "route_spec \<times> string \<times> nat"

definition labeledRoutes :: "route_spec list \<Rightarrow> manual_route_spec list \<Rightarrow> labeled_route list" where
  "labeledRoutes autos manuals =
     map (\<lambda>(r, i). (r, ''proxies.auto'', i)) (zip autos [0..<length autos]) @
     map (\<lambda>(s, i). (RouteSpec s, ''proxies.manual'', i)) (zip manuals [0..<length manuals])"

fun collect_ids :: "labeled_route list \<Rightarrow> string set \<Rightarrow> string set parsed" where
  "collect_ids [] ids = Inr ids"
| "collect_ids ((r, place, n) # rs) ids =
     (if spec_ID r = [] then collect_ids rs ids
      else if spec_ID r \<in> ids then Inl [IDUsedTwice place n]
      else collect_ids rs (insert (spec_ID r) ids))"

fun check_named :: "labeled_route list \<Rightarrow> config_error list" where
  "check_named [] = []"
| "check_named ((r, place, n) # rs) = (if spec_ID r = [] then [IDMissing place n] else check_named rs)"

fun policy_rules :: "string set \<Rightarrow> nat \<Rightarrow> rule_file list \<Rightarrow> rule_spec list parsed" where
  "policy_rules ids n [] = Inr []"
| "policy_rules ids n (r # rs) =
     (if ru_Domains r = [] then Inl [RuleWithoutDomains n]
      else if ru_Routes r = [] then Inl [RuleWithoutRoutes n]
      else (case filter (\<lambda>i. i \<notin> ids) (ru_Routes r) of
          i # _ \<Rightarrow> Inl [RuleUnknownRoute n i]
        | [] \<Rightarrow> and_then (policy_rules ids (n + 1) rs)
            (\<lambda>rest. Inr (\<lparr>Domains = ru_Domains r, Routes = ru_Routes r\<rparr> # rest))))"

definition policy_defaults :: "string set \<Rightarrow> string list option \<Rightarrow> string list parsed" where
  "policy_defaults ids raw =
     (case raw of
        None \<Rightarrow> Inr []
      | Some ds \<Rightarrow>
          if ds = [] then Inl [DefaultsEmpty]
          else (case filter (\<lambda>i. i \<notin> ids) ds of i # _ \<Rightarrow> Inl [DefaultUnknownRoute i] | [] \<Rightarrow> Inr ds))"

definition parseRoutingSettings :: "routing_file option \<Rightarrow> labeled_route list \<Rightarrow> router option parsed" where
  "parseRoutingSettings raw rs =
     and_then (collect_ids rs {}) (\<lambda>ids.
       (case raw of
          None \<Rightarrow> Inr None
        | Some r \<Rightarrow>
            (case check_named rs of
               e # es \<Rightarrow> Inl (e # es)
             | [] \<Rightarrow>
                 and_then (policy_rules ids 0 (rt_Rules r)) (\<lambda>rules.
                 and_then (policy_defaults ids (rt_DefaultRoutes r)) (\<lambda>ds.
                   (case Compile \<lparr>Rules = rules, DefaultRoutes = ds\<rparr> of
                      Inl e \<Rightarrow> Inl [PolicyInvalid e]
                    | Inr router \<Rightarrow> Inr (Some router)))))))"

section \<open>The runtime configuration\<close>

fun duplicate_routes :: "route_spec list \<Rightarrow> string set \<Rightarrow> config_error list" where
  "duplicate_routes [] seen = []"
| "duplicate_routes (r # rs) seen =
     (let i = CanonicalRouteID (spec_URL r)
      in error_if (i \<in> seen) DuplicateRoute @ duplicate_routes rs (insert i seen))"

definition runtime_validate :: "runtime_config \<Rightarrow> config_error list" where
  "runtime_validate c =
     error_if (MaxRetries c < 1) (BelowMinimum ''max-retries'' (MaxRetries c)) @
     error_if (CooldownBase c \<le> 0) (NotPositive ''cooldown.base'') @
     error_if (CooldownMax c \<le> 0) (NotPositive ''cooldown.max'') @
     error_if (0 < CooldownBase c \<and> 0 < CooldownMax c \<and> CooldownMax c < CooldownBase c)
       (Exceeds ''cooldown.base'' ''cooldown.max'') @
     error_if (DialTimeout c \<le> 0) (NotPositive ''dial-timeout'') @
     error_if (LogLevel c \<notin> {''debug'', ''info'', ''warn'', ''error''}) BadLogLevel @
     error_if (Routes_auto c = [] \<and> ManualRoutes c = []) EmptyProxies @
     duplicate_routes (AllRoutes c) {}"

definition runtimeFromFile ::
  "(string \<Rightarrow> duration option) \<Rightarrow> (string \<Rightarrow> url option) \<Rightarrow> (url \<Rightarrow> string) \<Rightarrow> file_config \<Rightarrow>
   runtime_config parsed" where
  "runtimeFromFile pd pu ru raw =
     (let retries = parseMaxRetries (fc_MaxRetries raw);
          bs = parseRuntimeDuration pd ''cooldown.base'' (cf_Base (fc_Cooldown raw));
          mx = parseRuntimeDuration pd ''cooldown.max'' (cf_Max (fc_Cooldown raw));
          dt = parseRuntimeDuration pd ''dial-timeout'' (fc_DialTimeout raw) in
      and_then (joined (errors_of retries @ errors_of bs @ errors_of mx @ errors_of dt)
                  (projr retries, projr bs, projr mx, projr dt)) (\<lambda>(retries, bs, mx, dt).
      and_then (parseRotationSettings pd pu (fc_Rotation raw)) (\<lambda>rotation.
      and_then (parseWarmPoolSettings pd (fc_WarmPool raw)) (\<lambda>warm.
      and_then (parse_list ''proxies.auto'' (parseRouteSpec pu) 0 (fc_Auto raw)) (\<lambda>autos.
      and_then (parse_list ''proxies.manual'' (parseManualRouteSpec pd pu ru) 0 (fc_Manual raw)) (\<lambda>manuals.
      and_then (parseRoutingSettings (fc_Routing raw) (labeledRoutes autos manuals)) (\<lambda>router.
      (let cfg = \<lparr>MaxRetries = retries, CooldownBase = bs, CooldownMax = mx, DialTimeout = dt,
                  LogLevel = fc_LogLevel raw, Routes_auto = autos, ManualRoutes = manuals,
                  Rotation = rotation, WarmPool = warm, Routing = router\<rparr>
       in joined (runtime_validate cfg) cfg))))))))"

text \<open>The loaded document: a routing key that is present but whose block the decoder dropped
  counts as an empty block.\<close>

definition LoadRuntime ::
  "(string \<Rightarrow> duration option) \<Rightarrow> (string \<Rightarrow> url option) \<Rightarrow> (url \<Rightarrow> string) \<Rightarrow> bool \<Rightarrow> file_config \<Rightarrow>
   runtime_config parsed" where
  "LoadRuntime pd pu ru routing_set raw =
     runtimeFromFile pd pu ru
       (if fc_Routing raw = None \<and> routing_set
        then raw\<lparr>fc_Routing := Some \<lparr>rt_Rules = [], rt_DefaultRoutes = None\<rparr>\<rparr> else raw)"

end
