(* ===== verification/Bootstrap.thy ===== *)
theory Bootstrap
  imports Config
begin

text \<open>
  The process-level settings (the bootstrap half of internal/config/runtime.go, the environment
  readers of internal/config/config.go, and internal/config/account.go). The environment is a
  function from names to values; \<open>pd\<close> is \<^verbatim>\<open>time.ParseDuration\<close>.
\<close>

section \<open>Listeners\<close>

definition isWildcardHost :: "string \<Rightarrow> bool" where
  "isWildcardHost host \<longleftrightarrow> host = [] \<or> host = ''0.0.0.0'' \<or> host = ''::''"

definition listener_label :: "string \<Rightarrow> bool" where
  "listener_label label \<longleftrightarrow> label \<noteq> [] \<and> length label \<le> 63 \<and> hd label \<noteq> CHR ''-'' \<and> last label \<noteq> CHR ''-'' \<and>
     list_all (\<lambda>c. is_lower c \<or> is_upper c \<or> is_digit c \<or> c = CHR ''-'') label"

definition validListenerHostname :: "string \<Rightarrow> bool" where
  "validListenerHostname host \<longleftrightarrow>
     \<not> (253 < length host \<or> HasPrefix host ''.'' \<or> HasSuffix host ''.'') \<and>
     list_all listener_label (split_on CHR ''.'' host)"

definition validateListenAddr :: "string \<Rightarrow> string \<Rightarrow> config_error option" where
  "validateListenAddr name addr =
     (case net_SplitHostPort addr of
        Inl e \<Rightarrow> Some (ListenerAddress name)
      | Inr (host, port) \<Rightarrow>
          (case checkPort port of
             Some e \<Rightarrow> Some (ListenerPort name)
           | None \<Rightarrow>
               if isWildcardHost host then None
               else if ParseIP host \<noteq> None then None
               else if \<not> validListenerHostname host then Some (ListenerHost name)
               else None))"

text \<open>\<open>strings.EqualFold\<close> on the hosts a validated address can hold, which are ASCII.\<close>

definition EqualFold :: "string \<Rightarrow> string \<Rightarrow> bool" where
  "EqualFold a b \<longleftrightarrow> map lower_char a = map lower_char b"

definition listenersOverlap :: "string \<Rightarrow> string \<Rightarrow> bool" where
  "listenersOverlap left right =
     (case (net_SplitHostPort left, net_SplitHostPort right) of
        (Inr (leftHost, leftPort), Inr (rightHost, rightPort)) \<Rightarrow>
          (case (Atoi leftPort, Atoi rightPort) of
             (Some leftN, Some rightN) \<Rightarrow>
               if leftN \<noteq> rightN then False
               else if isWildcardHost leftHost \<or> isWildcardHost rightHost then True
               else EqualFold leftHost rightHost
           | _ \<Rightarrow> False)
      | _ \<Rightarrow> False)"

text \<open>The loop over the listeners: each is validated and compared with the ones before it.\<close>

fun overlaps_before :: "string \<times> string \<Rightarrow> (string \<times> string) list \<Rightarrow> config_error list" where
  "overlaps_before l [] = []"
| "overlaps_before l (other # others) =
     (if snd other = [] \<and> fst other \<noteq> ''ADMIN_ADDR'' then overlaps_before l others
      else error_if (listenersOverlap (snd l) (snd other)) (ListenersOverlap (fst l) (fst other)) @
           overlaps_before l others)"

fun check_listeners :: "(string \<times> string) list \<Rightarrow> (string \<times> string) list \<Rightarrow> config_error list" where
  "check_listeners before [] = []"
| "check_listeners before (l # ls) =
     (if snd l = [] \<and> fst l \<noteq> ''RPGW_ADMIN_ADDR'' then check_listeners (before @ [l]) ls
      else (case validateListenAddr (fst l) (snd l) of
          Some e \<Rightarrow> e # check_listeners (before @ [l]) ls
        | None \<Rightarrow> overlaps_before l before @ check_listeners (before @ [l]) ls))"

section \<open>The account\<close>

record account =
  Username :: string
  Password :: string

definition parseAccount :: "string \<Rightarrow> account parsed" where
  "parseAccount raw =
     (let (user, pass, ok) = Cut raw CHR '':'' in
      if \<not> ok then Inl [AccountForm]
      else if length user = 0 \<or> 255 < length user then Inl [AccountUsername]
      else if 255 < length pass then Inl [AccountPassword]
      else Inr \<lparr>Username = user, Password = pass\<rparr>)"

section \<open>The environment\<close>

record bootstrap_config =
  ConfigFile :: string
  AdminAddr :: string
  MixedListenAddr :: string
  V4ListenAddr :: string
  V6ListenAddr :: string
  ShutdownGrace :: duration
  Account :: "account option"

type_synonym environment = "string \<Rightarrow> string option"

definition envStr :: "environment \<Rightarrow> string \<Rightarrow> string \<Rightarrow> string" where
  "envStr env key dst = (case env key of Some v \<Rightarrow> if v \<noteq> [] then v else dst | None \<Rightarrow> dst)"

definition envAddr :: "environment \<Rightarrow> string \<Rightarrow> string \<Rightarrow> string" where
  "envAddr env key dst = (case env key of Some v \<Rightarrow> v | None \<Rightarrow> dst)"

definition legacyEnvNames :: "(string \<times> string) list" where
  "legacyEnvNames =
     [(''ADMIN_ADDR'', ''RPGW_ADMIN_ADDR''), (''CONFIG_FILE'', ''RPGW_CONFIG_FILE''),
      (''MIXED_LISTEN_ADDR'', ''RPGW_MIXED_LISTEN_ADDR''), (''SHUTDOWN_GRACE'', ''RPGW_SHUTDOWN_GRACE''),
      (''V4_LISTEN_ADDR'', ''RPGW_V4_LISTEN_ADDR''), (''V6_LISTEN_ADDR'', ''RPGW_V6_LISTEN_ADDR'')]"

definition checkLegacyEnv :: "environment \<Rightarrow> config_error list" where
  "checkLegacyEnv env = map (\<lambda>(old, new). Renamed old new) (filter (\<lambda>(old, new). env old \<noteq> None) legacyEnvNames)"

definition default_bootstrap :: bootstrap_config where
  "default_bootstrap =
     \<lparr>ConfigFile = ''config.yaml'', AdminAddr = ''0.0.0.0:30120'', MixedListenAddr = '':30121'',
      V4ListenAddr = '':30122'', V6ListenAddr = '':30123'', ShutdownGrace = 55 * second, Account = None\<rparr>"

definition listeners_of :: "bootstrap_config \<Rightarrow> (string \<times> string) list" where
  "listeners_of c =
     [(''RPGW_ADMIN_ADDR'', AdminAddr c), (''RPGW_MIXED_LISTEN_ADDR'', MixedListenAddr c),
      (''RPGW_V4_LISTEN_ADDR'', V4ListenAddr c), (''RPGW_V6_LISTEN_ADDR'', V6ListenAddr c)]"

definition bootstrap_validate :: "bootstrap_config \<Rightarrow> config_error list" where
  "bootstrap_validate c =
     error_if (TrimSpace (ConfigFile c) = []) ConfigFileEmpty @
     error_if (ShutdownGrace c \<le> 0) (NotPositive ''RPGW_SHUTDOWN_GRACE'') @
     error_if (MixedListenAddr c = [] \<and> V4ListenAddr c = [] \<and> V6ListenAddr c = []) NoListener @
     check_listeners [] (listeners_of c)"

definition LoadBootstrap :: "(string \<Rightarrow> duration option) \<Rightarrow> environment \<Rightarrow> bootstrap_config parsed" where
  "LoadBootstrap pd env =
     and_then (joined (checkLegacyEnv env) ()) (\<lambda>_.
     and_then (case env ''RPGW_SHUTDOWN_GRACE'' of
                 None \<Rightarrow> Inr (ShutdownGrace default_bootstrap)
               | Some raw \<Rightarrow>
                   if raw \<noteq> [] then parseRuntimeDuration pd ''RPGW_SHUTDOWN_GRACE'' raw
                   else Inr (ShutdownGrace default_bootstrap)) (\<lambda>grace.
     and_then (case env ''RPGW_ACCOUNT'' of
                 None \<Rightarrow> Inr None
               | Some raw \<Rightarrow> if raw \<noteq> [] then and_then (parseAccount raw) (\<lambda>a. Inr (Some a)) else Inr None) (\<lambda>acct.
     (let cfg =
        \<lparr>ConfigFile = envStr env ''RPGW_CONFIG_FILE'' (ConfigFile default_bootstrap),
         AdminAddr = envStr env ''RPGW_ADMIN_ADDR'' (AdminAddr default_bootstrap),
         MixedListenAddr = envAddr env ''RPGW_MIXED_LISTEN_ADDR'' (MixedListenAddr default_bootstrap),
         V4ListenAddr = envAddr env ''RPGW_V4_LISTEN_ADDR'' (V4ListenAddr default_bootstrap),
         V6ListenAddr = envAddr env ''RPGW_V6_LISTEN_ADDR'' (V6ListenAddr default_bootstrap),
         ShutdownGrace = grace, Account = acct\<rparr>
      in joined (bootstrap_validate cfg) cfg))))"

section \<open>What a loaded bootstrap guarantees\<close>

lemma joined_Inr: "joined es x = Inr y \<longleftrightarrow> es = [] \<and> y = x"
  by (auto simp: joined_def)

lemma joined_Inl: "joined es x = Inl fs \<longleftrightarrow> es \<noteq> [] \<and> fs = es"
  by (auto simp: joined_def)

lemma error_if_Nil [simp]: "error_if b e = [] \<longleftrightarrow> \<not> b"
  by (simp add: error_if_def)

lemma and_then_Inr: "and_then r f = Inr y \<longleftrightarrow> (\<exists>x. r = Inr x \<and> f x = Inr y)"
  by (cases r) auto

lemma overlaps_before_Nil:
  "overlaps_before l ls = [] \<longleftrightarrow>
     (\<forall>other \<in> set ls. snd other \<noteq> [] \<or> fst other = ''ADMIN_ADDR'' \<longrightarrow> \<not> listenersOverlap (snd l) (snd other))"
  by (induction l ls rule: overlaps_before.induct) auto

lemma check_listeners_Nil:
  "check_listeners before ls = [] \<longleftrightarrow>
     (\<forall>i < length ls. snd (ls ! i) \<noteq> [] \<or> fst (ls ! i) = ''RPGW_ADMIN_ADDR'' \<longrightarrow>
        validateListenAddr (fst (ls ! i)) (snd (ls ! i)) = None \<and>
        overlaps_before (ls ! i) (before @ take i ls) = [])"
proof (induction before ls rule: check_listeners.induct)
  case (2 before l ls)
  have split: "(\<forall>i < length (l # ls). P i) \<longleftrightarrow> P 0 \<and> (\<forall>i < length ls. P (Suc i))" for P
    by (auto simp: less_Suc_eq_0_disj)
  show ?case
    unfolding split using 2 by (auto split: option.splits)
qed simp

text \<open>The hosts a listener may have: a wildcard, an IP literal, or a name of dot-separated labels.\<close>

definition listen_host :: "string \<Rightarrow> bool" where
  "listen_host h \<longleftrightarrow> h \<in> {[], ''0.0.0.0'', ''::''} \<or> ParseIP h \<noteq> None \<or>
     length h \<le> 253 \<and>
     (\<exists>labels. labels \<noteq> [] \<and> h = join_with CHR ''.'' labels \<and>
        (\<forall>l \<in> set labels. 1 \<le> length l \<and> length l \<le> 63 \<and> hd l \<noteq> CHR ''-'' \<and> last l \<noteq> CHR ''-'' \<and>
           (\<forall>c \<in> set l. is_lower c \<or> is_upper c \<or> is_digit c \<or> c = CHR ''-'')))"

text \<open>A listen address: one of those hosts and a decimal port from 1 to 65535.\<close>

definition listen_address :: "string \<Rightarrow> bool" where
  "listen_address a \<longleftrightarrow>
     (\<exists>h p n. net_SplitHostPort a = Inr (h, p) \<and> listen_host h \<and> Atoi p = Some n \<and> 1 \<le> n \<and> n \<le> 65535)"

text \<open>Two listen addresses that do not overlap as they are written: their ports are different numbers,
  or neither host is a wildcard and the hosts differ by more than case. Two names of one address
  are different hosts here: \<^verbatim>\<open>127.0.0.1:80\<close> and \<^verbatim>\<open>localhost:80\<close> are distinct as written.\<close>

definition distinct_as_written :: "string \<Rightarrow> string \<Rightarrow> bool" where
  "distinct_as_written a b \<longleftrightarrow>
     (\<exists>ha pa hb pb na nb. net_SplitHostPort a = Inr (ha, pa) \<and> net_SplitHostPort b = Inr (hb, pb) \<and>
        Atoi pa = Some na \<and> Atoi pb = Some nb \<and> 1 \<le> na \<and> na \<le> 65535 \<and> 1 \<le> nb \<and> nb \<le> 65535 \<and>
        (na \<noteq> nb \<or> (\<not> isWildcardHost ha \<and> \<not> isWildcardHost hb \<and> \<not> EqualFold ha hb)))"

lemma valid_address:
  "validateListenAddr name a = None \<Longrightarrow>
     \<exists>h p n. net_SplitHostPort a = Inr (h, p) \<and> Atoi p = Some n \<and> 1 \<le> n \<and> n \<le> 65535 \<and>
       (isWildcardHost h \<or> ParseIP h \<noteq> None \<or> validListenerHostname h)"
  by (auto simp: validateListenAddr_def checkPort_def split: sum.splits option.splits if_splits prod.splits)

lemma no_overlap_distinct:
  assumes "validateListenAddr m a = None" and "validateListenAddr n b = None" and "\<not> listenersOverlap a b"
  shows "distinct_as_written a b"
  using valid_address [OF assms(1)] valid_address [OF assms(2)] assms(3)
  by (auto simp: distinct_as_written_def listenersOverlap_def split: if_splits)

lemma valid_listen_address:
  assumes "validateListenAddr name a = None"
  shows "listen_address a"
proof -
  obtain h p n where h: "net_SplitHostPort a = Inr (h, p)" "Atoi p = Some n" "1 \<le> n" "n \<le> 65535"
    "isWildcardHost h \<or> ParseIP h \<noteq> None \<or> validListenerHostname h"
    using valid_address [OF assms] by blast
  have "listen_host h"
  proof (cases "validListenerHostname h")
    case True
    have "1 \<le> length l \<and> length l \<le> 63 \<and> hd l \<noteq> CHR ''-'' \<and> last l \<noteq> CHR ''-'' \<and>
        (\<forall>c \<in> set l. is_lower c \<or> is_upper c \<or> is_digit c \<or> c = CHR ''-'')"
      if "l \<in> set (split_on CHR ''.'' h)" for l
      using True that by (auto simp: validListenerHostname_def listener_label_def list_all_iff Suc_le_eq)
    then show ?thesis using True unfolding listen_host_def validListenerHostname_def
      by (intro disjI2 conjI exI [of _ "split_on CHR ''.'' h"]) (auto simp: join_split)
  next
    case False
    then show ?thesis using h(5) by (auto simp: listen_host_def isWildcardHost_def)
  qed
  then show ?thesis using h by (auto simp: listen_address_def)
qed

text \<open>Overlap is decided on the text: two names of one address load.\<close>

definition aliased_environment :: environment where
  "aliased_environment k =
     (if k = ''RPGW_ADMIN_ADDR'' then Some ''127.0.0.1:80''
      else if k = ''RPGW_MIXED_LISTEN_ADDR'' then Some ''localhost:80''
      else if k = ''RPGW_V4_LISTEN_ADDR'' \<or> k = ''RPGW_V6_LISTEN_ADDR'' then Some [] else None)"

lemma alias_facts:
  "validateListenAddr name ''127.0.0.1:80'' = None" "validateListenAddr name ''localhost:80'' = None"
  "\<not> listenersOverlap ''localhost:80'' ''127.0.0.1:80''"
proof -
  have s: "net_SplitHostPort ''127.0.0.1:80'' = Inr (''127.0.0.1'', ''80'')"
    "net_SplitHostPort ''localhost:80'' = Inr (''localhost'', ''80'')" by code_simp+
  have p: "checkPort ''80'' = None" by code_simp
  have h: "validListenerHostname ''127.0.0.1''" "validListenerHostname ''localhost''" by code_simp+
  show "validateListenAddr name ''127.0.0.1:80'' = None" "validateListenAddr name ''localhost:80'' = None"
    by (simp_all add: validateListenAddr_def s p h)
  have "\<not> EqualFold ''localhost'' ''127.0.0.1''" by code_simp
  then show "\<not> listenersOverlap ''localhost:80'' ''127.0.0.1:80''"
    by (simp add: listenersOverlap_def s isWildcardHost_def split: option.splits)
qed

lemma aliases_load:
  "\<exists>c. LoadBootstrap pd aliased_environment = Inr c \<and> AdminAddr c = ''127.0.0.1:80'' \<and>
     MixedListenAddr c = ''localhost:80''"
proof -
  let ?c = "\<lparr>ConfigFile = ''config.yaml'', AdminAddr = ''127.0.0.1:80'', MixedListenAddr = ''localhost:80'',
      V4ListenAddr = [], V6ListenAddr = [], ShutdownGrace = 55 * second, Account = None\<rparr>"
  have "TrimSpace ''config.yaml'' \<noteq> []" by code_simp
  then have "joined (bootstrap_validate ?c) ?c = Inr ?c"
    by (simp add: bootstrap_validate_def listeners_of_def alias_facts second_def joined_def)
  moreover have "joined (checkLegacyEnv aliased_environment) () = Inr ()"
    by (simp add: checkLegacyEnv_def legacyEnvNames_def aliased_environment_def joined_def)
  moreover have "joined (checkLegacyEnv aliased_environment) () = Inr () \<Longrightarrow>
      LoadBootstrap pd aliased_environment = joined (bootstrap_validate ?c) ?c"
    by (simp add: LoadBootstrap_def aliased_environment_def default_bootstrap_def envStr_def envAddr_def Let_def)
  ultimately show ?thesis by (intro exI [of _ ?c]) simp
qed

text \<open>Claim C29: what a bootstrap that loads guarantees. No retired variable was set, the
  drain budget is positive, at least one proxy listener is enabled, and the admin listener and every
  enabled proxy listener has a listen address: a wildcard, an IP literal or a host name, and a
  port from 1 to 65535. No two enabled listeners overlap as they are written: ports are compared as
  numbers, a wildcard host collides with every host, and hosts are compared up to case. Two names
  of one address are not recognised: an admin listener on \<^verbatim>\<open>127.0.0.1:80\<close> and a proxy
  listener on \<^verbatim>\<open>localhost:80\<close> load together, whatever the resolver says of the name.
  The account, when one is set, is the split of the value at its first colon, with a
  username of 1 to 255 bytes and a password of at most 255.\<close>

theorem LoadBootstrap_sound:
  assumes "LoadBootstrap pd env = Inr c"
  shows "(\<forall>x \<in> set legacyEnvNames. env (fst x) = None) \<and> 0 < ShutdownGrace c \<and>
    TrimSpace (ConfigFile c) \<noteq> [] \<and>
    (MixedListenAddr c \<noteq> [] \<or> V4ListenAddr c \<noteq> [] \<or> V6ListenAddr c \<noteq> []) \<and>
    (let ls = listeners_of c in
     \<forall>i < length ls. \<forall>j < i. snd (ls ! i) \<noteq> [] \<longrightarrow> snd (ls ! j) \<noteq> [] \<longrightarrow>
       distinct_as_written (snd (ls ! i)) (snd (ls ! j))) \<and>
    listen_address (AdminAddr c) \<and>
    (\<forall>a \<in> {MixedListenAddr c, V4ListenAddr c, V6ListenAddr c}. a \<noteq> [] \<longrightarrow> listen_address a) \<and>
    (\<exists>env c. LoadBootstrap pd env = Inr c \<and> AdminAddr c = ''127.0.0.1:80'' \<and> MixedListenAddr c = ''localhost:80'') \<and>
    (case env ''RPGW_ACCOUNT'' of
       None \<Rightarrow> Account c = None
     | Some raw \<Rightarrow> if raw = [] then Account c = None
         else (\<exists>a. Account c = Some a \<and> raw = Username a @ '':'' @ Password a \<and>
           CHR '':'' \<notin> set (Username a) \<and> 1 \<le> length (Username a) \<and> length (Username a) \<le> 255 \<and>
           length (Password a) \<le> 255))"
proof -
  have legacy: "checkLegacyEnv env = []" and valid: "bootstrap_validate c = []"
    using assms by (auto simp: LoadBootstrap_def and_then_Inr joined_Inr Let_def)
  have acct: "case env ''RPGW_ACCOUNT'' of
       None \<Rightarrow> Account c = None
     | Some raw \<Rightarrow> if raw = [] then Account c = None
         else (\<exists>a. Account c = Some a \<and> parseAccount raw = Inr a)"
    using assms by (auto simp: LoadBootstrap_def and_then_Inr joined_Inr Let_def split: option.splits if_splits)
  have parse: "raw = Username a @ '':'' @ Password a \<and> CHR '':'' \<notin> set (Username a) \<and>
      1 \<le> length (Username a) \<and> length (Username a) \<le> 255 \<and> length (Password a) \<le> 255"
    if "parseAccount raw = Inr a" for raw a
    using that by (auto simp: parseAccount_def Cut_found Suc_le_eq split: prod.splits if_splits)
  have none: "\<forall>x \<in> set legacyEnvNames. env (fst x) = None"
    using legacy by (auto simp: checkLegacyEnv_def filter_empty_conv)
  from valid have v: "0 < ShutdownGrace c" "TrimSpace (ConfigFile c) \<noteq> []"
    "MixedListenAddr c \<noteq> [] \<or> V4ListenAddr c \<noteq> [] \<or> V6ListenAddr c \<noteq> []"
    and ls: "check_listeners [] (listeners_of c) = []"
    by (auto simp: bootstrap_validate_def)
  have binds: "distinct_as_written (snd (listeners_of c ! i)) (snd (listeners_of c ! j))"
    if "i < length (listeners_of c)" "j < i" "snd (listeners_of c ! i) \<noteq> []" "snd (listeners_of c ! j) \<noteq> []" for i j
  proof -
    have "validateListenAddr (fst (listeners_of c ! i)) (snd (listeners_of c ! i)) = None"
      "validateListenAddr (fst (listeners_of c ! j)) (snd (listeners_of c ! j)) = None"
      and "overlaps_before (listeners_of c ! i) (take i (listeners_of c)) = []"
      using ls that unfolding check_listeners_Nil by auto
    moreover have "listeners_of c ! j \<in> set (take i (listeners_of c))"
      using that(1,2) by (auto simp: in_set_conv_nth intro!: exI [of _ j])
    ultimately show ?thesis
      using that(4) no_overlap_distinct unfolding overlaps_before_Nil by blast
  qed
  have addr: "listen_address (snd l)" if m: "l \<in> set (listeners_of c)" and e: "snd l \<noteq> [] \<or> fst l = ''RPGW_ADMIN_ADDR''" for l
  proof -
    obtain i where i: "i < length (listeners_of c)" "l = listeners_of c ! i"
      using m unfolding in_set_conv_nth by blast
    have "validateListenAddr (fst (listeners_of c ! i)) (snd (listeners_of c ! i)) = None"
      using ls [unfolded check_listeners_Nil, rule_format, OF i(1) e [unfolded i(2)]] by (rule conjunct1)
    then show ?thesis unfolding i(2) by (rule valid_listen_address)
  qed
  have "listen_address (AdminAddr c)"
    using addr [of "(''RPGW_ADMIN_ADDR'', AdminAddr c)"] unfolding listeners_of_def by simp
  moreover have "\<forall>a \<in> {MixedListenAddr c, V4ListenAddr c, V6ListenAddr c}. a \<noteq> [] \<longrightarrow> listen_address a"
    using addr [of "(''RPGW_MIXED_LISTEN_ADDR'', MixedListenAddr c)"] addr [of "(''RPGW_V4_LISTEN_ADDR'', V4ListenAddr c)"]
      addr [of "(''RPGW_V6_LISTEN_ADDR'', V6ListenAddr c)"] by (simp add: listeners_of_def)
  moreover have "case env ''RPGW_ACCOUNT'' of
       None \<Rightarrow> Account c = None
     | Some raw \<Rightarrow> if raw = [] then Account c = None
         else (\<exists>a. Account c = Some a \<and> raw = Username a @ '':'' @ Password a \<and>
           CHR '':'' \<notin> set (Username a) \<and> 1 \<le> length (Username a) \<and> length (Username a) \<le> 255 \<and>
           length (Password a) \<le> 255)"
    using acct parse by (auto split: option.splits if_splits)
  ultimately show ?thesis
    using none v binds aliases_load [of pd] unfolding Let_def by blast
qed

definition demo_environment :: environment where
  "demo_environment k =
     (if k = ''RPGW_ADMIN_ADDR'' then Some ''a:4'' else if k = ''RPGW_MIXED_LISTEN_ADDR'' then Some '':1''
      else if k = ''RPGW_V4_LISTEN_ADDR'' then Some ''b:04'' else if k = ''RPGW_V6_LISTEN_ADDR'' then Some []
      else if k = ''RPGW_ACCOUNT'' then Some ''u:p:q'' else None)"

definition loaded_bootstrap :: bootstrap_config where
  "loaded_bootstrap =
     \<lparr>ConfigFile = ''config.yaml'', AdminAddr = ''a:4'', MixedListenAddr = '':1'', V4ListenAddr = ''b:04'',
      V6ListenAddr = [], ShutdownGrace = 55 * second, Account = Some \<lparr>Username = ''u'', Password = ''p:q''\<rparr>\<rparr>"

theorem LoadBootstrap_sound_witness:
  "LoadBootstrap (\<lambda>_. None) demo_environment = Inr loaded_bootstrap \<and>
   distinct_as_written ''b:04'' ''a:4'' \<and> listen_address ''a:4''"
proof -
  have l: "LoadBootstrap (\<lambda>_. None) demo_environment = Inr loaded_bootstrap" by code_simp
  from LoadBootstrap_sound [OF this]
  have "\<forall>i < 4. \<forall>j < i. snd (listeners_of loaded_bootstrap ! i) \<noteq> [] \<longrightarrow>
      snd (listeners_of loaded_bootstrap ! j) \<noteq> [] \<longrightarrow>
      distinct_as_written (snd (listeners_of loaded_bootstrap ! i)) (snd (listeners_of loaded_bootstrap ! j))"
    by (simp add: Let_def listeners_of_def)
  then have "distinct_as_written (snd (listeners_of loaded_bootstrap ! 2)) (snd (listeners_of loaded_bootstrap ! 0))"
    by (elim allE [of _ 2] impE allE [of _ 0]) (simp_all add: listeners_of_def loaded_bootstrap_def)
  moreover have "listen_address (AdminAddr loaded_bootstrap)"
    using LoadBootstrap_sound [OF l] by (simp only: Let_def)
  ultimately show ?thesis using l by (simp add: listeners_of_def loaded_bootstrap_def)
qed

end
