(* ===== verification/Http.thy ===== *)
theory Http
  imports Frame Serve Bootstrap
begin

text \<open>
  One HTTP proxy connection (\<^verbatim>\<open>serveConn\<close> of internal/proxyserver/http.go with everything it
  calls before route selection, the credential comparison of server.go and the correlation id of
  logging.go). The library functions whose tables or grammar the Go release decides are the record
  \<open>http_lib\<close>: \<^verbatim>\<open>http.ReadRequest\<close> on a header block, \<^verbatim>\<open>url.Parse\<close>, the Unicode part of
  \<^verbatim>\<open>strings.EqualFold\<close>, and \<open>keyed\<close>, HMAC-SHA256 under the random key of the process.
\<close>

section \<open>Requests and responses\<close>

record request =
  Method :: string
  ProtoMajor :: int
  ProtoMinor :: int
  req_URL :: url
  req_Host :: string
  RequestURI :: string
  Header :: header

record http_lib =
  ReadRequest :: "string \<Rightarrow> request option"
  urlParse :: "string \<Rightarrow> url option"
  fold_unicode :: "string \<Rightarrow> string \<Rightarrow> bool"
  keyed :: "string \<Rightarrow> string"

text \<open>\<^verbatim>\<open>httpResponseWriter\<close>: \<open>out\<close> is what was written to the socket. Setting a header replaces it;
  \<^verbatim>\<open>Header.Write\<close> writes the fields in the order of their names.\<close>

record response_writer =
  w_out :: string
  w_header :: "(string \<times> string) list"
  w_close :: bool
  wroteHeader :: bool

definition newHTTPResponseWriter :: "string \<Rightarrow> response_writer" where
  "newHTTPResponseWriter conn = \<lparr>w_out = conn, w_header = [], w_close = True, wroteHeader = False\<rparr>"

definition newTunnelResponseWriter :: "string \<Rightarrow> response_writer" where
  "newTunnelResponseWriter conn = \<lparr>w_out = conn, w_header = [], w_close = False, wroteHeader = False\<rparr>"

definition set_header :: "string \<Rightarrow> string \<Rightarrow> response_writer \<Rightarrow> response_writer" where
  "set_header name v w = w\<lparr>w_header := AList.update (CanonicalHeaderKey name) v (w_header w)\<rparr>"

definition StatusText :: "nat \<Rightarrow> string" where
  "StatusText status =
     (if status = 100 then ''Continue'' else if status = 103 then ''Early Hints''
      else if status = 200 then ''OK'' else if status = 400 then ''Bad Request''
      else if status = 405 then ''Method Not Allowed''
      else if status = 407 then ''Proxy Authentication Required''
      else if status = 501 then ''Not Implemented'' else if status = 502 then ''Bad Gateway''
      else if status = 503 then ''Service Unavailable'' else if status = 504 then ''Gateway Timeout''
      else if status = 505 then ''HTTP Version Not Supported'' else [])"

definition name_key :: "string \<times> string \<Rightarrow> nat list" where
  "name_key f = map ord (fst f)"

fun insert_field :: "string \<times> string \<Rightarrow> (string \<times> string) list \<Rightarrow> (string \<times> string) list" where
  "insert_field f [] = [f]"
| "insert_field f (g # gs) =
     (if lexordp_eq (name_key f) (name_key g) then f # g # gs else g # insert_field f gs)"

definition header_lines :: "(string \<times> string) list \<Rightarrow> string" where
  "header_lines fs =
     concat (map (\<lambda>(name, v). name @ '': '' @ v @ crlf) (foldr insert_field fs []))"

definition WriteHeader :: "nat \<Rightarrow> response_writer \<Rightarrow> response_writer" where
  "WriteHeader status w =
     (if wroteHeader w then w
      else (let w = w\<lparr>wroteHeader := True\<rparr>;
                w = (if w_close w then set_header ''Connection'' ''close'' w else w)
            in w\<lparr>w_out := w_out w @ ''HTTP/1.1 '' @ Itoa (int status) @ '' '' @ StatusText status @ crlf @
                          header_lines (w_header w) @ crlf\<rparr>))"

definition Write :: "string \<Rightarrow> response_writer \<Rightarrow> response_writer" where
  "Write p w =
     (let w = (if wroteHeader w then w else WriteHeader 200 w) in w\<lparr>w_out := w_out w @ p\<rparr>)"

definition writeHTTPError :: "string \<Rightarrow> nat \<Rightarrow> string" where
  "writeHTTPError conn status =
     w_out (WriteHeader status (set_header ''Content-Length'' ''0'' (newHTTPResponseWriter conn)))"

definition requireProxyAuthorization :: "string \<Rightarrow> string" where
  "requireProxyAuthorization conn =
     w_out (WriteHeader 407
       (set_header ''Proxy-Authenticate'' (''Basic realm='' @ [chr 34] @ ''rotation-proxy-gateway'' @ [chr 34])
         (set_header ''Content-Length'' ''0'' (newHTTPResponseWriter conn))))"

text \<open>The two repliers have the same fields. The success reply of a CONNECT is written here; a forwarded
  request has none of its own.\<close>

record http_replier =
  r_conn :: string
  failureStatus :: nat

definition connectReplier_ok :: "http_replier \<Rightarrow> http_replier" where
  "connectReplier_ok r =
     r\<lparr>r_conn := w_out (WriteHeader 200 (set_header ''Content-Length'' ''0'' (newTunnelResponseWriter (r_conn r))))\<rparr>"

definition forwardReplier_ok :: "http_replier \<Rightarrow> http_replier" where
  "forwardReplier_ok r = r"

definition replier_fail :: "http_replier \<Rightarrow> http_replier" where
  "replier_fail r = r\<lparr>r_conn := writeHTTPError (r_conn r) (failureStatus r)\<rparr>"

definition setFailureStatus :: "nat \<Rightarrow> http_replier \<Rightarrow> http_replier" where
  "setFailureStatus status r = r\<lparr>failureStatus := status\<rparr>"

definition replyFailure :: "('r \<Rightarrow> 'r) \<Rightarrow> (nat \<Rightarrow> 'r \<Rightarrow> 'r) \<Rightarrow> 'r \<Rightarrow> nat \<Rightarrow> 'r" where
  "replyFailure fail set_status r status = fail (set_status status r)"

section \<open>Reading the request\<close>

datatype inbound_error = BadFrame | VersionNotSupported

definition readInboundRequest :: "http_lib \<Rightarrow> string \<Rightarrow> inbound_error + request \<times> string \<times> string" where
  "readInboundRequest lib conn =
     (case readHTTPHeader conn of
        Inl e \<Rightarrow> Inl BadFrame
      | Inr (header, framing) \<Rightarrow>
          (case ReadRequest lib header of
             None \<Rightarrow> Inl (if headerRequestsUnsupportedHTTPVersion header then VersionNotSupported else BadFrame)
           | Some req \<Rightarrow>
               (case headerHost (fold_unicode lib) header of
                  Inl e \<Rightarrow> Inl BadFrame
                | Inr host \<Rightarrow> Inr (req, framing, host))))"

section \<open>Authorities and targets\<close>

datatype authority_error = MalformedAuthority | EmptyPort | MissingTargetPort | InvalidTargetPort

definition ContainsAny :: "string \<Rightarrow> char set \<Rightarrow> bool" where
  "ContainsAny s chars \<longleftrightarrow> list_ex (\<lambda>c. c \<in> chars) s"

definition authority_marks :: "char set" where
  "authority_marks = {CHR ''@'', CHR ''/'', CHR ''?'', CHR ''#'', CHR '' '', chr 9, chr 13, chr 10}"

definition splitHTTPAuthority :: "http_lib \<Rightarrow> string \<Rightarrow> authority_error + string \<times> string \<times> bool" where
  "splitHTTPAuthority lib authority =
     (if authority = [] \<or> ContainsAny authority authority_marks then Inl MalformedAuthority
      else (case urlParse lib (''http://'' @ authority) of
          None \<Rightarrow> Inl MalformedAuthority
        | Some parsed \<Rightarrow>
            if url_Host parsed \<noteq> authority \<or> User parsed \<noteq> None \<or> Hostname parsed = []
              then Inl MalformedAuthority
            else if url_Port parsed \<noteq> [] then Inr (Hostname parsed, url_Port parsed, True)
            else if HasSuffix authority '':'' then Inl EmptyPort
            else Inr (Hostname parsed, [], False)))"

definition sameHTTPAuthority :: "http_lib \<Rightarrow> string \<Rightarrow> string \<Rightarrow> bool" where
  "sameHTTPAuthority lib t supplied =
     (case splitHTTPAuthority lib t of
        Inl e \<Rightarrow> False
      | Inr (targetHost, targetPort, targetHasPort) \<Rightarrow>
          (case splitHTTPAuthority lib supplied of
             Inl e \<Rightarrow> False
           | Inr (suppliedHost, suppliedPort, suppliedHasPort) \<Rightarrow>
               if targetHasPort \<noteq> suppliedHasPort \<or> targetPort \<noteq> suppliedPort then False
               else Equal_Fold (fold_unicode lib) targetHost suppliedHost))"

text \<open>\<^verbatim>\<open>ip.To4\<close> is non-nil exactly on the IPv4-mapped addresses.\<close>

definition targetFromAuthority :: "http_lib \<Rightarrow> string \<Rightarrow> bool \<Rightarrow> authority_error + target" where
  "targetFromAuthority lib authority requirePort =
     (case splitHTTPAuthority lib authority of
        Inl e \<Rightarrow> Inl e
      | Inr (host, port, hasPort) \<Rightarrow>
          if \<not> hasPort \<and> requirePort then Inl MissingTargetPort
          else (case Atoi (if hasPort then port else ''80'') of
              None \<Rightarrow> Inl InvalidTargetPort
            | Some n \<Rightarrow>
                if n < 1 \<or> 65535 < n then Inl InvalidTargetPort
                else Inr \<lparr>Host = host, Port = nat n,
                  Type = (case ParseIP host of
                      None \<Rightarrow> AddrDomain
                    | Some ip \<Rightarrow> if is_v4 ip then AddrIPv4 else AddrIPv6)\<rparr>))"

text \<open>The status of a refused request, or its target and whether it is a CONNECT.\<close>

definition validateHTTPProxyRequest :: "http_lib \<Rightarrow> request \<Rightarrow> string \<Rightarrow> nat + target \<times> bool" where
  "validateHTTPProxyRequest lib req suppliedHost =
     (let u = req_URL req in
      if ProtoMajor req \<noteq> 1 \<or> ProtoMinor req \<noteq> 1 then Inl 505
      else if Method req = ''CONNECT'' then
        (if Scheme u \<noteq> [] \<or> url_Host u = [] \<or> Path u \<noteq> [] \<or> RawQuery u \<noteq> [] then Inl 400
         else if suppliedHost \<noteq> [] \<and> \<not> sameHTTPAuthority lib (url_Host u) suppliedHost then Inl 400
         else (case targetFromAuthority lib (url_Host u) True of
             Inl e \<Rightarrow> Inl 400
           | Inr t \<Rightarrow> Inr (t, True)))
      else if Scheme u = [] \<or> url_Host u = [] then
        (if RequestURI req = ''*'' then Inl 501 else Inl 400)
      else if \<not> Equal_Fold (fold_unicode lib) (Scheme u) ''http'' then Inl 501
      else if Method req \<noteq> ''GET'' \<and> Method req \<noteq> ''HEAD'' \<and> Method req \<noteq> ''POST'' then Inl 405
      else if User u \<noteq> None \<or> (suppliedHost \<noteq> [] \<and> \<not> sameHTTPAuthority lib (url_Host u) suppliedHost)
        then Inl 400
      else (case targetFromAuthority lib (url_Host u) False of
          Inl e \<Rightarrow> Inl 400
        | Inr t \<Rightarrow> Inr (t, False)))"

section \<open>Credentials\<close>

record inboundAccount =
  usernameSum :: string
  passwordSum :: string

definition newInboundAccount :: "http_lib \<Rightarrow> account \<Rightarrow> inboundAccount" where
  "newInboundAccount lib a = \<lparr>usernameSum = keyed lib (Username a), passwordSum = keyed lib (Password a)\<rparr>"

definition credentialsMatch :: "http_lib \<Rightarrow> inboundAccount \<Rightarrow> string \<Rightarrow> string \<Rightarrow> bool" where
  "credentialsMatch lib acct user pw \<longleftrightarrow>
     keyed lib user = usernameSum acct \<and> keyed lib pw = passwordSum acct"

definition checkProxyAuthorization :: "http_lib \<Rightarrow> request \<Rightarrow> inboundAccount option \<Rightarrow> bool" where
  "checkProxyAuthorization lib req acct =
     (case acct of
        None \<Rightarrow> True
      | Some a \<Rightarrow>
          (let values = Values (Header req) ''Proxy-Authorization'' in
           if length values \<noteq> 1 then False
           else (let (scheme, encoded, ok) = Cut (hd values) CHR '' '' in
             if \<not> ok \<or> \<not> Equal_Fold (fold_unicode lib) scheme ''Basic'' \<or> encoded = [] \<or>
                ContainsAny encoded {CHR '' '', chr 9} then False
             else (case DecodeString encoded of
                 None \<Rightarrow> False
               | Some presented \<Rightarrow>
                   (let (user, pw, colon) = Cut presented CHR '':'' in
                    if \<not> colon \<or> length user = 0 \<or> 255 < length user \<or> 255 < length pw then False
                    else credentialsMatch lib a user pw)))))"

section \<open>The correlation id\<close>

definition maxInboundRequestIDLength :: nat where
  "maxInboundRequestIDLength = 64"

definition isRequestIDToken :: "string \<Rightarrow> bool" where
  "isRequestIDToken v \<longleftrightarrow>
     list_all (\<lambda>c. is_lower c \<or> is_upper c \<or> is_digit c \<or> c \<in> set ''-_.:'') v"

definition base32_char :: "nat \<Rightarrow> char" where
  "base32_char n = (if n < 26 then chr (65 + n) else chr (24 + n))"

text \<open>Unpadded base32 of the random bytes, from their bits.\<close>

definition byte_bits :: "char \<Rightarrow> bool list" where
  "byte_bits c = map (\<lambda>i. ord c div 2 ^ (7 - i) mod 2 = 1) [0..<8]"

definition group_val :: "bool list \<Rightarrow> nat" where
  "group_val bs = foldl (\<lambda>n b. n * 2 + (if b then 1 else 0)) 0 (bs @ replicate (5 - length bs) False)"

fun base32_bits :: "bool list \<Rightarrow> string" where
  "base32_bits (a # b # c # d # e # bs) = base32_char (group_val [a, b, c, d, e]) # base32_bits bs"
| "base32_bits [] = []"
| "base32_bits bs = [base32_char (group_val bs)]"

definition base32 :: "string \<Rightarrow> string" where
  "base32 raw = base32_bits (concat (map byte_bits raw))"

text \<open>\<open>raw\<close> is what the system's random source gives, \<open>n\<close> the count of degraded ids.\<close>

definition generateRequestID :: "string option \<Rightarrow> u64 \<Rightarrow> string \<times> u64" where
  "generateRequestID raw n =
     (case raw of
        None \<Rightarrow> (''r-nogorand-'' @ Itoa (int (unat (n + 1))), n + 1)
      | Some bytes \<Rightarrow> (''r-'' @ base32 bytes, n))"

definition resolveRequestID :: "header \<Rightarrow> string option \<Rightarrow> u64 \<Rightarrow> string \<times> u64" where
  "resolveRequestID h raw n =
     (let values = Values h ''X-Ecoma-Request-Id'' in
      if length values \<noteq> 1 then generateRequestID raw n
      else if length (hd values) = 0 \<or> maxInboundRequestIDLength < length (hd values) \<or>
              \<not> isRequestIDToken (hd values) then generateRequestID raw n
      else (hd values, n))"

section \<open>The connection\<close>

text \<open>Reading, authentication, control headers and validation: the error reply, or the request that
  goes on to route selection with what the framing reader still holds for the tunnel. \<open>order\<close> is the
  order in which the map of the request's headers is iterated.\<close>

record accepted =
  a_request :: request
  a_target :: target
  a_connect :: bool
  a_family :: proxyFamily
  a_rest :: string

definition accept_request ::
  "http_lib \<Rightarrow> inboundAccount option \<Rightarrow> (header \<Rightarrow> string list) \<Rightarrow> string \<Rightarrow> string \<Rightarrow> string + accepted" where
  "accept_request lib acct order input conn =
     (case readInboundRequest lib input of
        Inl e \<Rightarrow> Inl (writeHTTPError conn (if e = VersionNotSupported then 505 else 400))
      | Inr (req, reader, suppliedHost) \<Rightarrow>
          if \<not> checkProxyAuthorization lib req acct then Inl (requireProxyAuthorization conn)
          else (case parseProxyFamily (Values (Header req) ''X-Ecoma-Proxy-Family'') of
              Inl e \<Rightarrow> Inl (writeHTTPError conn 400)
            | Inr family \<Rightarrow>
                (let h = Del (Header req) ''Proxy-Authorization'';
                     req = req\<lparr>Header := stripEcomaControlHeaders (order h) h\<rparr>
                 in case validateHTTPProxyRequest lib req suppliedHost of
                     Inl status \<Rightarrow> Inl (writeHTTPError conn status)
                   | Inr (t, isConnect) \<Rightarrow>
                       Inr \<lparr>a_request = req, a_target = t, a_connect = isConnect, a_family = family,
                            a_rest = reader\<rparr>)))"

text \<open>What a replier has written when route selection ended with a status; neither reports a failed
  write.\<close>

definition replier_text :: "bool \<Rightarrow> string \<Rightarrow> nat \<Rightarrow> string" where
  "replier_text isConnect conn status =
     (let r = \<lparr>r_conn = conn, failureStatus = 502\<rparr> in
      r_conn (if status = 200 then (if isConnect then connectReplier_ok r else forwardReplier_ok r)
              else replyFailure replier_fail setFailureStatus r status))"

record conn_end =
  wire :: string
  requests :: u64
  served :: "(accepted \<times> pref) option"
  after :: session

text \<open>\<^verbatim>\<open>serveConn\<close>: what the gateway wrote itself, the request counter, the tunnel that was served
  and the shared routes; \<open>established a\<close> is what happens to them while it runs.\<close>

definition serveConn ::
  "http_lib \<Rightarrow> server \<Rightarrow> inboundAccount option \<Rightarrow> (header \<Rightarrow> string list) \<Rightarrow> serve_env \<Rightarrow> generation \<Rightarrow> instant \<Rightarrow>
   (accepted \<Rightarrow> heap \<Rightarrow> heap) \<Rightarrow> string \<Rightarrow> heap \<Rightarrow> u64 \<Rightarrow> u64 \<Rightarrow> conn_end" where
  "serveConn lib s acct order env gen handshakeDeadline established input h fo n =
     (case accept_request lib acct order input [] of
        Inl reply \<Rightarrow> \<lparr>wire = reply, requests = n, served = None, after = start_session h fo\<rparr>
      | Inr a \<Rightarrow>
          (let (status, tunnel, st) =
             serveTunnel s env gen (a_family a) (a_target a) handshakeDeadline True (established a) h fo
           in \<lparr>wire = replier_text (a_connect a) [] status, requests = n + 1,
               served = map_option (\<lambda>p. (a, p)) tunnel, after = st\<rparr>))"

section \<open>The tunnel bytes and the forwarded request\<close>

text \<open>\<^verbatim>\<open>prefixConn\<close>: the bytes the framing reader had buffered, then the socket. A read of at most
  \<open>k\<close> bytes that the socket answers with \<open>m\<close> of them.\<close>

record prefixConn =
  pre :: string
  sock :: string

definition bufferedClientConn :: "nat \<Rightarrow> string \<Rightarrow> prefixConn" where
  "bufferedClientConn buffered rest = \<lparr>pre = take buffered rest, sock = drop buffered rest\<rparr>"

definition prefix_read :: "nat \<Rightarrow> nat \<Rightarrow> prefixConn \<Rightarrow> string \<times> prefixConn" where
  "prefix_read k m c =
     (if 0 < length (pre c) then (take k (pre c), c\<lparr>pre := drop k (pre c)\<rparr>)
      else (take (min k m) (sock c), c\<lparr>sock := drop (min k m) (sock c)\<rparr>))"

fun prefix_reads :: "(nat \<times> nat) list \<Rightarrow> prefixConn \<Rightarrow> string \<times> prefixConn" where
  "prefix_reads [] c = ([], c)"
| "prefix_reads ((k, m) # ks) c =
     (let (b, c) = prefix_read k m c; (bs, c) = prefix_reads ks c in (b @ bs, c))"

text \<open>The \<^verbatim>\<open>Rewrite\<close> hook; \<open>out\<close> is the clone \<^verbatim>\<open>ReverseProxy\<close> hands it.\<close>

definition rewrite_request :: "(header \<Rightarrow> string list) \<Rightarrow> request \<Rightarrow> request \<Rightarrow> request" where
  "rewrite_request order in_req out_req =
     (let h = Del (Header out_req) ''Proxy-Authorization'' in
      out_req\<lparr>req_URL := (req_URL out_req)\<lparr>Scheme := ''http'', url_Host := req_Host in_req\<rparr>,
              RequestURI := [], Header := stripEcomaControlHeaders (order h) h\<rparr>)"

text \<open>The transport of \<^verbatim>\<open>forwardHTTP\<close>: its dialer hands the tunnel out once, to a first dial, and what
  was never handed out is closed at the end. The library decides how often it dials.\<close>

definition forward_dial :: "'c option \<Rightarrow> 'c option \<times> 'c option" where
  "forward_dial upstream = (case upstream of None \<Rightarrow> (None, None) | Some conn \<Rightarrow> (Some conn, None))"

fun forward_dials :: "nat \<Rightarrow> 'c option \<Rightarrow> 'c list \<times> 'c option" where
  "forward_dials 0 upstream = ([], upstream)"
| "forward_dials (Suc k) upstream =
     (let (got, upstream) = forward_dial upstream; (more, upstream) = forward_dials k upstream
      in (case got of None \<Rightarrow> more | Some conn \<Rightarrow> conn # more, upstream))"

definition forward_closed :: "nat \<Rightarrow> 'c \<Rightarrow> 'c list" where
  "forward_closed k upstream = (case snd (forward_dials k (Some upstream)) of None \<Rightarrow> [] | Some conn \<Rightarrow> [conn])"

text \<open>The \<^verbatim>\<open>ErrorHandler\<close>: its error response is itself written through \<^verbatim>\<open>httpResponseWriter.Write\<close>.\<close>

definition forward_error :: "bool \<Rightarrow> response_writer \<Rightarrow> response_writer" where
  "forward_error canceled w =
     (let status = (if canceled then 504 else 502) in
      if \<not> wroteHeader w then Write (writeHTTPError [] status) w else w)"

end
