(* ===== verification/HttpInv.thy ===== *)
theory HttpInv
  imports Http
begin

text \<open>
  What a connection gets: the reply texts, which requests reach route selection and with which
  target, the error of every other one, the credential check, the headers that leave, and the
  bytes of a tunnel.
\<close>

section \<open>Reply texts\<close>

definition status_line :: "nat \<Rightarrow> string" where
  "status_line status = ''HTTP/1.1 '' @ Itoa (int status) @ '' '' @ StatusText status @ crlf"

definition error_reply :: "nat \<Rightarrow> string" where
  "error_reply status = status_line status @ ''Connection: close'' @ crlf @ ''Content-Length: 0'' @ crlf @ crlf"

definition auth_reply :: string where
  "auth_reply = status_line 407 @ ''Connection: close'' @ crlf @ ''Content-Length: 0'' @ crlf @
     ''Proxy-Authenticate: Basic realm='' @ [chr 34] @ ''rotation-proxy-gateway'' @ [chr 34] @ crlf @ crlf"

lemma canonical_names [simp]:
  "CanonicalHeaderKey ''Connection'' = ''Connection''"
  "CanonicalHeaderKey ''Content-Length'' = ''Content-Length''"
  "CanonicalHeaderKey ''Proxy-Authenticate'' = ''Proxy-Authenticate''"
  "CanonicalHeaderKey ''Proxy-Authorization'' = ''Proxy-Authorization''"
  "CanonicalHeaderKey ''X-Ecoma-Proxy-Family'' = ''X-Ecoma-Proxy-Family''"
  "CanonicalHeaderKey ''X-Ecoma-Request-Id'' = ''X-Ecoma-Request-Id''"
  by code_simp+

lemma name_keys [simp]:
  "lexordp_eq (name_key (''Content-Length'', v)) (name_key (''Connection'', u)) = False"
  "lexordp_eq (name_key (''Proxy-Authenticate'', v)) (name_key (''Connection'', u)) = False"
  "lexordp_eq (name_key (''Content-Length'', v)) (name_key (''Proxy-Authenticate'', u)) = True"
  "lexordp_eq (name_key (''Connection'', v)) (name_key (''Proxy-Authenticate'', u)) = True"
  "lexordp_eq (name_key (''Connection'', v)) (name_key (''Content-Length'', u)) = True"
  by (simp_all add: name_key_def ord_def)

lemmas writer_defs = WriteHeader_def Write_def set_header_def newHTTPResponseWriter_def
  newTunnelResponseWriter_def header_lines_def

lemma writeHTTPError_text: "writeHTTPError conn status = conn @ error_reply status"
  by (simp add: writeHTTPError_def writer_defs error_reply_def status_line_def)

lemma requireProxyAuthorization_text: "requireProxyAuthorization conn = conn @ auth_reply"
  by (simp add: requireProxyAuthorization_def writer_defs auth_reply_def status_line_def)

section \<open>The interface of a replier\<close>

text \<open>What route selection relies on: a success writes one fixed text, a failure the error reply of the
  status that was set last.\<close>

locale replier =
  fixes wire_of :: "'r \<Rightarrow> string" and ok :: "'r \<Rightarrow> 'r" and fail :: "'r \<Rightarrow> 'r"
    and set_status :: "nat \<Rightarrow> 'r \<Rightarrow> 'r" and success :: string
  assumes ok_writes: "wire_of (ok r) = wire_of r @ success"
    and fail_writes: "wire_of (fail (set_status n r)) = wire_of r @ error_reply n"
begin

lemma one_reply:
  "wire_of (if status = 200 then ok r else replyFailure fail set_status r status) =
     wire_of r @ (if status = 200 then success else error_reply status)"
  by (simp add: replyFailure_def ok_writes fail_writes)

end

interpretation connect: replier r_conn connectReplier_ok replier_fail setFailureStatus
  "status_line 200 @ ''Content-Length: 0'' @ crlf @ crlf"
  by unfold_locales
    (simp_all add: connectReplier_ok_def replier_fail_def setFailureStatus_def writeHTTPError_text writer_defs
      status_line_def)

interpretation forward: replier r_conn forwardReplier_ok replier_fail setFailureStatus "[]"
  by unfold_locales (simp_all add: forwardReplier_ok_def replier_fail_def setFailureStatus_def writeHTTPError_text)

lemma replier_text_reply:
  "replier_text isConnect conn status =
     conn @ (if status \<noteq> 200 then error_reply status
             else if isConnect then status_line 200 @ ''Content-Length: 0'' @ crlf @ crlf else [])"
proof -
  let ?r = "\<lparr>r_conn = conn, failureStatus = 502\<rparr>"
  show ?thesis
    using connect.one_reply [of status ?r] forward.one_reply [of status ?r]
    by (cases isConnect; cases "status = 200") (simp_all add: replier_text_def Let_def)
qed

text \<open>The tunnel of a forwarded request is used by one dial or closed, never both and never twice.\<close>

lemma forward_dials_none: "forward_dials k None = ([], None)"
  by (induction k) (simp_all add: forward_dial_def)

lemma forward_dials_once:
  "fst (forward_dials k (Some c)) @ forward_closed k c = [c]"
  by (cases k) (simp_all add: forward_closed_def forward_dial_def forward_dials_none)

section \<open>Targets\<close>

text \<open>What an authority names: a host that is kept as it stands, never resolved, and a port that is
  its digits, or the default of the scheme where the request may omit it.\<close>

definition host_type :: "string \<Rightarrow> addr_type" where
  "host_type host = (case ParseIP host of None \<Rightarrow> AddrDomain
     | Some ip \<Rightarrow> if is_v4 ip then AddrIPv4 else AddrIPv6)"

definition plain_authority :: "http_lib \<Rightarrow> string \<Rightarrow> url \<Rightarrow> bool" where
  "plain_authority lib authority u \<longleftrightarrow>
     authority \<noteq> [] \<and> set authority \<inter> authority_marks = {} \<and> urlParse lib (''http://'' @ authority) = Some u \<and>
     url_Host u = authority \<and> User u = None \<and> Hostname u \<noteq> [] \<and>
     (url_Port u = [] \<longrightarrow> \<not> HasSuffix authority '':'')"

definition names_target :: "http_lib \<Rightarrow> string \<Rightarrow> bool \<Rightarrow> target \<Rightarrow> bool" where
  "names_target lib authority requirePort t \<longleftrightarrow>
     (\<exists>u. plain_authority lib authority u \<and> Host t = Hostname u \<and> Type t = host_type (Hostname u) \<and>
       (if url_Port u = [] then \<not> requirePort \<and> Port t = 80
        else Port t = digits_val (url_Port u) \<and> 1 \<le> Port t \<and> Port t \<le> 65535))"

lemma splitHTTPAuthority_iff:
  "splitHTTPAuthority lib authority = Inr (host, port, hasPort) \<longleftrightarrow>
     (\<exists>u. plain_authority lib authority u \<and> host = Hostname u \<and> port = url_Port u \<and> hasPort = (url_Port u \<noteq> []))"
  by (auto simp: splitHTTPAuthority_def plain_authority_def ContainsAny_def list_ex_iff split: option.splits if_splits)

lemma Atoi_port:
  assumes "list_all is_digit p" and "p \<noteq> []"
  shows "(\<exists>n. Atoi p = Some n \<and> 1 \<le> n \<and> n \<le> 65535 \<and> m = nat n) \<longleftrightarrow>
    1 \<le> digits_val p \<and> digits_val p \<le> 65535 \<and> m = digits_val p"
proof -
  have "hd p \<noteq> CHR ''-''" "hd p \<noteq> CHR ''+''"
    using assms by (cases p; auto simp: is_digit_def ord_def)+
  then have a: "Atoi p = (if int (digits_val p) > max_int64 then None else Some (int (digits_val p)))"
    using assms by (auto simp: Atoi_def Let_def min_int64_def)
  then show ?thesis by (auto simp: max_int64_def)
qed

lemma Atoi_80: "Atoi ''80'' = Some 80"
  by code_simp

lemma targetFromAuthority_iff: "targetFromAuthority lib authority requirePort = Inr t \<longleftrightarrow> names_target lib authority requirePort t"
proof (cases "splitHTTPAuthority lib authority")
  case (Inl e)
  then have "\<not> plain_authority lib authority u" for u
    using splitHTTPAuthority_iff [of lib authority "Hostname u" "url_Port u" "url_Port u \<noteq> []"] by auto
  then show ?thesis using Inl by (simp add: targetFromAuthority_def names_target_def)
next
  case (Inr r)
  obtain host port hasPort where r: "r = (host, port, hasPort)" by (cases r)
  then obtain u where u: "plain_authority lib authority u" "host = Hostname u" "port = url_Port u" "hasPort = (url_Port u \<noteq> [])"
    using Inr by (auto simp: splitHTTPAuthority_iff)
  then have uniq: "plain_authority lib authority v \<longleftrightarrow> v = u" for v by (auto simp: plain_authority_def)
  have eq: "Inr t' = (Inr t :: authority_error + target) \<longleftrightarrow> Host t = Host t' \<and> Port t = Port t' \<and> Type t = Type t'" for t' by auto
  show ?thesis
  proof (cases "url_Port u = []")
    case True
    then show ?thesis
      using Inr r u by (auto simp: targetFromAuthority_def names_target_def uniq Atoi_80 eq host_type_def)
  next
    case False
    then show ?thesis
      using Inr r u Atoi_port [OF url_Port_digits False, of "Port t"]
      by (auto simp: targetFromAuthority_def names_target_def uniq eq host_type_def not_less split: option.splits)
  qed
qed

section \<open>Which requests are admitted\<close>

text \<open>The two accepted shapes: a tunnel to \<open>host:port\<close>, and an absolute \<open>http\<close> request.\<close>

definition proxy_form :: "http_lib \<Rightarrow> request \<Rightarrow> string \<Rightarrow> bool \<Rightarrow> target \<Rightarrow> bool" where
  "proxy_form lib req host isConnect t \<longleftrightarrow>
     ProtoMajor req = 1 \<and> ProtoMinor req = 1 \<and> isConnect = (Method req = ''CONNECT'') \<and>
     (if isConnect then Scheme (req_URL req) = [] \<and> Path (req_URL req) = [] \<and> RawQuery (req_URL req) = []
      else Method req \<in> {''GET'', ''HEAD'', ''POST''} \<and> Scheme (req_URL req) \<noteq> [] \<and> User (req_URL req) = None \<and>
        Equal_Fold (fold_unicode lib) (Scheme (req_URL req)) ''http'') \<and>
     (host \<noteq> [] \<longrightarrow> sameHTTPAuthority lib (url_Host (req_URL req)) host) \<and>
     names_target lib (url_Host (req_URL req)) isConnect t"

lemma validate_iff: "validateHTTPProxyRequest lib req host = Inr (t, isConnect) \<longleftrightarrow> proxy_form lib req host isConnect t"
proof -
  have ne: "\<not> names_target lib [] b t" for b by (simp add: names_target_def plain_authority_def)
  have t: "(case targetFromAuthority lib a b of Inl e \<Rightarrow> Inl 400 | Inr t' \<Rightarrow> Inr (t', c)) = (Inr (t, d) :: nat + target \<times> bool) \<longleftrightarrow>
      names_target lib a b t \<and> d = c" for a b c d
    by (auto simp: targetFromAuthority_iff [symmetric] split: sum.splits)
  consider (version) "\<not> (ProtoMajor req = 1 \<and> ProtoMinor req = 1)"
    | (tunnel) "ProtoMajor req = 1" "ProtoMinor req = 1" "Method req = ''CONNECT''"
    | (absolute) "ProtoMajor req = 1" "ProtoMinor req = 1" "Method req \<noteq> ''CONNECT''" by blast
  then show ?thesis
  proof cases
    case version
    then show ?thesis by (auto simp: validateHTTPProxyRequest_def proxy_form_def Let_def)
  next
    case tunnel
    then show ?thesis using ne
      by (simp add: validateHTTPProxyRequest_def proxy_form_def Let_def t) (cases "url_Host (req_URL req) = []"; fastforce)
  next
    case absolute
    then show ?thesis using ne
      by (simp add: validateHTTPProxyRequest_def proxy_form_def Let_def t) (cases "url_Host (req_URL req) = []"; fastforce)
  qed
qed

definition family_named :: "string list \<Rightarrow> proxyFamily \<Rightarrow> bool" where
  "family_named values f \<longleftrightarrow>
     values = [] \<and> f = familyMixed \<or> values = [''mixed''] \<and> f = familyMixed \<or>
     values = [''v4''] \<and> f = familyV4 \<or> values = [''v6''] \<and> f = familyV6"

lemma parseProxyFamily_iff: "parseProxyFamily vs = Inr f \<longleftrightarrow> family_named vs f"
  by (cases vs) (auto simp: parseProxyFamily_def family_named_def)

text \<open>The header block, the request and the Host field the connection's bytes hold.\<close>

definition framed :: "string \<Rightarrow> string \<Rightarrow> string \<Rightarrow> bool" where
  "framed input header rest \<longleftrightarrow>
     header_block input header \<and> input = header @ rest \<and> length header \<le> maxInboundHeaderBytes"

definition inbound :: "http_lib \<Rightarrow> string \<Rightarrow> request \<Rightarrow> string \<Rightarrow> string \<Rightarrow> bool" where
  "inbound lib input req rest host \<longleftrightarrow>
     (\<exists>header. framed input header rest \<and> ReadRequest lib header = Some req \<and>
       headerHost (fold_unicode lib) header = Inr host)"

lemma readHTTPHeader_iff: "readHTTPHeader input = Inr (header, rest) \<longleftrightarrow> framed input header rest"
proof -
  have "\<not> ends_block []" by (simp add: ends_block_def HasSuffix_def crlf_def)
  then show ?thesis using read_header_sound [of "[]" input header rest] by (simp add: readHTTPHeader_def framed_def)
qed

lemma readInboundRequest_iff:
  "readInboundRequest lib input = Inr (req, rest, host) \<longleftrightarrow> inbound lib input req rest host"
  unfolding inbound_def readHTTPHeader_iff [symmetric]
  by (auto simp: readInboundRequest_def split: sum.splits option.splits)

definition stripped :: "(header \<Rightarrow> string list) \<Rightarrow> request \<Rightarrow> request" where
  "stripped order req =
     req\<lparr>Header := stripEcomaControlHeaders (order (Del (Header req) ''Proxy-Authorization''))
           (Del (Header req) ''Proxy-Authorization'')\<rparr>"

lemma validate_stripped [simp]:
  "validateHTTPProxyRequest lib (stripped order req) host = validateHTTPProxyRequest lib req host"
  by (simp add: validateHTTPProxyRequest_def stripped_def Let_def cong: if_cong)

lemma accept_request_eq:
  "accept_request lib acct order input conn =
     (case readInboundRequest lib input of
        Inl e \<Rightarrow> Inl (conn @ error_reply (if e = VersionNotSupported then 505 else 400))
      | Inr (req, rest, host) \<Rightarrow>
          if \<not> checkProxyAuthorization lib req acct then Inl (conn @ auth_reply)
          else (case parseProxyFamily (Values (Header req) ''X-Ecoma-Proxy-Family'') of
              Inl e \<Rightarrow> Inl (conn @ error_reply 400)
            | Inr family \<Rightarrow>
                (case validateHTTPProxyRequest lib req host of
                   Inl status \<Rightarrow> Inl (conn @ error_reply status)
                 | Inr (t, c) \<Rightarrow> Inr \<lparr>a_request = stripped order req, a_target = t, a_connect = c,
                     a_family = family, a_rest = rest\<rparr>)))"
proof (cases "readInboundRequest lib input")
  case (Inr r)
  obtain req rest host where r: "r = (req, rest, host)" by (cases r)
  then show ?thesis
    using Inr validate_stripped [of lib order req host, unfolded stripped_def]
    by (simp add: accept_request_def writeHTTPError_text requireProxyAuthorization_text stripped_def Let_def
        split: sum.split)
qed (simp add: accept_request_def writeHTTPError_text)

lemma accept_iff:
  "accept_request lib acct order input conn = Inr a \<longleftrightarrow>
     (\<exists>req host. inbound lib input req (a_rest a) host \<and> checkProxyAuthorization lib req acct \<and>
       family_named (Values (Header req) ''X-Ecoma-Proxy-Family'') (a_family a) \<and>
       proxy_form lib req host (a_connect a) (a_target a) \<and> a_request a = stripped order req)"
proof -
  have "Inr \<lparr>a_request = r, a_target = t, a_connect = c, a_family = f, a_rest = s\<rparr> = (Inr a :: string + accepted) \<longleftrightarrow>
      a_request a = r \<and> a_target a = t \<and> a_connect a = c \<and> a_family a = f \<and> a_rest a = s" for r t c f s by auto
  then show ?thesis
    unfolding accept_request_eq readInboundRequest_iff [symmetric] parseProxyFamily_iff [symmetric]
      validate_iff [symmetric]
    by (auto split: sum.splits prod.splits if_splits)
qed

section \<open>Which requests are refused, and how\<close>

definition authenticated :: "http_lib \<Rightarrow> inboundAccount option \<Rightarrow> string \<Rightarrow> request \<Rightarrow> string \<Rightarrow> bool" where
  "authenticated lib acct input req host \<longleftrightarrow>
     (\<exists>rest f. inbound lib input req rest host \<and> checkProxyAuthorization lib req acct \<and>
       family_named (Values (Header req) ''X-Ecoma-Proxy-Family'') f)"

text \<open>An absolute-form request as far as its target names a place.\<close>

definition names_place :: "request \<Rightarrow> bool" where
  "names_place req \<longleftrightarrow> Scheme (req_URL req) \<noteq> [] \<and> url_Host (req_URL req) \<noteq> []"

definition version_11 :: "request \<Rightarrow> bool" where
  "version_11 req \<longleftrightarrow> ProtoMajor req = 1 \<and> ProtoMinor req = 1"

definition http_scheme :: "http_lib \<Rightarrow> request \<Rightarrow> bool" where
  "http_scheme lib req \<longleftrightarrow> Equal_Fold (fold_unicode lib) (Scheme (req_URL req)) ''http''"

inductive refused :: "http_lib \<Rightarrow> inboundAccount option \<Rightarrow> string \<Rightarrow> string \<Rightarrow> bool"
  for lib acct input where
  no_block: "(\<And>header rest. \<not> framed input header rest) \<Longrightarrow> refused lib acct input (error_reply 400)"
| unparsed: "framed input header rest \<Longrightarrow> ReadRequest lib header = None \<Longrightarrow>
    refused lib acct input (error_reply (if headerRequestsUnsupportedHTTPVersion header then 505 else 400))"
| no_host: "framed input header rest \<Longrightarrow> ReadRequest lib header = Some req \<Longrightarrow>
    headerHost (fold_unicode lib) header = Inl e \<Longrightarrow> refused lib acct input (error_reply 400)"
| credentials: "inbound lib input req rest host \<Longrightarrow> \<not> checkProxyAuthorization lib req acct \<Longrightarrow>
    refused lib acct input auth_reply"
| family: "inbound lib input req rest host \<Longrightarrow> checkProxyAuthorization lib req acct \<Longrightarrow>
    (\<And>f. \<not> family_named (Values (Header req) ''X-Ecoma-Proxy-Family'') f) \<Longrightarrow>
    refused lib acct input (error_reply 400)"
| version: "authenticated lib acct input req host \<Longrightarrow> \<not> version_11 req \<Longrightarrow>
    refused lib acct input (error_reply 505)"
| tunnel_form: "authenticated lib acct input req host \<Longrightarrow> version_11 req \<Longrightarrow> Method req = ''CONNECT'' \<Longrightarrow>
    (\<And>t. \<not> proxy_form lib req host True t) \<Longrightarrow> refused lib acct input (error_reply 400)"
| asterisk: "authenticated lib acct input req host \<Longrightarrow> version_11 req \<Longrightarrow> Method req \<noteq> ''CONNECT'' \<Longrightarrow>
    \<not> names_place req \<Longrightarrow> RequestURI req = ''*'' \<Longrightarrow> refused lib acct input (error_reply 501)"
| origin_form: "authenticated lib acct input req host \<Longrightarrow> version_11 req \<Longrightarrow> Method req \<noteq> ''CONNECT'' \<Longrightarrow>
    \<not> names_place req \<Longrightarrow> RequestURI req \<noteq> ''*'' \<Longrightarrow> refused lib acct input (error_reply 400)"
| scheme: "authenticated lib acct input req host \<Longrightarrow> version_11 req \<Longrightarrow> Method req \<noteq> ''CONNECT'' \<Longrightarrow>
    names_place req \<Longrightarrow> \<not> http_scheme lib req \<Longrightarrow> refused lib acct input (error_reply 501)"
| unsupported_method: "authenticated lib acct input req host \<Longrightarrow> version_11 req \<Longrightarrow> Method req \<noteq> ''CONNECT'' \<Longrightarrow>
    names_place req \<Longrightarrow> http_scheme lib req \<Longrightarrow> Method req \<notin> {''GET'', ''HEAD'', ''POST''} \<Longrightarrow>
    refused lib acct input (error_reply 405)"
| absolute_form: "authenticated lib acct input req host \<Longrightarrow> version_11 req \<Longrightarrow>
    Method req \<in> {''GET'', ''HEAD'', ''POST''} \<Longrightarrow> names_place req \<Longrightarrow> http_scheme lib req \<Longrightarrow>
    (\<And>t. \<not> proxy_form lib req host False t) \<Longrightarrow> refused lib acct input (error_reply 400)"

text \<open>The status \<open>validateHTTPProxyRequest\<close> gives a request that has no accepted form.\<close>

definition form_status :: "http_lib \<Rightarrow> request \<Rightarrow> nat" where
  "form_status lib req =
     (if \<not> version_11 req then 505
      else if Method req = ''CONNECT'' then 400
      else if \<not> names_place req then (if RequestURI req = ''*'' then 501 else 400)
      else if \<not> http_scheme lib req then 501
      else if Method req \<notin> {''GET'', ''HEAD'', ''POST''} then 405
      else 400)"

lemma validate_Inl:
  assumes "validateHTTPProxyRequest lib req host = Inl status"
  shows "status = form_status lib req"
proof -
  have t: "(case x of Inl e \<Rightarrow> Inl 400 | Inr t' \<Rightarrow> Inr (t', c)) = (Inl status :: nat + target \<times> bool) \<Longrightarrow> status = 400"
    for x :: "authority_error + target" and c by (cases x) auto
  show ?thesis
    using assms
    by (auto simp: validateHTTPProxyRequest_def form_status_def version_11_def names_place_def http_scheme_def Let_def
        dest: t split: if_split_asm)
qed

lemma validate_refused:
  "validateHTTPProxyRequest lib req host = Inl status \<longleftrightarrow>
     status = form_status lib req \<and> (\<forall>t c. \<not> proxy_form lib req host c t)"
proof (cases "validateHTTPProxyRequest lib req host")
  case (Inl s)
  then show ?thesis using validate_Inl validate_iff [of lib req host] by auto
next
  case (Inr r)
  then show ?thesis using validate_iff [of lib req host "fst r" "snd r"] by auto
qed

lemma framed_unique: "framed input h r \<Longrightarrow> framed input h' r' \<Longrightarrow> h' = h \<and> r' = r"
  using readHTTPHeader_iff [of input h r] readHTTPHeader_iff [of input h' r'] by simp

lemma read_unframed: "(\<And>h r. \<not> framed input h r) \<Longrightarrow> readInboundRequest lib input = Inl BadFrame"
  using readHTTPHeader_iff [of input] by (auto simp: readInboundRequest_def split: sum.splits)

lemma read_framed:
  "framed input header rest \<Longrightarrow> readInboundRequest lib input =
     (case ReadRequest lib header of
        None \<Rightarrow> Inl (if headerRequestsUnsupportedHTTPVersion header then VersionNotSupported else BadFrame)
      | Some req \<Rightarrow>
          (case headerHost (fold_unicode lib) header of
             Inl e \<Rightarrow> Inl BadFrame
           | Inr host \<Rightarrow> Inr (req, rest, host)))"
  by (simp add: readInboundRequest_def flip: readHTTPHeader_iff)

lemma authenticated_accept:
  assumes "authenticated lib acct input req host"
  shows "\<exists>rest f. accept_request lib acct order input conn =
    (case validateHTTPProxyRequest lib req host of
       Inl status \<Rightarrow> Inl (conn @ error_reply status)
     | Inr (t, c) \<Rightarrow> Inr \<lparr>a_request = stripped order req, a_target = t, a_connect = c, a_family = f, a_rest = rest\<rparr>)"
proof -
  obtain rest f where "readInboundRequest lib input = Inr (req, rest, host)" "checkProxyAuthorization lib req acct"
      "parseProxyFamily (Values (Header req) ''X-Ecoma-Proxy-Family'') = Inr f"
    using assms by (auto simp: authenticated_def simp flip: readInboundRequest_iff parseProxyFamily_iff)
  then show ?thesis by (intro exI [of _ rest] exI [of _ f]) (simp add: accept_request_eq)
qed

lemma form_refused:
  assumes "authenticated lib acct input req host" and "\<And>c t. \<not> proxy_form lib req host c t"
  shows "accept_request lib acct order input conn = Inl (conn @ error_reply (form_status lib req))"
  using authenticated_accept [OF assms(1), of order conn] validate_refused [of lib req host "form_status lib req"] assms(2)
  by auto

lemmas form_defs = form_status_def proxy_form_def version_11_def names_place_def http_scheme_def

lemma names_target_place: "names_target lib a c t \<Longrightarrow> a \<noteq> []"
  by (auto simp: names_target_def plain_authority_def)

lemma refused_accept:
  assumes "refused lib acct input reply"
  shows "accept_request lib acct order input conn = Inl (conn @ reply)"
  using assms
proof cases
  case no_block
  then show ?thesis by (simp add: accept_request_eq read_unframed)
next
  case (unparsed header rest)
  then show ?thesis by (simp add: accept_request_eq read_framed)
next
  case (no_host header rest req e)
  then show ?thesis by (simp add: accept_request_eq read_framed)
next
  case (credentials req rest host)
  then show ?thesis by (simp add: accept_request_eq flip: readInboundRequest_iff)
next
  case (family req rest host)
  then show ?thesis
    by (auto simp: accept_request_eq split: sum.split simp flip: readInboundRequest_iff parseProxyFamily_iff)
next
  case (version req host)
  then show ?thesis using form_refused [of lib acct input req host order conn] by (auto simp: form_defs)
next
  case (tunnel_form req host)
  then show ?thesis using form_refused [of lib acct input req host order conn]
    by (simp add: form_status_def) (metis proxy_form_def)
next
  case (asterisk req host)
  then show ?thesis using form_refused [of lib acct input req host order conn] names_target_place
    by (auto simp: form_defs)
next
  case (origin_form req host)
  then show ?thesis using form_refused [of lib acct input req host order conn] names_target_place
    by (auto simp: form_defs)
next
  case (scheme req host)
  then show ?thesis using form_refused [of lib acct input req host order conn]
    by (auto simp: form_defs)
next
  case (unsupported_method req host)
  then show ?thesis using form_refused [of lib acct input req host order conn]
    by (auto simp: form_defs)
next
  case (absolute_form req host)
  then have "Method req \<noteq> ''CONNECT''" by auto
  then have "\<not> proxy_form lib req host c t" for c t using absolute_form(7) by (cases c) (auto simp: proxy_form_def)
  then show ?thesis using form_refused [OF absolute_form(2)] absolute_form \<open>Method req \<noteq> ''CONNECT''\<close>
    by (auto simp: form_status_def)
qed

lemma accept_refused:
  assumes "accept_request lib acct order input [] = Inl reply"
  shows "refused lib acct input reply"
proof (cases "\<exists>header rest. framed input header rest")
  case False
  then have "refused lib acct input (error_reply 400)" by (blast intro: refused.no_block)
  then show ?thesis using assms refused_accept [of lib acct input "error_reply 400" order "[]"] by simp
next
  case True
  then obtain header rest where fr: "framed input header rest" by blast
  have done_if: "refused lib acct input x \<Longrightarrow> ?thesis" for x
    using assms refused_accept [of lib acct input x order "[]"] by simp
  show ?thesis
  proof (cases "ReadRequest lib header")
    case None
    then show ?thesis using done_if refused.unparsed [OF fr] by blast
  next
    case (Some req)
    show ?thesis
    proof (cases "headerHost (fold_unicode lib) header")
      case (Inl e)
      then show ?thesis using done_if refused.no_host [OF fr Some] by blast
    next
      case (Inr host)
      then have inb: "inbound lib input req rest host" using fr Some by (auto simp: inbound_def)
      show ?thesis
      proof (cases "checkProxyAuthorization lib req acct \<and>
          (\<exists>f. family_named (Values (Header req) ''X-Ecoma-Proxy-Family'') f)")
        case False
        then show ?thesis
          using done_if refused.credentials [OF inb] refused.family [OF inb] by blast
      next
        case True
        then have au: "authenticated lib acct input req host" using inb by (auto simp: authenticated_def)
        show ?thesis
        proof (cases "\<exists>c t. proxy_form lib req host c t")
          case True
          then obtain c t where "validateHTTPProxyRequest lib req host = Inr (t, c)"
            using validate_iff by blast
          then show ?thesis using authenticated_accept [OF au, of order "[]"] assms by auto
        next
          case no_form: False
          then show ?thesis
            using done_if refused.version [OF au] refused.tunnel_form [OF au] refused.asterisk [OF au]
              refused.origin_form [OF au] refused.scheme [OF au] refused.unsupported_method [OF au]
              refused.absolute_form [OF au] by blast
        qed
      qed
    qed
  qed
qed

lemma refused_iff: "accept_request lib acct order input [] = Inl reply \<longleftrightarrow> refused lib acct input reply"
  using accept_refused refused_accept [of lib acct input reply order "[]"] by auto

lemma refused_texts: "refused lib acct input reply \<Longrightarrow> reply = auth_reply \<or> reply \<in> error_reply ` {400, 405, 501, 505}"
  by (induction rule: refused.induct) auto

end
