(* ===== verification/Connection.thy ===== *)
theory Connection
  imports HttpInv
begin

text \<open>
  The properties of one client connection: errors before route selection, admission, credentials,
  the headers and bytes that go upstream, the replies after a failed forward, and the correlation id.
\<close>

section \<open>Errors\<close>

text \<open>Claim C11: a connection that does not present one well-formed, authorized proxy request of an
  accepted form is answered with exactly one bodyless response. Which response follows from the first
  condition that fails, in the order frame, parse, Host field, credentials, family header, version,
  form: \<open>refused\<close> lists them. The response is a fixed text, so that nothing the client sent is
  reflected; the request counter stays, no route is picked and no route's health is touched. The
  counter stays only then.\<close>

theorem serveConn_rejects:
  assumes "refused lib acct input reply"
  shows "serveConn lib s acct order env gen d established input h fo n =
      \<lparr>wire = reply, requests = n, served = None, after = start_session h fo\<rparr> \<and>
    (reply = auth_reply \<or> reply \<in> error_reply ` {400, 405, 501, 505}) \<and>
    (\<forall>input'. requests (serveConn lib s acct order env gen d established input' h fo n) = n \<longrightarrow>
      refused lib acct input' (wire (serveConn lib s acct order env gen d established input' h fo n)))"
proof (intro conjI allI impI)
  show "serveConn lib s acct order env gen d established input h fo n =
      \<lparr>wire = reply, requests = n, served = None, after = start_session h fo\<rparr>"
    using refused_iff [of lib acct order input reply] assms by (simp add: serveConn_def)
  show "reply = auth_reply \<or> reply \<in> error_reply ` {400, 405, 501, 505}" by (rule refused_texts [OF assms])
next
  fix input'
  assume "requests (serveConn lib s acct order env gen d established input' h fo n) = n"
  then show "refused lib acct input' (wire (serveConn lib s acct order env gen d established input' h fo n))"
  proof (cases "accept_request lib acct order input' []")
    case (Inl reply')
    then show ?thesis using refused_iff [of lib acct order input' reply'] by (simp add: serveConn_def)
  qed (auto simp: serveConn_def split: prod.splits)
qed

definition demo_place :: url where
  "demo_place = \<lparr>Scheme = ''http'', User = None, url_Host = ''h'', Path = ''/'', RawQuery = [], Fragment = []\<rparr>"

definition demo_request :: "string \<Rightarrow> request" where
  "demo_request meth = \<lparr>Method = meth, ProtoMajor = 1, ProtoMinor = 1, req_URL = demo_place, req_Host = ''h'',
     RequestURI = ''http://h/'', Header = []\<rparr>"

definition demo_lib :: "string \<Rightarrow> http_lib" where
  "demo_lib meth = \<lparr>ReadRequest = (\<lambda>h. Some (demo_request meth)), urlParse = (\<lambda>u. Some demo_place),
     fold_unicode = (\<lambda>a b. False), keyed = (\<lambda>s. take 32 (s @ replicate 32 (chr 0)))\<rparr>"

definition demo_input :: string where
  "demo_input = ''X http://h/ HTTP/1.1'' @ crlf @ crlf"

lemma cr_not_newline: "chr 13 \<noteq> chr 10"
  by code_simp

lemma cut_crlf_line: "newline \<notin> set a \<Longrightarrow> cut_crlf (a @ crlf @ b) = Some (a, b)"
proof (induction a)
  case (Cons c a)
  then have "\<not> HasPrefix (c # a @ crlf @ b) crlf"
    using cr_not_newline by (cases a) (auto simp: crlf_def HasPrefix_iff newline_def)
  then show ?case using Cons by simp
qed (simp add: crlf_def HasPrefix_def)

lemma framed_line:
  assumes "newline \<notin> set a" and "length a + 4 \<le> maxInboundHeaderBytes"
  shows "framed (a @ crlf @ crlf @ rest) (a @ crlf @ crlf) rest"
proof -
  have "\<not> ends_block (take k (a @ crlf @ crlf))" if k: "k < length a + 4" for k
  proof (cases "k \<le> length a")
    case True
    have "\<not> ends_block (take k ([] @ a))"
      by (rule no_block_inside) (use assms(1) True in \<open>auto simp: ends_block_def HasSuffix_def crlf_def\<close>)
    then show ?thesis using True by simp
  next
    case False
    then consider "k = length a + 1" | "k = length a + 2" | "k = length a + 3" using k by linarith
    then show ?thesis
    proof cases
      case 2
      have "a \<noteq> t @ crlf" for t using assms(1) newline_crlf by (auto simp: crlf_def newline_def)
      then show ?thesis using 2 by (auto simp: ends_block_def HasSuffix_iff crlf_def)
    qed (use cr_not_newline in \<open>auto simp: crlf_def newline_def dest!: ends_block_last\<close>)
  qed
  then show ?thesis
    using assms(2) by (auto simp: framed_def header_block_def ends_block_def HasSuffix_iff crlf_def)
qed

lemma demo_framed: "framed demo_input demo_input []"
proof -
  have "newline \<notin> set ''X http://h/ HTTP/1.1''" by code_simp
  then show ?thesis
    using framed_line [of "''X http://h/ HTTP/1.1''" "[]"] unfolding demo_input_def by (simp add: maxInboundHeaderBytes_def)
qed

lemma demo_no_host: "headerHost uf demo_input = Inr []"
proof -
  have "newline \<notin> set ''X http://h/ HTTP/1.1''" and "\<not> Equal_Fold uf ''X http'' ''Host''"
    by (code_simp, simp add: Equal_Fold_def is_ascii_def ord_def)
  moreover have "cut_crlf crlf = Some ([], [])" "crlf \<noteq> []" using cut_crlf_line [of "[]" "[]"] by (simp_all add: crlf_def)
  ultimately show ?thesis
    using cut_crlf_line [of "''X http://h/ HTTP/1.1''" crlf] unfolding demo_input_def
    by (subst headerHost.simps, simp, subst headerHost.simps, simp)
qed

lemma demo_inbound: "inbound (demo_lib meth) demo_input (demo_request meth) [] []"
  using demo_framed demo_no_host by (auto simp: inbound_def demo_lib_def)

lemma demo_family: "family_named (Values (Header (demo_request meth)) ''X-Ecoma-Proxy-Family'') familyMixed"
  by (simp add: family_named_def demo_request_def Values_def)

lemma demo_open: "checkProxyAuthorization lib req None"
  by (simp add: checkProxyAuthorization_def)

theorem serveConn_rejects_witness:
  "\<forall>s order env gen d established h fo n.
     serveConn (demo_lib ''DELETE'') s None order env gen d established demo_input h fo n =
       \<lparr>wire = error_reply 405, requests = n, served = None, after = start_session h fo\<rparr>"
proof -
  have "authenticated (demo_lib ''DELETE'') None demo_input (demo_request ''DELETE'') []"
    using demo_inbound demo_family demo_open by (auto simp: authenticated_def)
  then have "refused (demo_lib ''DELETE'') None demo_input (error_reply 405)"
    by (rule refused.unsupported_method)
      (simp_all add: version_11_def names_place_def http_scheme_def Equal_Fold_def is_ascii_def ord_def
        demo_request_def demo_place_def)
  then show ?thesis using serveConn_rejects [of "demo_lib ''DELETE''" None demo_input "error_reply 405"] by simp
qed

section \<open>Admission\<close>

lemma serveTunnel_status: "fst (serveTunnel s env gen f t d ok est h fo) \<in> {200, 502, 503}"
  by (simp add: serveTunnel_def split: prod.splits outcome.splits)

lemma accept_inbound:
  assumes "inbound lib input req rest host" and "checkProxyAuthorization lib req acct"
    and "family_named (Values (Header req) ''X-Ecoma-Proxy-Family'') f" and "proxy_form lib req host c t"
  shows "accept_request lib acct order input conn =
    Inr \<lparr>a_request = stripped order req, a_target = t, a_connect = c, a_family = f, a_rest = rest\<rparr>"
  using assms by (auto simp: accept_iff)

text \<open>Claim C10: a request reaches route selection, and is counted, exactly when its connection frames
  one request that carries the credentials, names at most one egress family and has one of the two
  accepted forms; a CONNECT names \<open>host:port\<close>, an absolute request the host and port of its http
  URL or port 80, the Host field agrees when there is one, and the host is handed on as it was written.
  It is then served for that target and family, and the client gets the success reply of its form or
  one bodyless 502 or 503. The success reply of CONNECT has the reason phrase OK (the document on the
  inbound side announces another), and a request of either form counts (the documents of the counter
  speak of CONNECT only).\<close>

theorem serveConn_admits:
  assumes "inbound lib input req rest host" and "checkProxyAuthorization lib req acct"
    and "family_named (Values (Header req) ''X-Ecoma-Proxy-Family'') f" and "proxy_form lib req host c t"
  shows "(\<exists>status tunnel st a.
      a = \<lparr>a_request = stripped order req, a_target = t, a_connect = c, a_family = f, a_rest = rest\<rparr> \<and>
      serveTunnel s env gen f t d True (established a) h fo = (status, tunnel, st) \<and> status \<in> {200, 502, 503} \<and>
      serveConn lib s acct order env gen d established input h fo n =
        \<lparr>wire = (if status \<noteq> 200 then error_reply status
                 else if c then status_line 200 @ ''Content-Length: 0'' @ crlf @ crlf else []),
         requests = n + 1, served = map_option (Pair a) tunnel, after = st\<rparr>) \<and>
    (\<forall>input'. requests (serveConn lib s acct order env gen d established input' h fo n) \<noteq> n \<longrightarrow>
      (\<exists>req rest host f c t. inbound lib input' req rest host \<and> checkProxyAuthorization lib req acct \<and>
        family_named (Values (Header req) ''X-Ecoma-Proxy-Family'') f \<and> proxy_form lib req host c t))"
proof (intro conjI allI impI)
  let ?a = "\<lparr>a_request = stripped order req, a_target = t, a_connect = c, a_family = f, a_rest = rest\<rparr>"
  obtain status tunnel st where r: "serveTunnel s env gen f t d True (established ?a) h fo = (status, tunnel, st)"
    by (cases "serveTunnel s env gen f t d True (established ?a) h fo")
  then have "status \<in> {200, 502, 503}" using serveTunnel_status [of s env gen f t d True "established ?a" h fo] by simp
  moreover have "serveConn lib s acct order env gen d established input h fo n =
      \<lparr>wire = (if status \<noteq> 200 then error_reply status
               else if c then status_line 200 @ ''Content-Length: 0'' @ crlf @ crlf else []),
       requests = n + 1, served = map_option (Pair ?a) tunnel, after = st\<rparr>"
    using accept_inbound [OF assms, of order "[]"] r
    by (simp add: serveConn_def replier_text_reply)
  ultimately show "\<exists>status tunnel st a.
      a = \<lparr>a_request = stripped order req, a_target = t, a_connect = c, a_family = f, a_rest = rest\<rparr> \<and>
      serveTunnel s env gen f t d True (established a) h fo = (status, tunnel, st) \<and> status \<in> {200, 502, 503} \<and>
      serveConn lib s acct order env gen d established input h fo n =
        \<lparr>wire = (if status \<noteq> 200 then error_reply status
                 else if c then status_line 200 @ ''Content-Length: 0'' @ crlf @ crlf else []),
         requests = n + 1, served = map_option (Pair a) tunnel, after = st\<rparr>"
    using r by blast
next
  fix input'
  assume "requests (serveConn lib s acct order env gen d established input' h fo n) \<noteq> n"
  then obtain a where "accept_request lib acct order input' [] = Inr a"
    by (cases "accept_request lib acct order input' []") (auto simp: serveConn_def)
  then show "\<exists>req rest host f c t. inbound lib input' req rest host \<and> checkProxyAuthorization lib req acct \<and>
      family_named (Values (Header req) ''X-Ecoma-Proxy-Family'') f \<and> proxy_form lib req host c t"
    unfolding accept_iff by blast
qed

lemma demo_names: "names_target (demo_lib meth) ''h'' False \<lparr>Host = ''h'', Port = 80, Type = AddrDomain\<rparr>"
proof -
  have "Hostname demo_place = ''h''" "url_Port demo_place = []" "\<not> HasSuffix ''h'' '':''" "ParseIP ''h'' = None"
    "list_all (\<lambda>c. c \<notin> {CHR ''@'', CHR ''/'', CHR ''?'', CHR ''#'', CHR '' '', chr 9, chr 13, chr 10}) ''h''"
    by code_simp+
  then show ?thesis
    by (auto simp: names_target_def plain_authority_def host_type_def authority_marks_def demo_lib_def demo_place_def)
qed

theorem serveConn_admits_witness:
  "\<forall>s order env gen d established h fo. \<exists>status tunnel st a.
     serveTunnel s env gen familyMixed \<lparr>Host = ''h'', Port = 80, Type = AddrDomain\<rparr> d True (established a) h fo =
       (status, tunnel, st) \<and>
     serveConn (demo_lib ''GET'') s None order env gen d established demo_input h fo 7 =
       \<lparr>wire = (if status \<noteq> 200 then error_reply status else []), requests = 8,
        served = map_option (Pair a) tunnel, after = st\<rparr>"
proof -
  have "proxy_form (demo_lib ''GET'') (demo_request ''GET'') [] False \<lparr>Host = ''h'', Port = 80, Type = AddrDomain\<rparr>"
    using demo_names
    by (auto simp: proxy_form_def demo_request_def demo_place_def Equal_Fold_def is_ascii_def ord_def)
  note form = this
  show ?thesis
  proof (intro allI)
    fix s order env gen d established h fo
    obtain status tunnel st a where
      "serveTunnel s env gen familyMixed \<lparr>Host = ''h'', Port = 80, Type = AddrDomain\<rparr> d True (established a) h fo =
        (status, tunnel, st)"
      "serveConn (demo_lib ''GET'') s None order env gen d established demo_input h fo 7 =
        \<lparr>wire = (if status \<noteq> 200 then error_reply status
                 else if False then status_line 200 @ ''Content-Length: 0'' @ crlf @ crlf else []),
         requests = 7 + 1, served = map_option (Pair a) tunnel, after = st\<rparr>"
      using serveConn_admits [OF demo_inbound demo_open demo_family form, where s = s and env = env and gen = gen
          and order = order and d = d and established = established and h = h and fo = fo and n = 7, THEN conjunct1]
      by blast
    then show "\<exists>status tunnel st a.
       serveTunnel s env gen familyMixed \<lparr>Host = ''h'', Port = 80, Type = AddrDomain\<rparr> d True (established a) h fo =
         (status, tunnel, st) \<and>
       serveConn (demo_lib ''GET'') s None order env gen d established demo_input h fo 7 =
         \<lparr>wire = (if status \<noteq> 200 then error_reply status else []), requests = 8,
          served = map_option (Pair a) tunnel, after = st\<rparr>"
      by (intro exI [of _ status] exI [of _ tunnel] exI [of _ st] exI [of _ a]) simp
  qed
qed

section \<open>Credentials\<close>

text \<open>Two texts that the credential comparison cannot tell apart: the digest has a fixed length, so there
  are such pairs, and nothing is assumed about them.\<close>

definition digest_collision :: "http_lib \<Rightarrow> string \<Rightarrow> string \<Rightarrow> bool" where
  "digest_collision lib x y \<longleftrightarrow> x \<noteq> y \<and> keyed lib x = keyed lib y"

definition presents :: "http_lib \<Rightarrow> string list \<Rightarrow> string \<Rightarrow> string \<Rightarrow> bool" where
  "presents lib values user pw \<longleftrightarrow>
     (\<exists>scheme enc. values = [scheme @ CHR '' '' # enc] \<and> CHR '' '' \<notin> set scheme \<and>
        Equal_Fold (fold_unicode lib) scheme ''Basic'' \<and> set enc \<inter> {CHR '' '', chr 9} = {} \<and>
        DecodeString enc = Some (user @ CHR '':'' # pw)) \<and>
     CHR '':'' \<notin> set user \<and> user \<noteq> [] \<and> length user \<le> 255 \<and> length pw \<le> 255"

lemma check_presents:
  "checkProxyAuthorization lib req (Some acct) \<longleftrightarrow>
    (\<exists>user pw. presents lib (Values (Header req) ''Proxy-Authorization'') user pw \<and>
       credentialsMatch lib acct user pw)" (is "?l \<longleftrightarrow> ?r")
proof -
  have any: "ContainsAny enc X \<longleftrightarrow> set enc \<inter> X \<noteq> {}" for enc X
    by (auto simp: ContainsAny_def list_ex_iff)
  have nonempty: "DecodeString enc = Some (user @ CHR '':'' # pw) \<Longrightarrow> enc \<noteq> []" for enc user pw
    by (auto simp: DecodeString_def)
  show ?thesis
  proof
    assume ?l
    then obtain v scheme enc x user pw where v: "Values (Header req) ''Proxy-Authorization'' = [v]"
        "Cut v CHR '' '' = (scheme, enc, True)" "Equal_Fold (fold_unicode lib) scheme ''Basic''"
        "set enc \<inter> {CHR '' '', chr 9} = {}" "DecodeString enc = Some x" "Cut x CHR '':'' = (user, pw, True)"
        "user \<noteq> []" "length user \<le> 255" "length pw \<le> 255" "credentialsMatch lib acct user pw"
      by (auto simp: checkProxyAuthorization_def Let_def any length_Suc_conv
          split: prod.splits if_splits option.splits)
    then have "presents lib (Values (Header req) ''Proxy-Authorization'') user pw"
      by (auto simp: presents_def Cut_found)
    with v(10) show ?r by blast
  next
    assume ?r
    then show ?l
      using nonempty
      by (auto simp: presents_def checkProxyAuthorization_def Let_def any Cut_append)
  qed
qed

text \<open>Claim C12: with an account configured as \<open>raw\<close>, a request is authorized exactly when it has one
  Proxy-Authorization field, of scheme Basic and one blank-free word, whose base64 is a user and a
  password joined by a colon, of at most 255 bytes each, that are those of the account byte for byte,
  but for a text whose digest collides with the digest of the account's. Nothing is assumed of the
  digest. In particular the standard encoding of \<open>raw\<close> is accepted, and a request without the field, or
  with two of them, is not.\<close>

theorem authorized_exactly:
  assumes "parseAccount raw = Inr a"
  shows "raw = Username a @ CHR '':'' # Password a \<and>
    (checkProxyAuthorization lib req (Some (newInboundAccount lib a)) \<longleftrightarrow>
      (\<exists>user pw. presents lib (Values (Header req) ''Proxy-Authorization'') user pw \<and>
        (user = Username a \<or> digest_collision lib user (Username a)) \<and>
        (pw = Password a \<or> digest_collision lib pw (Password a)))) \<and>
    (Values (Header req) ''Proxy-Authorization'' = [''Basic '' @ EncodeToString raw] \<longrightarrow>
      checkProxyAuthorization lib req (Some (newInboundAccount lib a))) \<and>
    (length (Values (Header req) ''Proxy-Authorization'') \<noteq> 1 \<longrightarrow>
      \<not> checkProxyAuthorization lib req (Some (newInboundAccount lib a)))"
proof -
  have acct: "Cut raw CHR '':'' = (Username a, Password a, True)" "Username a \<noteq> []"
      "length (Username a) \<le> 255" "length (Password a) \<le> 255"
    using assms by (auto simp: parseAccount_def split: prod.splits if_splits)
  then have raw: "raw = Username a @ CHR '':'' # Password a" "CHR '':'' \<notin> set (Username a)"
    by (simp_all add: Cut_found)
  have check: "checkProxyAuthorization lib req (Some (newInboundAccount lib a)) \<longleftrightarrow>
      (\<exists>user pw. presents lib (Values (Header req) ''Proxy-Authorization'') user pw \<and>
        (user = Username a \<or> digest_collision lib user (Username a)) \<and>
        (pw = Password a \<or> digest_collision lib pw (Password a)))"
    unfolding check_presents by (auto simp: credentialsMatch_def newInboundAccount_def digest_collision_def)
  have "presents lib [''Basic '' @ EncodeToString raw] (Username a) (Password a)"
    unfolding presents_def
  proof (intro conjI, rule exI [of _ "''Basic''"], rule exI [of _ "EncodeToString raw"], intro conjI)
    show "set (EncodeToString raw) \<inter> {CHR '' '', chr 9} = {}"
      using Encode_plain [of "chr 9" raw] Encode_plain [of "CHR '' ''" raw] ord_chr [of 9] by auto
    show "DecodeString (EncodeToString raw) = Some (Username a @ CHR '':'' # Password a)"
      using raw(1) by (simp add: Decode_Encode)
  qed (use acct raw(2) in \<open>simp_all add: Equal_Fold_def is_ascii_def ord_def\<close>)
  moreover have "presents lib vs user pw \<Longrightarrow> length vs = 1" for vs user pw
    by (auto simp: presents_def)
  ultimately show ?thesis using check raw by metis
qed

theorem authorized_exactly_witness:
  "checkProxyAuthorization (demo_lib ''GET'')
     ((demo_request ''GET'')\<lparr>Header := [(''Proxy-Authorization'', [''Basic '' @ EncodeToString ''u:p:q''])]\<rparr>)
     (Some (newInboundAccount (demo_lib ''GET'') \<lparr>Username = ''u'', Password = ''p:q''\<rparr>))"
proof -
  have "parseAccount ''u:p:q'' = Inr \<lparr>Username = ''u'', Password = ''p:q''\<rparr>" by (simp add: parseAccount_def)
  then have "Values (Header r) ''Proxy-Authorization'' = [''Basic '' @ EncodeToString ''u:p:q''] \<longrightarrow>
      checkProxyAuthorization (demo_lib ''GET'') r
        (Some (newInboundAccount (demo_lib ''GET'') \<lparr>Username = ''u'', Password = ''p:q''\<rparr>))" for r
    using authorized_exactly by blast
  then show ?thesis by (rule mp) (simp add: Values_def)
qed

section \<open>Headers and bytes that go on\<close>

lemma Header_stripped:
  assumes "\<And>h. set (order h) = dom (map_of h)"
  shows "map_of (Header (stripped order req)) k =
    (if is_ecoma k \<or> k = ''Proxy-Authorization'' then None else map_of (Header req) k)"
  by (simp add: stripped_def strip_exact [OF assms] map_of_Del)

text \<open>What \<^verbatim>\<open>httputil.ReverseProxy\<close> documents about the clone it hands to the \<^verbatim>\<open>Rewrite\<close> hook: the
  hop-by-hop fields, those the Connection field names and the forwarding fields are gone, every other
  field is a copy. (It may set three of them again, for trailers and for an upgrade.)\<close>

definition hopHeaders :: "string list" where
  "hopHeaders = [''Connection'', ''Proxy-Connection'', ''Keep-Alive'', ''Proxy-Authenticate'',
     ''Proxy-Authorization'', ''Te'', ''Trailer'', ''Transfer-Encoding'', ''Upgrade'']"

definition forwardingHeaders :: "string list" where
  "forwardingHeaders = [''Forwarded'', ''X-Forwarded-For'', ''X-Forwarded-Host'', ''X-Forwarded-Proto'']"

definition hop_by_hop :: "header \<Rightarrow> string \<Rightarrow> bool" where
  "hop_by_hop h k \<longleftrightarrow> k \<in> set hopHeaders \<or>
     (\<exists>v \<in> set (Values h ''Connection''). \<exists>name \<in> set (map TrimSpace (split_on CHR '','' v)).
        name \<noteq> [] \<and> k = CanonicalHeaderKey name)"

definition end_to_end :: "header \<Rightarrow> string \<Rightarrow> bool" where
  "end_to_end h k \<longleftrightarrow> \<not> hop_by_hop h k \<and> k \<notin> set forwardingHeaders"

definition proxy_clone :: "header \<Rightarrow> header \<Rightarrow> bool" where
  "proxy_clone h h' \<longleftrightarrow> (\<forall>k. k \<notin> {''Te'', ''Connection'', ''Upgrade''} \<longrightarrow>
     map_of h' k = (if end_to_end h k then map_of h k else None))"



lemma prefix_read_split:
  "prefix_read k m c = (b, c') \<Longrightarrow> b @ pre c' @ sock c' = pre c @ sock c"
  by (auto simp: prefix_read_def split: if_splits)

lemma prefix_reads_split:
  "prefix_reads ks c = (bs, c') \<Longrightarrow> bs @ pre c' @ sock c' = pre c @ sock c"
  by (induction ks c arbitrary: bs c' rule: prefix_reads.induct)
    (auto split: prod.splits dest: prefix_read_split)

text \<open>Claim C14: the header reader takes exactly the shortest prefix of what the client sends that ends
  in an empty line, of at most 1 MiB, and the tunnel of an accepted request reads exactly the bytes
  behind it: however many of them were read ahead and whatever the sizes of the reads, nothing is
  lost, repeated or reordered, and a read that can make progress does.\<close>

theorem tunnel_bytes:
  assumes "accept_request lib acct order input conn = Inr a"
    and "prefix_reads ks (bufferedClientConn buffered (a_rest a)) = (got, c)"
  shows "(\<exists>header. header_block input header \<and> length header \<le> maxInboundHeaderBytes \<and> input = header @ a_rest a) \<and>
    got @ pre c @ sock c = a_rest a \<and>
    (0 < k \<and> 0 < m \<and> got \<noteq> a_rest a \<longrightarrow> fst (prefix_read k m c) \<noteq> [])"
proof (intro conjI)
  show "\<exists>header. header_block input header \<and> length header \<le> maxInboundHeaderBytes \<and> input = header @ a_rest a"
    using assms(1) by (auto simp: accept_iff inbound_def framed_def)
  show split: "got @ pre c @ sock c = a_rest a"
    using prefix_reads_split [OF assms(2)] by (simp add: bufferedClientConn_def)
  then show "0 < k \<and> 0 < m \<and> got \<noteq> a_rest a \<longrightarrow> fst (prefix_read k m c) \<noteq> []"
    by (auto simp: prefix_read_def)
qed

theorem tunnel_bytes_witness:
  "\<exists>a. accept_request (demo_lib ''GET'') None (map fst) (demo_input @ ''abcdef'') [] = Inr a \<and>
     a_rest a = ''abcdef'' \<and>
     prefix_reads [(2, 1), (9, 1), (9, 2)] (bufferedClientConn 3 (a_rest a)) = (''abcde'', \<lparr>pre = [], sock = ''f''\<rparr>)"
proof -
  have "newline \<notin> set ''X http://h/ HTTP/1.1''" by code_simp
  then have "framed (demo_input @ ''abcdef'') demo_input ''abcdef''"
    using framed_line [of "''X http://h/ HTTP/1.1''" "''abcdef''"] unfolding demo_input_def
    by (simp add: maxInboundHeaderBytes_def)
  then have i: "inbound (demo_lib ''GET'') (demo_input @ ''abcdef'') (demo_request ''GET'') ''abcdef'' []"
    using demo_no_host by (auto simp: inbound_def demo_lib_def)
  have "proxy_form (demo_lib ''GET'') (demo_request ''GET'') [] False \<lparr>Host = ''h'', Port = 80, Type = AddrDomain\<rparr>"
    using demo_names
    by (auto simp: proxy_form_def demo_request_def demo_place_def Equal_Fold_def is_ascii_def ord_def)
  then obtain a where a: "accept_request (demo_lib ''GET'') None (map fst) (demo_input @ ''abcdef'') [] = Inr a"
      and r: "a_rest a = ''abcdef''"
    using accept_inbound [OF i demo_open demo_family] by (metis accepted.select_convs(5))
  have p: "prefix_reads [(2, 1), (9, 1), (9, 2)] (bufferedClientConn 3 ''abcdef'') = (''abcde'', \<lparr>pre = [], sock = ''f''\<rparr>)"
    by code_simp
  have "''abcde'' @ ''f'' = a_rest a" using tunnel_bytes [OF a p [folded r]] by simp
  then show ?thesis using a p r by auto
qed

section \<open>Replies after the tunnel\<close>

lemma WriteHeader_written: "wroteHeader w \<Longrightarrow> WriteHeader status w = w"
  by (simp add: WriteHeader_def)

lemma Write_written: "wroteHeader w \<Longrightarrow> w_out (Write p w) = w_out w @ p"
  by (simp add: Write_def)

lemma set_header_frame [simp]:
  "wroteHeader (set_header name v w) = wroteHeader w" "w_out (set_header name v w) = w_out w"
  by (simp_all add: set_header_def)

lemma wroteHeader_WriteHeader [simp]: "wroteHeader (WriteHeader status w)"
  by (simp add: WriteHeader_def Let_def)

text \<open>Claim C15: when forwarding fails before the target's response, the error response is written
  through the writer of the exchange, whose first write sends a header of its own: the client reads
  200 OK with the 502 or 504 as its body. After an interim response the writer keeps the final
  status and the header fields to itself, so that the body follows the interim one.\<close>

theorem forward_failure_reply:
  "w_out (forward_error canceled (newHTTPResponseWriter [])) =
     status_line 200 @ ''Connection: close'' @ crlf @ crlf @ error_reply (if canceled then 504 else 502) \<and>
   w_out (Write body (WriteHeader final (set_header name v (WriteHeader interim w)))) =
     w_out (WriteHeader interim w) @ body"
proof
  show "w_out (forward_error canceled (newHTTPResponseWriter [])) =
     status_line 200 @ ''Connection: close'' @ crlf @ crlf @ error_reply (if canceled then 504 else 502)"
    by (simp add: forward_error_def writeHTTPError_text Let_def) (simp add: writer_defs status_line_def)
qed (simp add: Write_written WriteHeader_written)

section \<open>The correlation id\<close>

lemma base32_bits_length: "length (base32_bits bs) = (length bs + 4) div 5"
  by (induction bs rule: base32_bits.induct) auto

lemma foldl_bits: "foldl (\<lambda>n b. n * 2 + (if b then 1 else 0)) n bs < (n + 1) * 2 ^ length bs" for n :: nat
proof (induction bs arbitrary: n)
  case (Cons b bs)
  have "foldl (\<lambda>n b. n * 2 + (if b then 1 else 0)) (n * 2 + (if b then 1 else 0)) bs <
      (n * 2 + (if b then 1 else 0) + 1) * 2 ^ length bs" by (rule Cons.IH)
  also have "\<dots> \<le> (n + 1) * 2 ^ length (b # bs)" by (simp add: algebra_simps)
  finally show ?case by simp
qed simp

lemma group_val_bound: "length bs \<le> 5 \<Longrightarrow> group_val bs < 32"
  using foldl_bits [of 0 "bs @ replicate (5 - length bs) False"] by (simp add: group_val_def)

lemma base32_char_token: "n < 32 \<Longrightarrow> is_upper (base32_char n) \<or> is_digit (base32_char n)"
  by (auto simp: base32_char_def is_upper_def is_digit_def ord_chr)

lemma base32_bits_token: "list_all (\<lambda>c. is_upper c \<or> is_digit c) (base32_bits bs)"
  by (induction bs rule: base32_bits.induct) (auto intro!: base32_char_token group_val_bound)

lemma length_concat_bits: "length (concat (map byte_bits raw)) = 8 * length raw"
  by (induction raw) (simp_all add: byte_bits_def)

lemma length_digits_of: "m < 10 ^ k \<Longrightarrow> 0 < k \<Longrightarrow> length (digits_of m) \<le> k"
proof (induction m arbitrary: k rule: digits_of.induct)
  case (1 m)
  show ?case
  proof (cases "m < 10")
    case True
    then show ?thesis using 1(3) by (subst digits_of.simps) simp
  next
    case False
    then have "1 < k" using 1(2,3) by (cases k; cases "k - 1") auto
    then have "m div 10 < 10 ^ (k - 1)" using 1(2) by (cases k) auto
    then show ?thesis using 1(1) [OF False, of "k - 1"] \<open>1 < k\<close> False by (subst digits_of.simps) simp
  qed
qed

text \<open>the correlation id that every log line of a request carries is a token of at most 64
  characters of the fixed alphabet, whatever the client sent; it is the client's own exactly when the
  client sent one such token, and otherwise a minted one.\<close>

theorem resolveRequestID_token:
  assumes "\<forall>bytes. raw = Some bytes \<longrightarrow> length bytes = 16"
  shows "fst (resolveRequestID h raw n) \<noteq> [] \<and> length (fst (resolveRequestID h raw n)) \<le> 64 \<and>
    isRequestIDToken (fst (resolveRequestID h raw n)) \<and>
    (\<forall>v. v \<noteq> [] \<and> length v \<le> 64 \<and> isRequestIDToken v \<longrightarrow>
      Values h ''X-Ecoma-Request-Id'' = [v] \<longrightarrow> resolveRequestID h raw n = (v, n)) \<and>
    (\<forall>v w vs. Values h ''X-Ecoma-Request-Id'' = v # w # vs \<longrightarrow> resolveRequestID h raw n = generateRequestID raw n)"
proof -
  have "unat (n + 1) < 2 ^ 64" using unsigned_less [of "n + 1"] by simp
  then have itoa: "length (Itoa (int (unat (n + 1)))) \<le> 20" and
      token: "isRequestIDToken (Itoa (int (unat (n + 1))))"
    using length_digits_of [of "unat (n + 1)" 20] digits_of_digits by (auto simp: Itoa_def isRequestIDToken_def list_all_iff)
  have minted: "fst (generateRequestID raw n) \<noteq> [] \<and> length (fst (generateRequestID raw n)) \<le> 64 \<and>
      isRequestIDToken (fst (generateRequestID raw n))"
  proof (cases raw)
    case None
    then show ?thesis
      using itoa token by (auto simp: generateRequestID_def isRequestIDToken_def is_lower_def ord_def)
  next
    case (Some bytes)
    then have "length (base32 bytes) = 26"
      using assms by (simp add: base32_def base32_bits_length length_concat_bits)
    then show ?thesis
      using Some base32_bits_token [of "concat (map byte_bits bytes)"]
      by (auto simp: generateRequestID_def isRequestIDToken_def list_all_iff base32_def is_lower_def ord_def)
  qed
  then show ?thesis
    by (auto simp: resolveRequestID_def Let_def maxInboundRequestIDLength_def)
qed

theorem resolveRequestID_token_witness:
  "isRequestIDToken (fst (resolveRequestID [(''X-Ecoma-Request-Id'', [''a b''])] (Some (replicate 16 (CHR ''x''))) 0)) \<and>
   resolveRequestID [(''X-Ecoma-Request-Id'', [''id-1''])] (Some (replicate 16 (CHR ''x''))) 0 = (''id-1'', 0)"
proof -
  have r: "\<forall>bytes. Some (replicate 16 (CHR ''x'')) = Some bytes \<longrightarrow> length bytes = 16" by simp
  have "isRequestIDToken ''id-1''" by (simp add: isRequestIDToken_def is_lower_def is_digit_def ord_def)
  then have "resolveRequestID [(''X-Ecoma-Request-Id'', [''id-1''])] (Some (replicate 16 (CHR ''x''))) 0 = (''id-1'', 0)"
    using resolveRequestID_token [OF r, of "[(''X-Ecoma-Request-Id'', [''id-1''])]" 0] by (simp add: Values_def)
  then show ?thesis using resolveRequestID_token [OF r] by blast
qed

end
