(* ===== verification/Lifecycle.thy ===== *)
theory Lifecycle
  imports GoStrings
begin

text \<open>
  The readiness machine of the process (internal/proxyserver/lifecycle.go) under concurrent calls:
  every call is a sequence of compare-and-swaps, and those of different calls interleave.
\<close>

section \<open>The machine\<close>

datatype lifecycle_state = StateStarting | StateReady | StateDraining | StateStopped

fun state_String :: "lifecycle_state \<Rightarrow> string" where
  "state_String StateStarting = ''starting''"
| "state_String StateReady = ''ready''"
| "state_String StateDraining = ''draining''"
| "state_String StateStopped = ''stopped''"

fun state_value :: "lifecycle_state \<Rightarrow> nat" where
  "state_value StateStarting = 0"
| "state_value StateReady = 1"
| "state_value StateDraining = 2"
| "state_value StateStopped = 3"

instantiation lifecycle_state :: linorder
begin

definition less_eq_lifecycle_state :: "lifecycle_state \<Rightarrow> lifecycle_state \<Rightarrow> bool" where
  "less_eq_lifecycle_state a b \<longleftrightarrow> state_value a \<le> state_value b"

definition less_lifecycle_state :: "lifecycle_state \<Rightarrow> lifecycle_state \<Rightarrow> bool" where
  "less_lifecycle_state a b \<longleftrightarrow> state_value a < state_value b"

instance
proof
  fix a b :: lifecycle_state
  show "a \<le> b \<Longrightarrow> b \<le> a \<Longrightarrow> a = b"
    by (cases a; cases b) (simp_all add: less_eq_lifecycle_state_def)
qed (auto simp: less_eq_lifecycle_state_def less_lifecycle_state_def)

end

text \<open>One compare-and-swap: the new state and whether it took place.\<close>

definition advance :: "lifecycle_state \<Rightarrow> lifecycle_state \<Rightarrow> lifecycle_state \<Rightarrow> lifecycle_state \<times> bool" where
  "advance st from_st to_st = (if st = from_st then (to_st, True) else (st, False))"

text \<open>Each transition is a chain of them, tried from left to right until one takes place.\<close>

type_synonym moves = "(lifecycle_state \<times> lifecycle_state) list"

datatype transition = MarkReady | BeginDraining | MarkStopped

fun chain :: "transition \<Rightarrow> moves" where
  "chain MarkReady = [(StateStarting, StateReady), (StateReady, StateReady)]"
| "chain BeginDraining =
     [(StateStarting, StateDraining), (StateReady, StateDraining), (StateDraining, StateDraining)]"
| "chain MarkStopped =
     [(StateDraining, StateStopped), (StateReady, StateStopped), (StateStarting, StateStopped),
      (StateStopped, StateStopped)]"

fun advance_any :: "moves \<Rightarrow> lifecycle_state \<Rightarrow> lifecycle_state \<times> bool" where
  "advance_any [] st = (st, False)"
| "advance_any ((f, t) # ms) st = (if snd (advance st f t) then advance st f t else advance_any ms st)"

text \<open>Concurrent calls share the state; a call has the moves it has not tried yet, or its result.\<close>

datatype call = Trying transition moves | Returned transition bool

record machine =
  life :: lifecycle_state
  calls :: "call list"

inductive lc_step :: "machine \<Rightarrow> machine \<Rightarrow> bool" where
  enter: "lc_step m (m\<lparr>calls := calls m @ [Trying t (chain t)]\<rparr>)"
| swap: "i < length (calls m) \<Longrightarrow> calls m ! i = Trying t ((a, b) # ms) \<Longrightarrow> advance (life m) a b = (st, hit) \<Longrightarrow>
    lc_step m (m\<lparr>life := st, calls := (calls m)[i := if hit then Returned t True else Trying t ms]\<rparr>)"
| give_up: "i < length (calls m) \<Longrightarrow> calls m ! i = Trying t [] \<Longrightarrow>
    lc_step m (m\<lparr>calls := (calls m)[i := Returned t False]\<rparr>)"

inductive_cases lc_stepE: "lc_step m m'"

definition NewLifecycle :: machine where
  "NewLifecycle = \<lparr>life = StateStarting, calls = []\<rparr>"

definition Ready :: "machine \<Rightarrow> bool" where
  "Ready m \<longleftrightarrow> life m = StateReady"

text \<open>The readiness endpoint: status, fields and body.\<close>

definition serveReadyz :: "string \<Rightarrow> lifecycle_state \<Rightarrow> nat \<times> (string \<times> string) list \<times> string" where
  "serveReadyz meth st =
     (let fs = [(''Cache-Control'', ''no-store''), (''Content-Type'', ''text/plain; charset=utf-8'')] in
      if meth \<noteq> ''GET'' then (405, fs @ [(''Allow'', ''GET'')], ''method not allowed'' @ [chr 10])
      else if st = StateReady then (200, fs, ''ok'' @ [chr 10])
      else (503, fs, state_String st @ [chr 10]))"

section \<open>Forward only\<close>

lemma chain_forward: "(a, b) \<in> set (chain t) \<Longrightarrow> a \<le> b"
  by (cases t) (auto simp: less_eq_lifecycle_state_def)

text \<open>What a call still has to try, relative to the state: a call that drains finds the state it must
  move on, or the state is past it.\<close>

fun call_ok :: "lifecycle_state \<Rightarrow> call \<Rightarrow> bool" where
  "call_ok st (Trying t ms) \<longleftrightarrow>
     (\<exists>tried. chain t = tried @ ms \<and>
       (t = BeginDraining \<longrightarrow> (\<forall>(a, b) \<in> set tried. a < st)))"
| "call_ok st (Returned t r) \<longleftrightarrow> (t = BeginDraining \<longrightarrow> StateDraining \<le> st) \<and> (t = MarkReady \<and> r \<longrightarrow> StateReady \<le> st)"

definition machine_ok :: "machine \<Rightarrow> bool" where
  "machine_ok m \<longleftrightarrow> (\<forall>c \<in> set (calls m). call_ok (life m) c)"

lemma call_ok_mono: "call_ok st c \<Longrightarrow> st \<le> st' \<Longrightarrow> call_ok st' c"
  by (cases c) (fastforce intro: order.strict_trans2 order.trans)+

lemma try_forward:
  assumes "call_ok st (Trying t ((a, b) # ms))" and "advance st a b = (st', hit)"
  shows "st \<le> st'" and "call_ok st' (if hit then Returned t True else Trying t ms)"
proof -
  obtain tried where t: "chain t = tried @ (a, b) # ms" "t = BeginDraining \<longrightarrow> (\<forall>(a, b) \<in> set tried. a < st)"
    using assms(1) by auto
  have ab: "a \<le> b" by (rule chain_forward [of _ _ t]) (simp add: t)
  then show "st \<le> st'" using assms(2) by (auto simp: advance_def split: if_splits)
  show "call_ok st' (if hit then Returned t True else Trying t ms)"
  proof (cases hit)
    case True
    then have "st' = b" using assms(2) by (auto simp: advance_def split: if_splits)
    moreover have "(a, b) \<in> set (chain t)" by (simp add: t)
    ultimately show ?thesis using True by (cases t) (auto simp: less_eq_lifecycle_state_def)
  next
    case False
    then have st: "st' = st" "st \<noteq> a" using assms(2) by (auto simp: advance_def split: if_splits)
    have "t = BeginDraining \<longrightarrow> a < st"
    proof
      assume d: "t = BeginDraining"
      then have "tried = [] \<and> a = StateStarting \<or> tried = [(StateStarting, StateDraining)] \<and> a = StateReady \<or>
          tried = [(StateStarting, StateDraining), (StateReady, StateDraining)] \<and> a = StateDraining"
        using t(1) by (auto simp: Cons_eq_append_conv)
      then show "a < st" using t(2) d st by (cases st) (auto simp: less_lifecycle_state_def)
    qed
    then have "chain t = (tried @ [(a, b)]) @ ms \<and> (t = BeginDraining \<longrightarrow> (\<forall>(x, y) \<in> set (tried @ [(a, b)]). x < st))"
      using t by auto
    then show ?thesis using False st by (auto simp: exI [of _ "tried @ [(a, b)]"])
  qed
qed

lemma lc_step_ok:
  assumes "lc_step m m'" and "machine_ok m"
  shows "machine_ok m' \<and> life m \<le> life m'"
  using assms(1)
proof cases
  case (enter t)
  then show ?thesis using assms(2) by (auto simp: machine_ok_def)
next
  case (swap i t a b ms st hit)
  then have c: "call_ok (life m) (Trying t ((a, b) # ms))" using assms(2) nth_mem by (fastforce simp: machine_ok_def)
  note f = try_forward [OF c swap(4)]
  then show ?thesis using swap assms(2) call_ok_mono set_update_subset_insert
    by (fastforce simp: machine_ok_def)
next
  case (give_up i t)
  then have c: "call_ok (life m) (Trying t [])" using assms(2) nth_mem by (fastforce simp: machine_ok_def)
  then have "call_ok (life m) (Returned t False)"
    by (cases t; cases "life m") (auto simp: less_eq_lifecycle_state_def less_lifecycle_state_def)
  then show ?thesis using give_up assms(2) set_update_subset_insert by (fastforce simp: machine_ok_def)
qed

lemma lc_steps_ok: "lc_step\<^sup>*\<^sup>* m m' \<Longrightarrow> machine_ok m \<Longrightarrow> machine_ok m' \<and> life m \<le> life m'"
  by (induction rule: rtranclp_induct) (auto dest: lc_step_ok intro: order.trans)

lemma NewLifecycle_ok: "machine_ok NewLifecycle"
  by (simp add: machine_ok_def NewLifecycle_def)

lemma lc_swap:
  assumes "i < length cs" and "cs ! i = Trying t ((a, b) # ms)"
  shows "lc_step \<lparr>life = st, calls = cs\<rparr>
    \<lparr>life = fst (advance st a b), calls = cs[i := if snd (advance st a b) then Returned t True else Trying t ms]\<rparr>"
  using lc_step.swap [of i "\<lparr>life = st, calls = cs\<rparr>" t a b ms] assms by simp

lemma lc_enter: "lc_step \<lparr>life = st, calls = cs\<rparr> \<lparr>life = st, calls = cs @ [Trying t (chain t)]\<rparr>"
  using lc_step.enter [of "\<lparr>life = st, calls = cs\<rparr>" t] by simp

lemma lc_give_up:
  assumes "i < length cs" and "cs ! i = Trying t []"
  shows "lc_step \<lparr>life = st, calls = cs\<rparr> \<lparr>life = st, calls = cs[i := Returned t False]\<rparr>"
  using lc_step.give_up [of i "\<lparr>life = st, calls = cs\<rparr>" t] assms by simp

text \<open>A call of \<^verbatim>\<open>MarkStopped\<close> tries the later states first, so a \<^verbatim>\<open>MarkReady\<close> between its second
  and its third move leaves it without effect.\<close>

lemma MarkStopped_misses:
  "lc_step\<^sup>*\<^sup>* NewLifecycle \<lparr>life = StateReady, calls = [Returned MarkStopped False, Returned MarkReady True]\<rparr>"
proof -
  let ?r = "Trying MarkReady (chain MarkReady)"
  let ?m = "\<lambda>st ms. \<lparr>life = st, calls = [Trying MarkStopped ms, Returned MarkReady True]\<rparr>"
  have "lc_step NewLifecycle \<lparr>life = StateStarting, calls = [Trying MarkStopped (chain MarkStopped)]\<rparr>"
    using lc_enter [of StateStarting "[]" MarkStopped] by (simp add: NewLifecycle_def)
  moreover have "lc_step \<dots> \<lparr>life = StateStarting, calls = [Trying MarkStopped (chain MarkStopped), ?r]\<rparr>"
    using lc_enter [of StateStarting "[Trying MarkStopped (chain MarkStopped)]" MarkReady] by simp
  moreover have "lc_step \<dots> \<lparr>life = StateStarting, calls = [Trying MarkStopped (drop 1 (chain MarkStopped)), ?r]\<rparr>"
    using lc_swap [of 0 "[Trying MarkStopped (chain MarkStopped), ?r]" _ _ _ _ StateStarting] by (simp add: advance_def)
  moreover have "lc_step \<dots> \<lparr>life = StateStarting, calls = [Trying MarkStopped (drop 2 (chain MarkStopped)), ?r]\<rparr>"
    using lc_swap [of 0 "[Trying MarkStopped (drop 1 (chain MarkStopped)), ?r]" _ _ _ _ StateStarting]
    by (simp add: advance_def)
  moreover have "lc_step \<dots> (?m StateReady (drop 2 (chain MarkStopped)))"
    using lc_swap [of 1 "[Trying MarkStopped (drop 2 (chain MarkStopped)), ?r]" _ _ _ _ StateStarting]
    by (simp add: advance_def)
  moreover have "lc_step \<dots> (?m StateReady (drop 3 (chain MarkStopped)))"
    using lc_swap [of 0 "[Trying MarkStopped (drop 2 (chain MarkStopped)), Returned MarkReady True]" _ _ _ _ StateReady]
    by (simp add: advance_def)
  moreover have "lc_step \<dots> (?m StateReady [])"
    using lc_swap [of 0 "[Trying MarkStopped (drop 3 (chain MarkStopped)), Returned MarkReady True]" _ _ _ _ StateReady]
    by (simp add: advance_def)
  moreover have "lc_step \<dots> \<lparr>life = StateReady, calls = [Returned MarkStopped False, Returned MarkReady True]\<rparr>"
    using lc_give_up [of 0 "[Trying MarkStopped [], Returned MarkReady True]"] by simp
  ultimately show ?thesis by (meson rtranclp.rtrancl_into_rtrancl rtranclp.rtrancl_refl)
qed

text \<open>Claim C33: under any interleaving of concurrent transitions the state only moves forward; once a
  call of \<^verbatim>\<open>BeginDraining\<close> has returned, or the state is draining by any other way, readiness is never
  advertised again; a \<^verbatim>\<open>MarkReady\<close> that reports success did reach ready. A \<^verbatim>\<open>MarkStopped\<close> that is not
  interrupted stops the machine from every state; one that races with \<^verbatim>\<open>MarkReady\<close> may have no effect.\<close>

theorem lifecycle_forward:
  assumes "lc_step\<^sup>*\<^sup>* NewLifecycle m"
  shows "(\<forall>m'. lc_step\<^sup>*\<^sup>* m m' \<longrightarrow> life m \<le> life m' \<and>
      (StateDraining \<le> life m \<or> (\<exists>r. Returned BeginDraining r \<in> set (calls m)) \<longrightarrow>
        \<not> Ready m' \<and> fst (serveReadyz ''GET'' (life m')) = 503)) \<and>
    (Returned MarkReady True \<in> set (calls m) \<longrightarrow> StateReady \<le> life m) \<and>
    advance_any (chain MarkStopped) (life m) = (StateStopped, True) \<and>
    (\<exists>m. lc_step\<^sup>*\<^sup>* NewLifecycle m \<and> life m = StateReady \<and> Returned MarkStopped False \<in> set (calls m))"
proof (intro conjI allI impI)
  have ok: "machine_ok m" using lc_steps_ok [OF assms NewLifecycle_ok] by simp
  show "StateReady \<le> life m" if "Returned MarkReady True \<in> set (calls m)"
    using ok that by (auto simp: machine_ok_def)
  show "advance_any (chain MarkStopped) (life m) = (StateStopped, True)"
    by (cases "life m") (simp_all add: advance_def)
  show "\<exists>m. lc_step\<^sup>*\<^sup>* NewLifecycle m \<and> life m = StateReady \<and> Returned MarkStopped False \<in> set (calls m)"
    using MarkStopped_misses by fastforce
  fix m' assume steps: "lc_step\<^sup>*\<^sup>* m m'"
  show le: "life m \<le> life m'" using lc_steps_ok [OF steps ok] by simp
  assume "StateDraining \<le> life m \<or> (\<exists>r. Returned BeginDraining r \<in> set (calls m))"
  then have "StateDraining \<le> life m" using ok by (auto simp: machine_ok_def)
  then have "StateDraining \<le> life m'" using le by (rule order.trans)
  then show "\<not> Ready m'" and "fst (serveReadyz ''GET'' (life m')) = 503"
    by (cases "life m'"; simp add: Ready_def serveReadyz_def less_eq_lifecycle_state_def)+
qed

theorem lifecycle_forward_witness:
  "\<not> Ready \<lparr>life = StateDraining, calls = [Returned BeginDraining True, Trying MarkReady (chain MarkReady)]\<rparr> \<and>
   fst (serveReadyz ''GET'' StateDraining) = 503"
proof -
  let ?m = "\<lparr>life = StateDraining, calls = [Returned BeginDraining True]\<rparr>"
  let ?m' = "\<lparr>life = StateDraining, calls = [Returned BeginDraining True, Trying MarkReady (chain MarkReady)]\<rparr>"
  have "lc_step NewLifecycle \<lparr>life = StateStarting, calls = [Trying BeginDraining (chain BeginDraining)]\<rparr>"
    using lc_enter [of StateStarting "[]" BeginDraining] by (simp add: NewLifecycle_def)
  moreover have "lc_step \<dots> ?m"
    using lc_swap [of 0 "[Trying BeginDraining (chain BeginDraining)]" _ _ _ _ StateStarting] by (simp add: advance_def)
  ultimately have r: "lc_step\<^sup>*\<^sup>* NewLifecycle ?m"
    by (meson rtranclp.rtrancl_into_rtrancl rtranclp.rtrancl_refl)
  have "lc_step ?m ?m'" using lc_enter [of StateDraining "[Returned BeginDraining True]" MarkReady] by simp
  then have later: "lc_step\<^sup>*\<^sup>* ?m ?m'" by (rule r_into_rtranclp)
  from spec [OF conjunct1 [OF lifecycle_forward [OF r]], of ?m', THEN mp, OF later] show ?thesis by simp
qed

end
