(* ===== verification/Shutdown.thy ===== *)
theory Shutdown
  imports Lifecycle GoBase
begin

text \<open>
  The sessions of one proxy listener and their drain (internal/proxyserver/server.go), as interleaved
  steps, and the clock of \<^verbatim>\<open>shutdownAll\<close> (cmd/rotation-proxy-gateway/main.go) that drives the drain of
  all of them.
\<close>

section \<open>Sessions of a listener\<close>

text \<open>Connections are numbered. \<open>running\<close> are the session goroutines, \<open>closed\<close> the closed sockets,
  \<open>sweep\<close> what \<^verbatim>\<open>CloseConns\<close> has copied and not yet closed; \<open>drained\<close> says that \<^verbatim>\<open>Shutdown\<close> has seen
  the wait group empty.\<close>

record listener =
  conns :: "nat set"
  shuttingDown :: bool
  live :: int
  running :: "nat set"
  closed :: "nat set"
  base_canceled :: bool
  sweep :: "nat set option"
  drained :: bool

definition new_listener :: listener where
  "new_listener = \<lparr>conns = {}, shuttingDown = False, live = 0, running = {}, closed = {},
     base_canceled = False, sweep = None, drained = False\<rparr>"

definition beginSession :: "nat \<Rightarrow> listener \<Rightarrow> listener \<times> bool" where
  "beginSession c l =
     (if shuttingDown l then (l, False)
      else (l\<lparr>conns := insert c (conns l), live := live l + 1\<rparr>, True))"

text \<open>One turn of the loop of \<^verbatim>\<open>Serve\<close>.\<close>

definition Serve_accept :: "nat \<Rightarrow> listener \<Rightarrow> listener" where
  "Serve_accept c l =
     (let (l, admitted) = beginSession c l in
      if admitted then l\<lparr>running := insert c (running l)\<rparr> else l\<lparr>closed := insert c (closed l)\<rparr>)"

text \<open>A session ends by closing its socket, leaving the map and then the wait group.\<close>

definition close_session :: "nat \<Rightarrow> listener \<Rightarrow> listener" where
  "close_session c l = l\<lparr>closed := insert c (closed l)\<rparr>"

definition untrackConn :: "nat \<Rightarrow> listener \<Rightarrow> listener" where
  "untrackConn c l = l\<lparr>conns := conns l - {c}\<rparr>"

definition session_Done :: "nat \<Rightarrow> listener \<Rightarrow> listener" where
  "session_Done c l = l\<lparr>live := live l - 1, running := running l - {c}\<rparr>"

definition Shutdown_begin :: "listener \<Rightarrow> listener" where
  "Shutdown_begin l = l\<lparr>shuttingDown := True\<rparr>"

definition Shutdown_drained :: "listener \<Rightarrow> listener" where
  "Shutdown_drained l = l\<lparr>drained := True, base_canceled := True\<rparr>"

definition Shutdown_expired :: "listener \<Rightarrow> listener" where
  "Shutdown_expired l = l\<lparr>base_canceled := True\<rparr>"

definition CloseConns_copy :: "listener \<Rightarrow> listener" where
  "CloseConns_copy l = l\<lparr>sweep := Some (conns l)\<rparr>"

definition CloseConns_next :: "nat \<Rightarrow> listener \<Rightarrow> listener" where
  "CloseConns_next c l = (close_session c l)\<lparr>sweep := map_option (\<lambda>S. S - {c}) (sweep l)\<rparr>"

inductive srv_step :: "listener \<Rightarrow> listener \<Rightarrow> bool" where
  accept: "c \<notin> running l \<Longrightarrow> c \<notin> closed l \<Longrightarrow> srv_step l (Serve_accept c l)"
| close: "c \<in> running l \<Longrightarrow> srv_step l (close_session c l)"
| untrack: "c \<in> running l \<Longrightarrow> c \<in> closed l \<Longrightarrow> srv_step l (untrackConn c l)"
| over: "c \<in> running l \<Longrightarrow> c \<notin> conns l \<Longrightarrow> srv_step l (session_Done c l)"
| begin_shutdown: "srv_step l (Shutdown_begin l)"
| wait_over: "shuttingDown l \<Longrightarrow> live l = 0 \<Longrightarrow> srv_step l (Shutdown_drained l)"
| expire: "shuttingDown l \<Longrightarrow> srv_step l (Shutdown_expired l)"
| copy: "shuttingDown l \<Longrightarrow> base_canceled l \<Longrightarrow> srv_step l (CloseConns_copy l)"
| sweep_one: "sweep l = Some S \<Longrightarrow> c \<in> S \<Longrightarrow> srv_step l (CloseConns_next c l)"

inductive_cases srv_stepE: "srv_step l l'"

lemmas srv_defs = Serve_accept_def beginSession_def close_session_def untrackConn_def session_Done_def
  Shutdown_begin_def Shutdown_drained_def Shutdown_expired_def CloseConns_copy_def CloseConns_next_def

section \<open>What every interleaving keeps\<close>

definition listener_ok :: "listener \<Rightarrow> bool" where
  "listener_ok l \<longleftrightarrow>
     finite (running l) \<and> live l = int (card (running l)) \<and> conns l \<subseteq> running l \<and>
     running l - conns l \<subseteq> closed l \<and>
     (\<forall>S. sweep l = Some S \<longrightarrow> shuttingDown l \<and> running l \<subseteq> S \<union> closed l) \<and>
     (drained l \<longrightarrow> shuttingDown l \<and> running l = {})"

lemma srv_step_ok:
  assumes "srv_step l l'" and "listener_ok l"
  shows "listener_ok l'"
  using assms(1)
proof cases
  case (accept c)
  then show ?thesis using assms(2) by (auto simp: listener_ok_def srv_defs)
next
  case (over c)
  then have "int (card (running l - {c})) = live l - 1"
    using assms(2) card_Suc_Diff1 [of "running l" c] by (auto simp: listener_ok_def)
  then show ?thesis using over assms(2) by (auto simp: listener_ok_def srv_defs)
next
  case wait_over
  then show ?thesis using assms(2) by (auto simp: listener_ok_def srv_defs)
qed (use assms(2) in \<open>auto simp: listener_ok_def srv_defs\<close>)

lemma srv_steps_ok: "srv_step\<^sup>*\<^sup>* l l' \<Longrightarrow> listener_ok l \<Longrightarrow> listener_ok l'"
  by (induction rule: rtranclp_induct) (auto dest: srv_step_ok)

text \<open>After shutdown began sessions only end, and what is closed stays closed.\<close>

lemma srv_step_shutdown:
  assumes "srv_step l l'"
  shows "closed l \<subseteq> closed l' \<and> (shuttingDown l \<longrightarrow> shuttingDown l' \<and> running l' \<subseteq> running l)"
  using assms by cases (auto simp: srv_defs)

lemma srv_steps_shutdown:
  "srv_step\<^sup>*\<^sup>* l l' \<Longrightarrow> closed l \<subseteq> closed l' \<and> (shuttingDown l \<longrightarrow> shuttingDown l' \<and> running l' \<subseteq> running l)"
  by (induction rule: rtranclp_induct) (simp, blast dest: srv_step_shutdown)

lemma new_listener_ok: "listener_ok new_listener"
  by (simp add: listener_ok_def new_listener_def)

text \<open>Claim C32: in every interleaving of accepts, session ends and the shutdown, the wait group counts
  exactly the running sessions; once \<^verbatim>\<open>Shutdown\<close> has reported the drain no session runs or ever will;
  once the sweep of \<^verbatim>\<open>CloseConns\<close> is over every session that still runs has its socket closed and
  none without; a connection accepted after shutdown began is closed and starts no session.\<close>

theorem drain_complete:
  assumes "srv_step\<^sup>*\<^sup>* new_listener l"
  shows "live l = int (card (running l)) \<and> conns l \<subseteq> running l \<and>
    (drained l \<longrightarrow> (\<forall>l'. srv_step\<^sup>*\<^sup>* l l' \<longrightarrow> running l' = {})) \<and>
    (sweep l = Some {} \<longrightarrow> (\<forall>l'. srv_step\<^sup>*\<^sup>* l l' \<longrightarrow> running l' \<subseteq> closed l')) \<and>
    (shuttingDown l \<longrightarrow> (\<forall>c l'. srv_step\<^sup>*\<^sup>* l l' \<longrightarrow>
      running (Serve_accept c l') = running l' \<and> c \<in> closed (Serve_accept c l')))"
proof (intro conjI impI allI)
  have ok: "listener_ok l" by (rule srv_steps_ok [OF assms new_listener_ok])
  then show "live l = int (card (running l))" and "conns l \<subseteq> running l" by (simp_all add: listener_ok_def)
  fix l' assume steps: "srv_step\<^sup>*\<^sup>* l l'"
  note later = srv_steps_shutdown [OF steps]
  show "running l' = {}" if "drained l" using that ok later by (auto simp: listener_ok_def)
  show "running l' \<subseteq> closed l'" if "sweep l = Some {}" using that ok later by (fastforce simp: listener_ok_def)
  fix c assume "shuttingDown l"
  then show "running (Serve_accept c l') = running l'" and "c \<in> closed (Serve_accept c l')"
    using later by (simp_all add: Serve_accept_def beginSession_def)
qed

text \<open>One session is accepted, shutdown begins, the budget expires, and the sweep closes its socket.\<close>

definition demo_swept :: listener where
  "demo_swept = CloseConns_next 7 (CloseConns_copy (Shutdown_expired (Shutdown_begin (Serve_accept 7 new_listener))))"

theorem drain_complete_witness:
  "live demo_swept = 1 \<and> running demo_swept = {7} \<and> running demo_swept \<subseteq> closed demo_swept \<and>
   running (Serve_accept 8 demo_swept) = {7} \<and> 8 \<in> closed (Serve_accept 8 demo_swept)"
proof -
  have "srv_step new_listener (Serve_accept 7 new_listener)"
    by (rule srv_step.accept) (simp_all add: new_listener_def)
  moreover have "srv_step \<dots> (Shutdown_begin \<dots>)" by (rule srv_step.begin_shutdown)
  moreover have "srv_step \<dots> (Shutdown_expired \<dots>)"
    by (rule srv_step.expire) (simp add: srv_defs new_listener_def)
  moreover have "srv_step \<dots> (CloseConns_copy \<dots>)"
    by (rule srv_step.copy) (simp_all add: srv_defs new_listener_def)
  moreover have "srv_step \<dots> demo_swept"
    unfolding demo_swept_def by (rule srv_step.sweep_one [of _ "{7}"]) (simp_all add: srv_defs new_listener_def)
  ultimately have r: "srv_step\<^sup>*\<^sup>* new_listener demo_swept"
    by (meson rtranclp.rtrancl_into_rtrancl rtranclp.rtrancl_refl)
  have "sweep demo_swept = Some {}" "live demo_swept = 1" "running demo_swept = {7}" "shuttingDown demo_swept"
    by (simp_all add: demo_swept_def srv_defs new_listener_def)
  then show ?thesis using drain_complete [OF r] by blast
qed

section \<open>The clock of the process shutdown\<close>

definition ReadinessPropagation :: duration where
  "ReadinessPropagation = 5 * second"

definition Propagation :: "duration \<Rightarrow> duration" where
  "Propagation grace =
     (let half = quot64 grace 2 in
      if half \<le> 0 then 0 else if half < ReadinessPropagation then half else ReadinessPropagation)"

definition forceCloseWait :: duration where
  "forceCloseWait = second"

definition stopWaitLimit :: duration where
  "stopWaitLimit = second"

text \<open>A wait that starts at \<open>start\<close> and ends with its event, or at \<open>limit\<close>.\<close>

definition wait_until :: "instant \<Rightarrow> instant \<Rightarrow> instant \<Rightarrow> instant" where
  "wait_until start event limit = max start (min event limit)"

text \<open>The sessions of one listener during its \<^verbatim>\<open>Shutdown\<close>: when the last ends by itself, when it would
  end once its socket was closed, and which branch of the \<^verbatim>\<open>select\<close> is taken when the wait group is
  empty and the budget has expired at the same instant: the language leaves that open.\<close>

record session_ends =
  own_end :: instant
  forced_end :: instant
  picks_done :: bool

text \<open>When \<^verbatim>\<open>Shutdown\<close>, entered at \<open>start\<close> under a context that expires at \<open>limit\<close>, returns, and whether it
  reports a drain. A context that has expired before the call is ready at \<open>start\<close>, and so is an empty
  wait group.\<close>

definition Shutdown_returns :: "instant \<Rightarrow> instant \<Rightarrow> session_ends \<Rightarrow> instant \<times> bool" where
  "Shutdown_returns start limit s =
     (let done_ready = max start (own_end s); expired = max start limit in
      if done_ready < expired \<or> (done_ready = expired \<and> picks_done s) then (done_ready, True)
      else (wait_until expired (min (own_end s) (forced_end s)) (expired + forceCloseWait), False))"

text \<open>\<^verbatim>\<open>http.Server.Shutdown\<close> looks for idle connections before it looks at the context; \<open>over\<close> is when it
  finds all idle.\<close>

definition shutdownServer :: "instant \<Rightarrow> instant \<Rightarrow> instant \<times> bool \<Rightarrow> instant \<times> bool" where
  "shutdownServer start limit idle =
     (let (over, picks_idle) = idle in
      if over \<le> start then (start, True)
      else if over < limit \<or> (over = limit \<and> picks_idle) then (over, True)
      else (max start limit, False))"

text \<open>What the process has running, and the actions of \<^verbatim>\<open>shutdownAll\<close> on it.\<close>

record gateway =
  readiness :: lifecycle_state
  engine_canceled :: bool
  warm_stopped :: bool
  open_sockets :: "nat set"
  admin_open :: bool
  servers :: "nat \<Rightarrow> listener"
  reports :: "(nat \<times> bool) list"

datatype shutdown_action =
  CallBeginDraining | CallEngineCancel | CallWarmStop | CloseListener nat | CallShutdown nat |
  CallAdminShutdown | ShutdownReturned nat bool | AdminReturned bool | CallMarkStopped

fun act :: "shutdown_action \<Rightarrow> gateway \<Rightarrow> gateway" where
  "act CallBeginDraining g = g\<lparr>readiness := fst (advance_any (chain BeginDraining) (readiness g))\<rparr>"
| "act CallEngineCancel g = g\<lparr>engine_canceled := True\<rparr>"
| "act CallWarmStop g = g\<lparr>warm_stopped := True\<rparr>"
| "act (CloseListener i) g = g\<lparr>open_sockets := open_sockets g - {i}\<rparr>"
| "act (CallShutdown i) g = g\<lparr>servers := (servers g)(i := Shutdown_begin (servers g i))\<rparr>"
| "act CallAdminShutdown g = g\<lparr>admin_open := False\<rparr>"
| "act (ShutdownReturned i ok) g =
     g\<lparr>servers := (servers g)(i := (if ok then Shutdown_drained else Shutdown_expired) (servers g i)),
       reports := reports g @ [(i, ok)]\<rparr>"
| "act (AdminReturned ok) g = g"
| "act CallMarkStopped g = g\<lparr>readiness := fst (advance_any (chain MarkStopped) (readiness g))\<rparr>"

text \<open>What the outside decides: when the warm workers are gone, how the sessions of each listener end,
  when the admin listener is idle.\<close>

record shutdown_env =
  warm_over :: instant
  sessions :: "session_ends list"
  admin_idle :: "instant \<times> bool"

text \<open>The actions of \<^verbatim>\<open>shutdownAll\<close> with their instants, counted from its call; those of one goroutine are
  in its order, and the shutdowns of the listeners run side by side.\<close>

definition shutdownAll :: "duration \<Rightarrow> shutdown_env \<Rightarrow> (instant \<times> shutdown_action) list" where
  "shutdownAll grace env =
     (let head = Propagation grace;
          listeners = [0..<length (sessions env)];
          t1 = (if 0 < head then wait_until 0 head grace else 0);
          t2 = wait_until t1 (warm_over env) (min (max t1 grace) (t1 + stopWaitLimit));
          rs = map (Shutdown_returns t2 grace) (sessions env);
          admin = shutdownServer t2 grace (admin_idle env);
          over = foldl max (fst admin) (map fst rs)
      in [(0, CallBeginDraining), (t1, CallEngineCancel), (t1, CallWarmStop)] @
         map (\<lambda>i. (t2, CloseListener i)) listeners @
         map (\<lambda>i. (t2, CallShutdown i)) listeners @ [(t2, CallAdminShutdown)] @
         map (\<lambda>i. (fst (rs ! i), ShutdownReturned i (snd (rs ! i)))) listeners @
         [(fst admin, AdminReturned (snd admin)), (over, CallMarkStopped)])"

text \<open>The process at an instant: every action up to it has been taken.\<close>

definition at_instant :: "(instant \<times> shutdown_action) list \<Rightarrow> gateway \<Rightarrow> instant \<Rightarrow> gateway" where
  "at_instant run g t = fold act (map snd (filter (\<lambda>a. fst a \<le> t) run)) g"

definition serving_gateway :: "nat \<Rightarrow> gateway \<Rightarrow> bool" where
  "serving_gateway n g \<longleftrightarrow> readiness g \<noteq> StateStopped \<and> \<not> engine_canceled g \<and> \<not> warm_stopped g \<and>
     open_sockets g = {..<n} \<and> admin_open g \<and> (\<forall>i. \<not> shuttingDown (servers g i)) \<and> reports g = []"

lemma foldl_max_le: "foldl max a xs \<le> b \<longleftrightarrow> a \<le> b \<and> (\<forall>x \<in> set xs. x \<le> b)" for a b :: int
  by (induction xs arbitrary: a) auto

lemma wait_until_bounds: "start \<le> wait_until start event limit" "wait_until start event limit \<le> max start limit"
  by (simp_all add: wait_until_def)

lemma second_pos: "0 < second"
  by (simp add: second_def)

lemma Propagation_bounds:
  assumes "0 \<le> grace"
  shows "0 \<le> Propagation grace \<and> Propagation grace \<le> grace div 2 \<and> Propagation grace \<le> 5 * second"
  using assms quot64_two [of grace] second_pos by (simp add: Propagation_def ReadinessPropagation_def Let_def)

text \<open>Runs of equal actions, folded over the state.\<close>

lemma filter_at: "filter (\<lambda>a. fst a \<le> t) (map (\<lambda>i. (u, f i)) xs) = (if u \<le> t then map (\<lambda>i. (u, f i)) xs else [])"
  by (induction xs) auto

lemma fold_close: "fold act (map CloseListener is) g = g\<lparr>open_sockets := open_sockets g - set is\<rparr>"
proof (induction "is" arbitrary: g)
  case (Cons a as)
  have "open_sockets g - {a} - set as = open_sockets g - set (a # as)" by auto
  then show ?case by (cases g) (simp add: Cons)
qed simp

lemma fold_call:
  "fold act (map CallShutdown is) g =
     g\<lparr>servers := (\<lambda>i. if i \<in> set is then Shutdown_begin (servers g i) else servers g i)\<rparr>"
proof (induction "is" arbitrary: g)
  case (Cons a as)
  then show ?case by (auto simp: Cons fun_eq_iff Shutdown_begin_def cong: if_cong intro!: arg_cong [where f = "\<lambda>s. g\<lparr>servers := s\<rparr>"])
qed simp

lemma fold_returned:
  "\<exists>sv. (\<forall>i. shuttingDown (sv i) = shuttingDown (servers g i)) \<and>
     fold act (map (\<lambda>i. ShutdownReturned i (ok i)) is) g =
       g\<lparr>servers := sv, reports := reports g @ map (\<lambda>i. (i, ok i)) is\<rparr>"
proof (induction "is" arbitrary: g)
  case (Cons a as)
  let ?g = "act (ShutdownReturned a (ok a)) g"
  have s: "shuttingDown (servers ?g i) = shuttingDown (servers g i)" for i
    by (simp add: Shutdown_drained_def Shutdown_expired_def)
  obtain sv where "\<forall>i. shuttingDown (sv i) = shuttingDown (servers ?g i)"
    "fold act (map (\<lambda>i. ShutdownReturned i (ok i)) as) ?g =
       ?g\<lparr>servers := sv, reports := reports ?g @ map (\<lambda>i. (i, ok i)) as\<rparr>" using Cons by blast
  then show ?case unfolding s by (intro exI [of _ sv]) simp
qed (auto intro: exI [of _ "servers g"])

lemma at_append: "at_instant (xs @ ys) g t = at_instant ys (at_instant xs g t) t"
  by (simp add: at_instant_def)

lemma at_one: "at_instant [(u, a)] g t = (if u \<le> t then act a g else g)"
  by (simp add: at_instant_def)

lemma at_Cons: "at_instant ((u, a) # xs) g t = at_instant xs (if u \<le> t then act a g else g) t"
  by (simp add: at_instant_def)

lemma at_Nil: "at_instant [] g t = g"
  by (simp add: at_instant_def)

lemma at_map: "at_instant (map (\<lambda>i. (u, f i)) is) g t = (if u \<le> t then fold act (map f is) g else g)"
  by (simp add: at_instant_def filter_at comp_def)

lemma at_returned:
  "\<exists>sv. (\<forall>i. shuttingDown (sv i) = shuttingDown (servers g i)) \<and>
     at_instant (map (\<lambda>i. (u i, ShutdownReturned i (ok i))) is) g t =
       g\<lparr>servers := sv, reports := reports g @ map (\<lambda>i. (i, ok i)) (filter (\<lambda>i. u i \<le> t) is)\<rparr>"
proof -
  have "map snd (filter (\<lambda>a. fst a \<le> t) (map (\<lambda>i. (u i, ShutdownReturned i (ok i))) is)) =
      map (\<lambda>i. ShutdownReturned i (ok i)) (filter (\<lambda>i. u i \<le> t) is)"
    by (induction "is") auto
  then show ?thesis using fold_returned [of g ok] by (simp add: at_instant_def)
qed

text \<open>The state at an instant, for any instants of the phases.\<close>

lemma run_state:
  fixes t1 t2 ta over :: instant and u :: "nat \<Rightarrow> instant" and ok :: "nat \<Rightarrow> bool" and b :: bool
  assumes "serving_gateway n g" and "0 \<le> t"
  defines "run \<equiv> [(0, CallBeginDraining), (t1, CallEngineCancel), (t1, CallWarmStop)] @
         map (\<lambda>i. (t2, CloseListener i)) [0..<n] @
         map (\<lambda>i. (t2, CallShutdown i)) [0..<n] @ [(t2, CallAdminShutdown)] @
         map (\<lambda>i. (u i, ShutdownReturned i (ok i))) [0..<n] @ [(ta, AdminReturned b), (over, CallMarkStopped)]"
  shows "readiness (at_instant run g t) = (if over \<le> t then StateStopped else StateDraining) \<and>
    engine_canceled (at_instant run g t) = (t1 \<le> t) \<and> warm_stopped (at_instant run g t) = (t1 \<le> t) \<and>
    open_sockets (at_instant run g t) = (if t < t2 then {..<n} else {}) \<and>
    admin_open (at_instant run g t) = (t < t2) \<and>
    (\<forall>i < n. shuttingDown (servers (at_instant run g t) i) = (t2 \<le> t)) \<and>
    reports (at_instant run g t) = map (\<lambda>i. (i, ok i)) (filter (\<lambda>i. u i \<le> t) [0..<n])"
proof -
  let ?g1 = "at_instant ([(0, CallBeginDraining), (t1, CallEngineCancel), (t1, CallWarmStop)] @
         map (\<lambda>i. (t2, CloseListener i)) [0..<n] @
         map (\<lambda>i. (t2, CallShutdown i)) [0..<n] @ [(t2, CallAdminShutdown)]) g t"
  let ?g2 = "at_instant (map (\<lambda>i. (u i, ShutdownReturned i (ok i))) [0..<n]) ?g1 t"
  have g1: "readiness ?g1 = StateDraining" "engine_canceled ?g1 = (t1 \<le> t)" "warm_stopped ?g1 = (t1 \<le> t)"
    "open_sockets ?g1 = (if t < t2 then {..<n} else {})" "admin_open ?g1 = (t < t2)" "reports ?g1 = []"
    "\<forall>i < n. shuttingDown (servers ?g1 i) = (t2 \<le> t)"
    using assms(1,2) by (auto simp: serving_gateway_def at_append at_Cons at_Nil at_map fold_close fold_call advance_def
      Shutdown_begin_def split: if_splits) (cases "readiness g"; simp)+
  obtain sv where sv: "\<forall>i. shuttingDown (sv i) = shuttingDown (servers ?g1 i)"
    "?g2 = ?g1\<lparr>servers := sv, reports := reports ?g1 @ map (\<lambda>i. (i, ok i)) (filter (\<lambda>i. u i \<le> t) [0..<n])\<rparr>"
    using at_returned by blast
  have r: "at_instant run g t = (if over \<le> t then act CallMarkStopped ?g2 else ?g2)"
    unfolding run_def by (simp add: at_append at_Cons at_Nil)
  show ?thesis unfolding r sv(2) using g1 sv(1) by (simp add: advance_def)
qed

text \<open>The two phases that every shutdown has: \<open>closing_at\<close> is when the sockets close, \<open>over_at\<close> when all
  has returned.\<close>

definition closing_at :: "duration \<Rightarrow> shutdown_env \<Rightarrow> instant" where
  "closing_at grace env =
     wait_until (Propagation grace) (warm_over env) (min grace (Propagation grace + stopWaitLimit))"

definition over_at :: "duration \<Rightarrow> shutdown_env \<Rightarrow> instant" where
  "over_at grace env =
     foldl max (fst (shutdownServer (closing_at grace env) grace (admin_idle env)))
       (map (\<lambda>s. fst (Shutdown_returns (closing_at grace env) grace s)) (sessions env))"

lemma closing_bounds:
  assumes "0 < grace"
  shows "Propagation grace \<le> closing_at grace env \<and> closing_at grace env \<le> grace \<and>
    closing_at grace env \<le> Propagation grace + stopWaitLimit \<and>
    (warm_over env < grace \<or> 2 * second < grace \<longrightarrow> closing_at grace env < grace)"
  using Propagation_bounds [of grace] assms second_pos
  by (auto simp: closing_at_def wait_until_def stopWaitLimit_def)

lemma shutdownAll_phases:
  assumes "0 < grace"
  shows "shutdownAll grace env =
    [(0, CallBeginDraining), (Propagation grace, CallEngineCancel), (Propagation grace, CallWarmStop)] @
    map (\<lambda>i. (closing_at grace env, CloseListener i)) [0..<length (sessions env)] @
    map (\<lambda>i. (closing_at grace env, CallShutdown i)) [0..<length (sessions env)] @
    [(closing_at grace env, CallAdminShutdown)] @
    map (\<lambda>i. (fst (Shutdown_returns (closing_at grace env) grace (sessions env ! i)),
               ShutdownReturned i (snd (Shutdown_returns (closing_at grace env) grace (sessions env ! i)))))
      [0..<length (sessions env)] @
    [(fst (shutdownServer (closing_at grace env) grace (admin_idle env)),
      AdminReturned (snd (shutdownServer (closing_at grace env) grace (admin_idle env)))),
     (over_at grace env, CallMarkStopped)]"
proof -
  have h: "0 \<le> Propagation grace" "Propagation grace \<le> grace" using Propagation_bounds [of grace] assms by linarith+
  have t1: "(if 0 < Propagation grace then wait_until 0 (Propagation grace) grace else 0) = Propagation grace"
    using h by (auto simp: wait_until_def)
  have rs: "map (\<lambda>i. (fst (map f xs ! i), ShutdownReturned i (snd (map f xs ! i)))) [0..<length xs] =
      map (\<lambda>i. (fst (f (xs ! i)), ShutdownReturned i (snd (f (xs ! i))))) [0..<length xs]"
    for f :: "session_ends \<Rightarrow> instant \<times> bool" and xs by simp
  show ?thesis
    using h(2) unfolding shutdownAll_def Let_def t1 rs by (simp add: closing_at_def over_at_def comp_def max_absorb2)
qed

lemma Shutdown_returns_bounds:
  assumes "start \<le> limit"
  shows "start \<le> fst (Shutdown_returns start limit s) \<and> fst (Shutdown_returns start limit s) \<le> limit + forceCloseWait \<and>
    (snd (Shutdown_returns start limit s) \<longrightarrow> own_end s \<le> limit \<and> fst (Shutdown_returns start limit s) \<le> limit) \<and>
    (own_end s < limit \<and> start < limit \<longrightarrow>
       Shutdown_returns start limit s = (max start (own_end s), True)) \<and>
    (\<not> snd (Shutdown_returns start limit s) \<longrightarrow> limit \<le> fst (Shutdown_returns start limit s))"
  using assms second_pos by (auto simp: Shutdown_returns_def wait_until_def forceCloseWait_def Let_def)

lemma shutdownServer_bounds:
  assumes "start \<le> limit"
  shows "start \<le> fst (shutdownServer start limit idle) \<and> fst (shutdownServer start limit idle) \<le> limit \<and>
    (fst idle < limit \<longrightarrow> fst (shutdownServer start limit idle) = max start (fst idle))"
  using assms by (auto simp: shutdownServer_def split: prod.splits)

text \<open>With a grace of at most two seconds a warm worker that does not stop uses up the budget, and the
  \<^verbatim>\<open>select\<close> may report an idle listener as force-closed.\<close>

lemma idle_forced:
  assumes "0 < grace" and "grace \<le> 2 * second"
  shows "\<exists>env. map own_end (sessions env) = [0] \<and> (grace, ShutdownReturned 0 False) \<in> set (shutdownAll grace env)"
proof -
  let ?s = "\<lparr>own_end = 0, forced_end = 0, picks_done = False\<rparr>"
  let ?env = "\<lparr>warm_over = grace, sessions = [?s], admin_idle = (0, True)\<rparr>"
  have q: "grace \<le> quot64 grace 2 + second" "\<not> ReadinessPropagation \<le> quot64 grace 2"
    using assms quot64_two [of grace] second_pos by (simp_all add: ReadinessPropagation_def)
  then have "grace \<le> Propagation grace + stopWaitLimit"
    using assms quot64_two [of grace] by (simp add: Propagation_def stopWaitLimit_def Let_def)
  moreover have "Propagation grace \<le> grace" using Propagation_bounds [of grace] assms by linarith
  ultimately have c: "closing_at grace ?env = grace" by (simp add: closing_at_def wait_until_def)
  have "Shutdown_returns grace grace ?s = (grace, False)"
    using assms second_pos by (simp add: Shutdown_returns_def wait_until_def forceCloseWait_def)
  then show ?thesis by (intro exI [of _ ?env]) (simp add: shutdownAll_phases [OF assms(1)] c)
qed

text \<open>Claim C34: what a process that is told to stop does, at every instant until it is over. From the
  first it is unready and its readiness endpoint answers 503, while every socket stays open for the
  head start, at most half of the grace and five seconds; then the rotation engine and the warm pool
  are stopped, and within one more second and the grace all sockets close at once and every listener
  stops to admit sessions. The whole ends within the grace and one force-close tail, however long
  sessions, warm workers and the admin listener take, and marks the process stopped; it ends as soon as
  the last of them when that is within the grace. Each listener reports once; one that reports a
  drain has had its sessions end within the grace, and one whose sessions end before the budget expires
  reports a drain, provided that its shutdown began before, as it does when the warm pool stops
  in time or the grace exceeds two seconds. When it did not, both branches of the \<^verbatim>\<open>select\<close> are
  ready, and even an idle listener may be reported as force-closed.\<close>

theorem shutdownAll_bounds:
  assumes "0 < grace" and "serving_gateway (length (sessions env)) g"
  shows "Propagation grace \<le> grace div 2 \<and> Propagation grace \<le> 5 * second \<and>
    Propagation grace \<le> closing_at grace env \<and> closing_at grace env \<le> Propagation grace + stopWaitLimit \<and>
    closing_at grace env \<le> grace \<and>
    closing_at grace env \<le> over_at grace env \<and> over_at grace env \<le> grace + forceCloseWait \<and>
    (\<forall>t. 0 \<le> t \<longrightarrow>
      (let s = at_instant (shutdownAll grace env) g t in
       fst (serveReadyz ''GET'' (readiness s)) = 503 \<and>
       engine_canceled s = (Propagation grace \<le> t) \<and> warm_stopped s = (Propagation grace \<le> t) \<and>
       open_sockets s = (if t < closing_at grace env then {..<length (sessions env)} else {}) \<and>
       admin_open s = (t < closing_at grace env) \<and>
       (\<forall>i < length (sessions env). shuttingDown (servers s i) = (closing_at grace env \<le> t)) \<and>
       (readiness s = StateStopped) = (over_at grace env \<le> t))) \<and>
    (\<forall>d. Propagation grace \<le> d \<and> d < grace \<and> warm_over env \<le> d \<and> fst (admin_idle env) \<le> d \<and>
       (\<forall>s \<in> set (sessions env). own_end s \<le> d) \<longrightarrow> over_at grace env \<le> d) \<and>
    (let rs = reports (at_instant (shutdownAll grace env) g (over_at grace env)) in
     map fst rs = [0..<length (sessions env)] \<and>
     (\<forall>(i, ok) \<in> set rs.
        (ok \<longrightarrow> own_end (sessions env ! i) \<le> grace) \<and>
        (own_end (sessions env ! i) < grace \<and> (warm_over env < grace \<or> 2 * second < grace) \<longrightarrow> ok))) \<and>
    (grace \<le> 2 * second \<longrightarrow>
       (\<exists>env'. map own_end (sessions env') = [0] \<and> (grace, ShutdownReturned 0 False) \<in> set (shutdownAll grace env')))"
proof -
  let ?c = "closing_at grace env" and ?o = "over_at grace env" and ?n = "length (sessions env)"
  let ?r = "\<lambda>s. Shutdown_returns ?c grace s"
  note h = Propagation_bounds [of grace] and c = closing_bounds [OF assms(1), of env]
  have cg: "?c \<le> grace" using c by simp
  note b = Shutdown_returns_bounds [OF cg] and ad = shutdownServer_bounds [OF cg, of "admin_idle env"]
  have over_le: "?o \<le> x \<longleftrightarrow> fst (shutdownServer ?c grace (admin_idle env)) \<le> x \<and>
      (\<forall>s \<in> set (sessions env). fst (?r s) \<le> x)" for x
    unfolding over_at_def foldl_max_le by simp
  have up: "?o \<le> grace + forceCloseWait" unfolding over_le using b ad second_pos by (auto simp: forceCloseWait_def)
  have low: "?c \<le> ?o" using ad over_le [of ?o] by simp
  have rep: "fst (?r (sessions env ! i)) \<le> ?o" if "i < ?n" for i using over_le [of ?o] that by simp
  have prompt: "?o \<le> d" if "Propagation grace \<le> d" "d < grace" "warm_over env \<le> d" "fst (admin_idle env) \<le> d"
    "\<forall>s \<in> set (sessions env). own_end s \<le> d" for d
  proof -
    have "?c \<le> d" using that by (simp add: closing_at_def wait_until_def)
    then show ?thesis unfolding over_le using b ad that by fastforce
  qed
  note st = run_state [OF assms(2), of _ "Propagation grace" ?c "\<lambda>i. fst (?r (sessions env ! i))"
    "\<lambda>i. snd (?r (sessions env ! i))" "fst (shutdownServer ?c grace (admin_idle env))"
    "snd (shutdownServer ?c grace (admin_idle env))" ?o, folded shutdownAll_phases [OF assms(1)]]
  have at: "\<forall>t. 0 \<le> t \<longrightarrow>
      (let s = at_instant (shutdownAll grace env) g t in
       fst (serveReadyz ''GET'' (readiness s)) = 503 \<and>
       engine_canceled s = (Propagation grace \<le> t) \<and> warm_stopped s = (Propagation grace \<le> t) \<and>
       open_sockets s = (if t < ?c then {..<?n} else {}) \<and> admin_open s = (t < ?c) \<and>
       (\<forall>i < ?n. shuttingDown (servers s i) = (?c \<le> t)) \<and> (readiness s = StateStopped) = (?o \<le> t))"
    using st unfolding Let_def by (simp add: serveReadyz_def)
  have "0 \<le> ?o" using h c low assms(1) by linarith
  then have rs: "reports (at_instant (shutdownAll grace env) g ?o) =
      map (\<lambda>i. (i, snd (?r (sessions env ! i)))) [0..<?n]"
    using st [of ?o] rep by simp
  have results: "let rs = reports (at_instant (shutdownAll grace env) g ?o) in
     map fst rs = [0..<?n] \<and>
     (\<forall>(i, ok) \<in> set rs.
        (ok \<longrightarrow> own_end (sessions env ! i) \<le> grace) \<and>
        (own_end (sessions env ! i) < grace \<and> (warm_over env < grace \<or> 2 * second < grace) \<longrightarrow> ok))"
    unfolding Let_def rs using b c by (auto simp: comp_def)
  have bounds: "Propagation grace \<le> grace div 2" "Propagation grace \<le> 5 * second" "Propagation grace \<le> ?c"
    "?c \<le> Propagation grace + stopWaitLimit" using h c assms(1) by simp_all
  have early: "\<forall>d. Propagation grace \<le> d \<and> d < grace \<and> warm_over env \<le> d \<and> fst (admin_idle env) \<le> d \<and>
       (\<forall>s \<in> set (sessions env). own_end s \<le> d) \<longrightarrow> ?o \<le> d" using prompt by blast
  show ?thesis
    by (intro conjI bounds cg low up at early results impI idle_forced [OF assms(1)])
qed

definition demo_shutdown :: shutdown_env where
  "demo_shutdown =
     \<lparr>warm_over = 0,
      sessions = [\<lparr>own_end = 7 * second, forced_end = 0, picks_done = True\<rparr>,
                  \<lparr>own_end = 90 * second, forced_end = 99 * second, picks_done = False\<rparr>],
      admin_idle = (0, True)\<rparr>"

definition demo_gateway :: gateway where
  "demo_gateway = \<lparr>readiness = StateReady, engine_canceled = False, warm_stopped = False, open_sockets = {..<2},
     admin_open = True, servers = (\<lambda>_. new_listener), reports = []\<rparr>"

theorem shutdownAll_bounds_witness:
  "over_at (55 * second) demo_shutdown \<le> 56 * second \<and>
   open_sockets (at_instant (shutdownAll (55 * second) demo_shutdown) demo_gateway second) = {..<2}"
proof -
  have g: "serving_gateway (length (sessions demo_shutdown)) demo_gateway" and p: "0 < 55 * second"
    by (simp_all add: serving_gateway_def demo_gateway_def demo_shutdown_def new_listener_def second_def
      numeral_2_eq_2)
  note t = shutdownAll_bounds [OF p g]
  have "Propagation (55 * second) = 5 * second" by code_simp
  then have "second < closing_at (55 * second) demo_shutdown" using t second_pos by linarith
  moreover have "\<forall>t. 0 \<le> t \<longrightarrow> open_sockets (at_instant (shutdownAll (55 * second) demo_shutdown) demo_gateway t) =
      (if t < closing_at (55 * second) demo_shutdown then {..<length (sessions demo_shutdown)} else {})"
    using t unfolding Let_def by blast
  ultimately show ?thesis
    using t second_pos by (simp add: forceCloseWait_def demo_shutdown_def)
qed

end
