(* ===== verification/Relay.thy ===== *)
theory Relay
  imports GoStrings "HOL-Library.Sublist"
begin

text \<open>
  The relay of an established tunnel (internal/proxyserver/relay.go): the goroutine that copies the
  response and the caller that copies the request, as the steps of one transition system, with the
  results of reads and writes chosen by the network, and the close record they leave.
\<close>

section \<open>Errors\<close>

datatype relay_error =
    EOF
  | ErrClosed
  | ErrShortWrite
  | OtherError string
  | WriteToClient relay_error
  | upstreamBreakError relay_error

text \<open>\<^verbatim>\<open>errors.Is\<close> and \<^verbatim>\<open>errors.As\<close> walk the chain of wrapped errors.\<close>

fun Is_err :: "relay_error \<Rightarrow> relay_error \<Rightarrow> bool" where
  "Is_err (WriteToClient e) x \<longleftrightarrow> WriteToClient e = x \<or> Is_err e x"
| "Is_err (upstreamBreakError e) x \<longleftrightarrow> upstreamBreakError e = x \<or> Is_err e x"
| "Is_err e x \<longleftrightarrow> e = x"

fun As_break :: "relay_error \<Rightarrow> bool" where
  "As_break (upstreamBreakError e) \<longleftrightarrow> True"
| "As_break (WriteToClient e) \<longleftrightarrow> As_break e"
| "As_break e \<longleftrightarrow> False"

definition isUpstreamBreak :: "relay_error option \<Rightarrow> bool" where
  "isUpstreamBreak err =
     (case err of
        None \<Rightarrow> False
      | Some e \<Rightarrow> \<not> (Is_err e EOF \<or> Is_err e ErrClosed) \<and> As_break e)"

section \<open>The client connection\<close>

datatype net_conn = TCPConn nat | PrefixConn net_conn string | OtherConn

text \<open>One wrapper is looked through, as \<^verbatim>\<open>bufferedClientConn\<close> adds at most one.\<close>

definition tcpConnOf :: "net_conn \<Rightarrow> nat option" where
  "tcpConnOf c =
     (let inner = (case c of PrefixConn d _ \<Rightarrow> d | _ \<Rightarrow> c) in
      case inner of TCPConn n \<Rightarrow> Some n | _ \<Rightarrow> None)"

section \<open>The close record\<close>

datatype direction = ToClient | ToUpstream

record relay_result =
  direction :: direction
  bytes :: nat
  err :: "relay_error option"

text \<open>The fields that name the tunnel (target, route, duration) are not part of the record here: what they
  may carry is the subject of theory Logging.\<close>

record close_record =
  msg :: string
  close_reason :: string
  at_warn :: bool
  c2u_bytes :: nat
  u2c_bytes :: nat
  cause :: "relay_error option"

definition recordTunnelClose :: "relay_result \<Rightarrow> relay_result \<Rightarrow> close_record" where
  "recordTunnelClose fst_r snd_r =
     (let (toClient, toUpstream) = (if direction fst_r = ToClient then (fst_r, snd_r) else (snd_r, fst_r));
          (m, reason, c) =
            (if direction fst_r = ToClient \<and> isUpstreamBreak (err fst_r)
             then (''tunnel broken'', ''upstream_broken'', err fst_r)
             else if direction snd_r = ToClient \<and> isUpstreamBreak (err snd_r)
             then (''tunnel broken'', ''upstream_broken'', err snd_r)
             else if direction fst_r = ToClient \<and> err fst_r = None
             then (''tunnel closed'', ''upstream_closed'', err fst_r)
             else if err fst_r \<noteq> None then (''tunnel closed'', ''client_aborted'', err fst_r)
             else (''tunnel closed'', ''client_closed'', err fst_r))
      in \<lparr>msg = m, close_reason = reason, at_warn = (m = ''tunnel broken''),
          c2u_bytes = bytes toUpstream, u2c_bytes = bytes toClient, cause = c\<rparr>)"

section \<open>The two goroutines\<close>

text \<open>Where the goroutine of the response stands: before a read, before a write of a chunk that was read
  together with an outcome, and behind the copy with its count and error: before the report, before
  the reset is armed, before the close, and over.\<close>

datatype up_pc =
    UpRead nat
  | UpWrite nat string "relay_error option"
  | UpSend nat "relay_error option"
  | UpArm nat "relay_error option"
  | UpClose nat "relay_error option"
  | UpDone nat "relay_error option"

text \<open>Where the caller stands: in its copy; on the path of a clean end, before the half close, in the
  \<^verbatim>\<open>select\<close>, before the join; on the path of an error, before the report, the two closes, the two
  receives and the join; and over.\<close>

datatype main_pc =
    MRead nat
  | MWrite nat string "relay_error option"
  | MHalf nat
  | MSelect nat
  | MCut nat
  | MReceive nat
  | MSend nat relay_error
  | MCloseUp nat relay_error
  | MCloseClient nat relay_error
  | MFirst nat relay_error
  | MSecond nat relay_error relay_result
  | MJoin nat relay_error relay_result relay_result
  | MOver nat "relay_error option"

datatype ending = Fin | Reset

text \<open>The state of a tunnel. The streams (\<open>received\<close>, \<open>delivered\<close>, \<open>taken\<close>, \<open>forwarded\<close>) and the last
  five fields are for the proofs only: the errors of the last reads of the upstream and of the client
  (\<open>heard\<close>, \<open>asked\<close>), the failed write to the client and to the upstream (\<open>refusal\<close>, \<open>stall\<close>), and
  which goroutine reported first.\<close>

record tunnel =
  client :: net_conn
  received :: string
  delivered :: string
  taken :: string
  forwarded :: string
  client_end :: "ending option"
  lingering :: bool
  upstream_closed :: bool
  half_closed :: bool
  base_done :: bool
  forced :: bool
  up_pc :: up_pc
  main_pc :: main_pc
  closes :: "relay_result list"
  recorded :: "close_record option"
  heard :: "relay_error option"
  refusal :: "relay_error option"
  asked :: "relay_error option"
  stall :: "relay_error option"
  first_report :: "direction option"

definition new_tunnel :: "net_conn \<Rightarrow> tunnel" where
  "new_tunnel c =
     \<lparr>client = c, received = [], delivered = [], taken = [], forwarded = [], client_end = None,
      lingering = False, upstream_closed = False, half_closed = False, base_done = False, forced = False,
      up_pc = UpRead 0, main_pc = MRead 0, closes = [], recorded = None,
      heard = None, refusal = None, asked = None, stall = None, first_report = None\<rparr>"

text \<open>Closing a socket: what its peer sees is fixed by the first close.\<close>

definition close_client :: "tunnel \<Rightarrow> tunnel" where
  "close_client t =
     (case client_end t of
        Some _ \<Rightarrow> t
      | None \<Rightarrow> t\<lparr>client_end := Some (if lingering t then Reset else Fin)\<rparr>)"

text \<open>The outcome of one round of \<^verbatim>\<open>copyToClient\<close> behind its write.\<close>

definition read_outcome :: "nat \<Rightarrow> relay_error option \<Rightarrow> up_pc" where
  "read_outcome sent rerr =
     (case rerr of
        None \<Rightarrow> UpRead sent
      | Some e \<Rightarrow> UpSend sent (if Is_err e EOF then None else Some (upstreamBreakError e)))"

definition copy_read :: "nat \<Rightarrow> string \<Rightarrow> relay_error option \<Rightarrow> tunnel \<Rightarrow> tunnel" where
  "copy_read sent chunk rerr t =
     t\<lparr>received := received t @ chunk,
       up_pc := if chunk \<noteq> [] then UpWrite sent chunk rerr else read_outcome sent rerr\<rparr>"

definition copy_write :: "nat \<Rightarrow> string \<Rightarrow> relay_error option \<Rightarrow> nat \<Rightarrow> relay_error option \<Rightarrow> tunnel \<Rightarrow> tunnel" where
  "copy_write sent chunk rerr m werr t =
     t\<lparr>delivered := delivered t @ take m chunk,
       up_pc := (case werr of
                   Some e \<Rightarrow> UpSend (sent + m) (Some (WriteToClient e))
                 | None \<Rightarrow>
                     if m < length chunk then UpSend (sent + m) (Some ErrShortWrite)
                     else read_outcome (sent + m) rerr)\<rparr>"

definition up_send :: "nat \<Rightarrow> relay_error option \<Rightarrow> tunnel \<Rightarrow> tunnel" where
  "up_send n e t =
     t\<lparr>closes := closes t @ [\<lparr>direction = ToClient, bytes = n, err = e\<rparr>],
       up_pc := if isUpstreamBreak e then UpArm n e else UpClose n e\<rparr>"

definition up_arm :: "nat \<Rightarrow> relay_error option \<Rightarrow> tunnel \<Rightarrow> tunnel" where
  "up_arm n e t =
     t\<lparr>lingering := lingering t \<or> tcpConnOf (client t) \<noteq> None \<and> client_end t = None, up_pc := UpClose n e\<rparr>"

definition up_close :: "nat \<Rightarrow> relay_error option \<Rightarrow> tunnel \<Rightarrow> tunnel" where
  "up_close n e t = (close_client t)\<lparr>up_pc := UpDone n e\<rparr>"

text \<open>\<^verbatim>\<open>io.CopyBuffer\<close> from the client to the upstream; its end of file is compared, not unwrapped.\<close>

definition main_outcome :: "nat \<Rightarrow> relay_error option \<Rightarrow> main_pc" where
  "main_outcome n rerr =
     (case rerr of None \<Rightarrow> MRead n | Some e \<Rightarrow> if e = EOF then MHalf n else MSend n e)"

definition main_read :: "nat \<Rightarrow> string \<Rightarrow> relay_error option \<Rightarrow> tunnel \<Rightarrow> tunnel" where
  "main_read n chunk rerr t =
     t\<lparr>taken := taken t @ chunk,
       main_pc := if chunk \<noteq> [] then MWrite n chunk rerr else main_outcome n rerr\<rparr>"

definition main_write :: "nat \<Rightarrow> string \<Rightarrow> relay_error option \<Rightarrow> nat \<Rightarrow> relay_error option \<Rightarrow> tunnel \<Rightarrow> tunnel" where
  "main_write n chunk rerr m werr t =
     t\<lparr>forwarded := forwarded t @ take m chunk,
       main_pc := (case werr of
                     Some e \<Rightarrow> MSend (n + m) e
                   | None \<Rightarrow> if m \<noteq> length chunk then MSend (n + m) ErrShortWrite else main_outcome (n + m) rerr)\<rparr>"

definition to_upstream :: "nat \<Rightarrow> relay_error option \<Rightarrow> relay_result" where
  "to_upstream n e = \<lparr>direction = ToUpstream, bytes = n, err = e\<rparr>"

definition relay_over :: "nat \<Rightarrow> relay_error option \<Rightarrow> relay_result \<Rightarrow> relay_result \<Rightarrow> tunnel \<Rightarrow> tunnel" where
  "relay_over n e r1 r2 t =
     t\<lparr>upstream_closed := True, recorded := Some (recordTunnelClose r1 r2), main_pc := MOver n e\<rparr>"

text \<open>What the network may answer. A socket that this process closed answers with \<^verbatim>\<open>net.ErrClosed\<close>, and
  only such a socket does; no error of a socket is of this package's own type; a write accepts a prefix
  of its chunk.\<close>

definition socket_error :: "relay_error option \<Rightarrow> bool" where
  "socket_error e \<longleftrightarrow> (case e of None \<Rightarrow> True | Some x \<Rightarrow> \<not> Is_err x ErrClosed \<and> \<not> As_break x)"

definition may_read :: "bool \<Rightarrow> string \<Rightarrow> relay_error option \<Rightarrow> bool" where
  "may_read shut chunk e \<longleftrightarrow> (if shut then chunk = [] \<and> e = Some ErrClosed else socket_error e)"

definition may_write :: "bool \<Rightarrow> string \<Rightarrow> nat \<Rightarrow> relay_error option \<Rightarrow> bool" where
  "may_write shut chunk m e \<longleftrightarrow>
     m \<le> length chunk \<and> (if shut then m = 0 \<and> e = Some ErrClosed else socket_error e)"

text \<open>What a failed write leaves behind, and who reported first.\<close>

definition failed_write :: "(relay_error \<Rightarrow> relay_error) \<Rightarrow> string \<Rightarrow> nat \<Rightarrow> relay_error option \<Rightarrow> relay_error option" where
  "failed_write wrap chunk m we =
     (case we of Some e \<Rightarrow> Some (wrap e) | None \<Rightarrow> if m < length chunk then Some ErrShortWrite else None)"

definition reported :: "direction \<Rightarrow> tunnel \<Rightarrow> direction option" where
  "reported d t = (case first_report t of None \<Rightarrow> Some d | Some x \<Rightarrow> Some x)"

fun up_over :: "up_pc \<Rightarrow> bool" where
  "up_over (UpDone _ _) \<longleftrightarrow> True"
| "up_over _ \<longleftrightarrow> False"

inductive relay_step :: "tunnel \<Rightarrow> tunnel \<Rightarrow> bool" where
  up_read: "up_pc t = UpRead n \<Longrightarrow> may_read (upstream_closed t) chunk e \<Longrightarrow> relay_step t ((copy_read n chunk e t)\<lparr>heard := e\<rparr>)"
| up_write: "up_pc t = UpWrite n chunk e \<Longrightarrow> may_write (client_end t \<noteq> None) chunk m we \<Longrightarrow>
    relay_step t ((copy_write n chunk e m we t)\<lparr>refusal := failed_write WriteToClient chunk m we\<rparr>)"
| up_send: "up_pc t = UpSend n e \<Longrightarrow> relay_step t ((up_send n e t)\<lparr>first_report := reported ToClient t\<rparr>)"
| up_arm: "up_pc t = UpArm n e \<Longrightarrow> relay_step t (up_arm n e t)"
| up_close: "up_pc t = UpClose n e \<Longrightarrow> relay_step t (up_close n e t)"
| main_read: "main_pc t = MRead n \<Longrightarrow> may_read (client_end t \<noteq> None) chunk e \<Longrightarrow> relay_step t ((main_read n chunk e t)\<lparr>asked := e\<rparr>)"
| main_write: "main_pc t = MWrite n chunk e \<Longrightarrow> may_write (upstream_closed t) chunk m we \<Longrightarrow>
    relay_step t ((main_write n chunk e m we t)\<lparr>stall := failed_write (\<lambda>e. e) chunk m we\<rparr>)"
| half_close: "main_pc t = MHalf n \<Longrightarrow> relay_step t (t\<lparr>half_closed := True, main_pc := MSelect n\<rparr>)"
| select_over: "main_pc t = MSelect n \<Longrightarrow> up_over (up_pc t) \<Longrightarrow> relay_step t (t\<lparr>main_pc := MReceive n\<rparr>)"
| select_base: "main_pc t = MSelect n \<Longrightarrow> base_done t \<Longrightarrow>
    relay_step t (t\<lparr>upstream_closed := True, main_pc := MCut n\<rparr>)"
| join_cut: "main_pc t = MCut n \<Longrightarrow> up_over (up_pc t) \<Longrightarrow> relay_step t (t\<lparr>main_pc := MReceive n\<rparr>)"
| receive: "main_pc t = MReceive n \<Longrightarrow> closes t = r # rs \<Longrightarrow>
    relay_step t (relay_over n None (to_upstream n None) r (t\<lparr>closes := rs\<rparr>))"
| main_send: "main_pc t = MSend n e \<Longrightarrow>
    relay_step t (t\<lparr>closes := closes t @ [to_upstream n (Some e)], main_pc := MCloseUp n e,
      first_report := reported ToUpstream t\<rparr>)"
| close_up: "main_pc t = MCloseUp n e \<Longrightarrow> relay_step t (t\<lparr>upstream_closed := True, main_pc := MCloseClient n e\<rparr>)"
| close_cl: "main_pc t = MCloseClient n e \<Longrightarrow> relay_step t ((close_client t)\<lparr>main_pc := MFirst n e\<rparr>)"
| fst_result: "main_pc t = MFirst n e \<Longrightarrow> closes t = r # rs \<Longrightarrow>
    relay_step t (t\<lparr>closes := rs, main_pc := MSecond n e r\<rparr>)"
| snd_result: "main_pc t = MSecond n e r \<Longrightarrow> closes t = r' # rs \<Longrightarrow>
    relay_step t (t\<lparr>closes := rs, main_pc := MJoin n e r r'\<rparr>)"
| join: "main_pc t = MJoin n e r r' \<Longrightarrow> up_over (up_pc t) \<Longrightarrow> relay_step t (relay_over n (Some e) r r' t)"
| cancel_base: "relay_step t (t\<lparr>base_done := True\<rparr>)"
| force_close: "relay_step t ((close_client t)\<lparr>forced := True\<rparr>)"


inductive_cases relay_stepE: "relay_step t t'"

lemmas relay_ops =
  copy_read_def copy_write_def up_send_def up_arm_def up_close_def main_read_def main_write_def relay_over_def

section \<open>The bytes\<close>

text \<open>The upstream broke the tunnel: the copy of the response ended with its break.\<close>

fun breaking :: "up_pc \<Rightarrow> bool" where
  "breaking (UpRead _) \<longleftrightarrow> False"
| "breaking (UpWrite _ _ _) \<longleftrightarrow> False"
| "breaking (UpSend _ e) \<longleftrightarrow> isUpstreamBreak e"
| "breaking (UpArm _ e) \<longleftrightarrow> isUpstreamBreak e"
| "breaking (UpClose _ e) \<longleftrightarrow> isUpstreamBreak e"
| "breaking (UpDone _ e) \<longleftrightarrow> isUpstreamBreak e"

definition over_ok :: "nat \<Rightarrow> relay_error option \<Rightarrow> string \<Rightarrow> string \<Rightarrow> bool" where
  "over_ok n e d r \<longleftrightarrow> n = length d \<and> prefix d r \<and> (e = None \<or> isUpstreamBreak e \<longrightarrow> d = r)"

fun up_ok :: "up_pc \<Rightarrow> string \<Rightarrow> string \<Rightarrow> bool" where
  "up_ok (UpRead n) d r \<longleftrightarrow> n = length d \<and> d = r"
| "up_ok (UpWrite n chunk _) d r \<longleftrightarrow> n = length d \<and> r = d @ chunk"
| "up_ok (UpSend n e) d r \<longleftrightarrow> over_ok n e d r"
| "up_ok (UpArm n e) d r \<longleftrightarrow> over_ok n e d r \<and> isUpstreamBreak e"
| "up_ok (UpClose n e) d r \<longleftrightarrow> over_ok n e d r"
| "up_ok (UpDone n e) d r \<longleftrightarrow> over_ok n e d r"

fun main_ok :: "main_pc \<Rightarrow> string \<Rightarrow> string \<Rightarrow> bool" where
  "main_ok (MRead n) d r \<longleftrightarrow> n = length d \<and> d = r"
| "main_ok (MWrite n chunk _) d r \<longleftrightarrow> n = length d \<and> r = d @ chunk"
| "main_ok (MHalf n) d r \<longleftrightarrow> n = length d \<and> d = r"
| "main_ok (MSelect n) d r \<longleftrightarrow> n = length d \<and> d = r"
| "main_ok (MCut n) d r \<longleftrightarrow> n = length d \<and> d = r"
| "main_ok (MReceive n) d r \<longleftrightarrow> n = length d \<and> d = r"
| "main_ok (MSend n e) d r \<longleftrightarrow> n = length d \<and> prefix d r"
| "main_ok (MCloseUp n e) d r \<longleftrightarrow> n = length d \<and> prefix d r"
| "main_ok (MCloseClient n e) d r \<longleftrightarrow> n = length d \<and> prefix d r"
| "main_ok (MFirst n e) d r \<longleftrightarrow> n = length d \<and> prefix d r"
| "main_ok (MSecond n e _) d r \<longleftrightarrow> n = length d \<and> prefix d r"
| "main_ok (MJoin n e _ _) d r \<longleftrightarrow> n = length d \<and> prefix d r"
| "main_ok (MOver n e) d r \<longleftrightarrow> n = length d \<and> prefix d r \<and> (e = None \<longrightarrow> d = r)"

lemma write_not_break: "may_write shut chunk m (Some e) \<Longrightarrow> \<not> isUpstreamBreak (Some (WriteToClient e))"
  by (auto simp: may_write_def socket_error_def isUpstreamBreak_def split: if_splits)

lemma short_not_break [simp]: "\<not> isUpstreamBreak (Some ErrShortWrite)" "\<not> isUpstreamBreak None"
  by (simp_all add: isUpstreamBreak_def)

lemma close_client_simps [simp]:
  "up_pc (close_client t) = up_pc t" "main_pc (close_client t) = main_pc t" "received (close_client t) = received t"
  "delivered (close_client t) = delivered t" "taken (close_client t) = taken t" "closes (close_client t) = closes t"
  "forwarded (close_client t) = forwarded t" "lingering (close_client t) = lingering t" "client (close_client t) = client t"
  "upstream_closed (close_client t) = upstream_closed t" "half_closed (close_client t) = half_closed t"
  "base_done (close_client t) = base_done t" "forced (close_client t) = forced t" "recorded (close_client t) = recorded t"
  "client_end (close_client t) \<noteq> None"
  "heard (close_client t) = heard t" "refusal (close_client t) = refusal t" "asked (close_client t) = asked t"
  "stall (close_client t) = stall t" "first_report (close_client t) = first_report t"
  by (simp_all add: close_client_def split: option.split)

lemma take_whole: "m \<le> length chunk \<Longrightarrow> \<not> m < length chunk \<Longrightarrow> take m chunk = chunk"
  by simp

lemma read_outcome_ok: "n = length d \<Longrightarrow> up_ok (read_outcome n e) d d"
  by (simp add: read_outcome_def over_ok_def split: option.split)

lemma main_outcome_ok: "n = length d \<Longrightarrow> main_ok (main_outcome n e) d d"
  by (simp add: main_outcome_def split: option.split)

lemma copy_write_ok:
  assumes "up_ok (UpWrite n chunk e) (delivered t) (received t)" and "may_write shut chunk m we"
  shows "up_ok (up_pc (copy_write n chunk e m we t)) (delivered (copy_write n chunk e m we t)) (received (copy_write n chunk e m we t))"
proof (cases "we = None \<and> \<not> m < length chunk")
  case True
  then show ?thesis using assms read_outcome_ok [of "n + m" "received t" e] by (simp add: copy_write_def may_write_def)
next
  case False
  moreover have "\<not> isUpstreamBreak (Some (WriteToClient x))" if "we = Some x" for x
    using assms(2) that by (auto dest: write_not_break)
  ultimately show ?thesis using assms
    by (auto simp: copy_write_def may_write_def over_ok_def take_is_prefix split: option.split)
qed

lemma main_write_ok:
  assumes "main_ok (MWrite n chunk e) (forwarded t) (taken t)" and "may_write shut chunk m we"
  shows "main_ok (main_pc (main_write n chunk e m we t)) (forwarded (main_write n chunk e m we t)) (taken (main_write n chunk e m we t))"
proof (cases "we = None \<and> m = length chunk")
  case True
  then show ?thesis using assms main_outcome_ok [of "n + m" "taken t" e] by (simp add: main_write_def may_write_def)
next
  case False
  then show ?thesis using assms
    by (auto simp: main_write_def may_write_def take_is_prefix split: option.split)
qed

text \<open>Both directions keep their streams.\<close>

definition streams_ok :: "tunnel \<Rightarrow> bool" where
  "streams_ok t \<longleftrightarrow> up_ok (up_pc t) (delivered t) (received t) \<and> main_ok (main_pc t) (forwarded t) (taken t)"

lemma streams_step:
  assumes "relay_step t t'" and "streams_ok t"
  shows "streams_ok t'"
  using assms
proof cases
  case (up_read n chunk e)
  then show ?thesis using assms(2) read_outcome_ok by (auto simp: streams_ok_def copy_read_def may_read_def split: if_splits)
next
  case (up_write n chunk e m we)
  then show ?thesis using assms(2) copy_write_ok [of n chunk e t] by (simp add: streams_ok_def) (simp add: copy_write_def)
next
  case (main_read n chunk e)
  then show ?thesis using assms(2) main_outcome_ok by (auto simp: streams_ok_def main_read_def)
next
  case (main_write n chunk e m we)
  then show ?thesis using assms(2) main_write_ok [of n chunk e t] by (simp add: streams_ok_def) (simp add: main_write_def)
qed (auto simp: streams_ok_def relay_ops)

text \<open>Why a copy ended: a failed write, or else the error of the last read, an end of file being none.\<close>

definition up_end :: "relay_error option \<Rightarrow> relay_error option \<Rightarrow> relay_error option" where
  "up_end h r =
     (case r of
        Some e \<Rightarrow> Some e
      | None \<Rightarrow> (case h of None \<Rightarrow> None | Some e \<Rightarrow> if Is_err e EOF then None else Some (upstreamBreakError e)))"

definition main_end :: "relay_error option \<Rightarrow> relay_error option \<Rightarrow> relay_error option" where
  "main_end h r = (case r of Some e \<Rightarrow> Some e | None \<Rightarrow> if h = Some EOF then None else h)"

fun up_result :: "up_pc \<Rightarrow> relay_error option option" where
  "up_result (UpSend _ e) = Some e"
| "up_result (UpArm _ e) = Some e"
| "up_result (UpClose _ e) = Some e"
| "up_result (UpDone _ e) = Some e"
| "up_result _ = None"

fun main_result :: "main_pc \<Rightarrow> relay_error option option" where
  "main_result (MRead _) = None"
| "main_result (MWrite _ _ _) = None"
| "main_result (MSend _ e) = Some (Some e)"
| "main_result (MCloseUp _ e) = Some (Some e)"
| "main_result (MCloseClient _ e) = Some (Some e)"
| "main_result (MFirst _ e) = Some (Some e)"
| "main_result (MSecond _ e _) = Some (Some e)"
| "main_result (MJoin _ e _ _) = Some (Some e)"
| "main_result (MOver _ e) = Some e"
| "main_result _ = Some None"

fun up_pending :: "up_pc \<Rightarrow> relay_error option \<Rightarrow> bool" where
  "up_pending (UpRead _) h \<longleftrightarrow> h = None"
| "up_pending (UpWrite _ _ e) h \<longleftrightarrow> h = e"
| "up_pending _ h \<longleftrightarrow> True"

fun main_pending :: "main_pc \<Rightarrow> relay_error option \<Rightarrow> bool" where
  "main_pending (MRead _) a \<longleftrightarrow> a = None"
| "main_pending (MWrite _ _ e) a \<longleftrightarrow> a = e"
| "main_pending _ a \<longleftrightarrow> True"

definition results_ok :: "tunnel \<Rightarrow> bool" where
  "results_ok t \<longleftrightarrow>
     up_pending (up_pc t) (heard t) \<and> main_pending (main_pc t) (asked t) \<and>
     (case up_result (up_pc t) of
        None \<Rightarrow> refusal t = None
      | Some x \<Rightarrow> x = up_end (heard t) (refusal t) \<and>
          (refusal t = None \<longrightarrow> heard t \<noteq> None \<and> delivered t = received t)) \<and>
     (case main_result (main_pc t) of
        None \<Rightarrow> stall t = None
      | Some x \<Rightarrow> x = main_end (asked t) (stall t) \<and>
          (stall t = None \<longrightarrow> asked t \<noteq> None \<and> forwarded t = taken t))"

lemma results_step:
  assumes "relay_step t t'" and "results_ok t" and "streams_ok t"
  shows "results_ok t'"
  using assms(1)
proof cases
  case (up_read n chunk e)
  then show ?thesis using assms(2,3)
    by (auto simp: results_ok_def streams_ok_def copy_read_def read_outcome_def up_end_def split: option.splits)
next
  case (up_write n chunk e m we)
  then show ?thesis using assms(2,3)
    by (auto simp: results_ok_def streams_ok_def copy_write_def read_outcome_def up_end_def failed_write_def
        may_write_def split: option.splits)
next
  case (main_read n chunk e)
  then show ?thesis using assms(2,3)
    by (auto simp: results_ok_def streams_ok_def main_read_def main_outcome_def main_end_def split: option.splits)
next
  case (main_write n chunk e m we)
  then show ?thesis using assms(2,3)
    by (auto simp: results_ok_def streams_ok_def main_write_def main_outcome_def main_end_def failed_write_def
        may_write_def split: option.splits)
qed (use assms(2) in \<open>auto simp: results_ok_def relay_ops split: option.splits\<close>)

section \<open>The sockets\<close>

text \<open>The request copy failed; the caller closed the client socket; the half close is behind.\<close>

fun failed :: "main_pc \<Rightarrow> bool" where
  "failed (MSend _ _) \<longleftrightarrow> True"
| "failed (MCloseUp _ _) \<longleftrightarrow> True"
| "failed (MCloseClient _ _) \<longleftrightarrow> True"
| "failed (MFirst _ _) \<longleftrightarrow> True"
| "failed (MSecond _ _ _) \<longleftrightarrow> True"
| "failed (MJoin _ _ _ _) \<longleftrightarrow> True"
| "failed (MOver _ e) \<longleftrightarrow> e \<noteq> None"
| "failed _ \<longleftrightarrow> False"

fun closed_client :: "main_pc \<Rightarrow> bool" where
  "closed_client (MFirst _ _) \<longleftrightarrow> True"
| "closed_client (MSecond _ _ _) \<longleftrightarrow> True"
| "closed_client (MJoin _ _ _ _) \<longleftrightarrow> True"
| "closed_client (MOver _ e) \<longleftrightarrow> e \<noteq> None"
| "closed_client _ \<longleftrightarrow> False"

fun halved :: "main_pc \<Rightarrow> bool" where
  "halved (MSelect _) \<longleftrightarrow> True"
| "halved (MCut _) \<longleftrightarrow> True"
| "halved (MReceive _) \<longleftrightarrow> True"
| "halved (MOver _ e) \<longleftrightarrow> e = None"
| "halved _ \<longleftrightarrow> False"

fun awaited :: "main_pc \<Rightarrow> bool" where
  "awaited (MReceive _) \<longleftrightarrow> True"
| "awaited (MOver _ _) \<longleftrightarrow> True"
| "awaited _ \<longleftrightarrow> False"

fun armed :: "up_pc \<Rightarrow> bool" where
  "armed (UpClose _ e) \<longleftrightarrow> isUpstreamBreak e"
| "armed (UpDone _ e) \<longleftrightarrow> isUpstreamBreak e"
| "armed _ \<longleftrightarrow> False"

definition shut_ok :: "tunnel \<Rightarrow> bool" where
  "shut_ok t \<longleftrightarrow>
     (upstream_closed t \<longrightarrow> base_done t \<or> failed (main_pc t) \<or> up_over (up_pc t)) \<and>
     (half_closed t \<longrightarrow> halved (main_pc t)) \<and>
     (awaited (main_pc t) \<longrightarrow> up_over (up_pc t))"

text \<open>What the client socket may have come to, with the reset armed or not.\<close>

fun client_ok :: "bool \<Rightarrow> bool \<Rightarrow> up_pc \<Rightarrow> bool \<Rightarrow> ending option \<Rightarrow> bool" where
  "client_ok tcp f p armd None \<longleftrightarrow> \<not> f \<and> \<not> up_over p \<and> armd = (armed p \<and> tcp)"
| "client_ok tcp f p armd (Some Reset) \<longleftrightarrow> armd \<and> armed p \<and> tcp"
| "client_ok tcp f p armd (Some Fin) \<longleftrightarrow> \<not> armd \<and> (f \<or> up_over p \<and> \<not> (breaking p \<and> tcp))"

definition forsaken :: "tunnel \<Rightarrow> bool" where
  "forsaken t \<longleftrightarrow> forced t \<or> closed_client (main_pc t)"

definition sockets_ok :: "tunnel \<Rightarrow> bool" where
  "sockets_ok t \<longleftrightarrow> client_ok (tcpConnOf (client t) \<noteq> None) (forsaken t) (up_pc t) (lingering t) (client_end t)"

lemma armed_breaks: "armed p \<Longrightarrow> breaking p" by (cases p) simp_all

lemma over_armed: "up_over p \<Longrightarrow> armed p = breaking p" by (cases p) simp_all

lemma read_outcome_pcs [simp]: "\<not> up_over (read_outcome n e)" "\<not> armed (read_outcome n e)"
  by (simp_all add: read_outcome_def split: option.split)

lemma main_outcome_pcs [simp]:
  "\<not> halved (main_outcome n e)" "\<not> awaited (main_outcome n e)" "\<not> closed_client (main_outcome n e)"
  by (simp_all add: main_outcome_def split: option.split)

lemma close_client_end: "client_end (close_client t) =
    Some (case client_end t of None \<Rightarrow> if lingering t then Reset else Fin | Some x \<Rightarrow> x)"
  by (simp add: close_client_def split: option.split)

lemma client_ok_close:
  "client_ok tcp f p armd e \<Longrightarrow>
     client_ok tcp True p armd (Some (case e of None \<Rightarrow> if armd then Reset else Fin | Some x \<Rightarrow> x))"
  by (cases e rule: option.exhaust; cases "the e") auto

lemma client_ok_done:
  "client_ok tcp f (UpClose n e) armd x \<Longrightarrow>
     client_ok tcp f (UpDone n e) armd (Some (case x of None \<Rightarrow> if armd then Reset else Fin | Some y \<Rightarrow> y))"
  by (cases x rule: option.exhaust; cases "the x") auto

lemma client_ok_unarmed:
  "client_ok tcp f p armd e \<Longrightarrow> \<not> armed p \<Longrightarrow> \<not> up_over p \<Longrightarrow> \<not> armed q \<Longrightarrow> \<not> up_over q \<Longrightarrow>
     client_ok tcp f q armd e"
  by (cases e rule: option.exhaust; cases "the e") auto

lemma client_ok_arm:
  "client_ok tcp f (UpArm n e) armd x \<Longrightarrow> isUpstreamBreak e \<Longrightarrow>
     client_ok tcp f (UpClose n e) (armd \<or> tcp \<and> x = None) x"
  by (cases x rule: option.exhaust; cases "the x") auto

lemma sockets_step:
  assumes "relay_step t t'" and "sockets_ok t" and "streams_ok t"
  shows "sockets_ok t'"
  using assms(1)
proof cases
  case (up_read n chunk e)
  then show ?thesis using assms(2) by (auto simp: sockets_ok_def forsaken_def copy_read_def elim: client_ok_unarmed)
next
  case (up_write n chunk e m we)
  then show ?thesis using assms(2)
    by (auto simp: sockets_ok_def forsaken_def copy_write_def split: option.split elim: client_ok_unarmed)
next
  case (up_send n e)
  then show ?thesis using assms(2) by (auto simp: sockets_ok_def forsaken_def up_send_def elim: client_ok_unarmed)
next
  case (up_arm n e)
  then have "isUpstreamBreak e" using assms(3) by (simp add: streams_ok_def)
  then show ?thesis using assms(2) up_arm client_ok_arm [of _ _ n e "lingering t" "client_end t"]
    by (simp add: sockets_ok_def forsaken_def up_arm_def)
next
  case (up_close n e)
  then show ?thesis using assms(2) client_ok_done [of _ _ n e "lingering t" "client_end t"]
    by (simp add: sockets_ok_def forsaken_def up_close_def close_client_end)
next
  case (close_cl n e)
  then show ?thesis using assms(2) client_ok_close [of _ _ "up_pc t" "lingering t" "client_end t"]
    by (simp add: sockets_ok_def forsaken_def close_client_end)
next
  case force_close
  then show ?thesis using assms(2) client_ok_close [of _ _ "up_pc t" "lingering t" "client_end t"]
    by (simp add: sockets_ok_def forsaken_def close_client_end)
qed (use assms(2) in \<open>auto simp: sockets_ok_def forsaken_def relay_ops main_outcome_def split: option.splits\<close>)

lemma shut_step: "relay_step t t' \<Longrightarrow> shut_ok t \<Longrightarrow> shut_ok t'"
  by (erule relay_stepE) (auto simp: shut_ok_def relay_ops main_outcome_def split: option.splits)

section \<open>The channel of results\<close>

fun up_sent :: "up_pc \<Rightarrow> relay_result list" where
  "up_sent (UpArm n e) = [\<lparr>direction = ToClient, bytes = n, err = e\<rparr>]"
| "up_sent (UpClose n e) = [\<lparr>direction = ToClient, bytes = n, err = e\<rparr>]"
| "up_sent (UpDone n e) = [\<lparr>direction = ToClient, bytes = n, err = e\<rparr>]"
| "up_sent _ = []"

fun main_sent :: "main_pc \<Rightarrow> relay_result list" where
  "main_sent (MCloseUp n e) = [to_upstream n (Some e)]"
| "main_sent (MCloseClient n e) = [to_upstream n (Some e)]"
| "main_sent (MFirst n e) = [to_upstream n (Some e)]"
| "main_sent (MSecond n e _) = [to_upstream n (Some e)]"
| "main_sent (MJoin n e _ _) = [to_upstream n (Some e)]"
| "main_sent _ = []"

fun got :: "main_pc \<Rightarrow> relay_result list" where
  "got (MSecond _ _ r) = [r]"
| "got (MJoin _ _ r r') = [r, r']"
| "got _ = []"

fun is_over :: "main_pc \<Rightarrow> bool" where
  "is_over (MOver _ _) \<longleftrightarrow> True"
| "is_over _ \<longleftrightarrow> False"

text \<open>The record is made of the two results, the one of the request first unless both goroutines sent and
  the other one was first.\<close>

definition record_of :: "direction option \<Rightarrow> relay_result list \<Rightarrow> main_pc \<Rightarrow> close_record option \<Rightarrow> bool" where
  "record_of f up m rec \<longleftrightarrow>
     (case (up, m) of
        ([r], MOver n e) \<Rightarrow>
          rec = Some (if e \<noteq> None \<and> f = Some ToClient then recordTunnelClose r (to_upstream n e)
            else recordTunnelClose (to_upstream n e) r)
      | _ \<Rightarrow> False)"

fun in_channel :: "direction option \<Rightarrow> relay_result list \<Rightarrow> relay_result list \<Rightarrow> relay_result list \<Rightarrow> bool" where
  "in_channel None up mn xs \<longleftrightarrow> up = [] \<and> mn = [] \<and> xs = []"
| "in_channel (Some ToClient) up mn xs \<longleftrightarrow> up \<noteq> [] \<and> xs = up @ mn"
| "in_channel (Some ToUpstream) up mn xs \<longleftrightarrow> mn \<noteq> [] \<and> xs = mn @ up"

definition channel_ok :: "tunnel \<Rightarrow> bool" where
  "channel_ok t \<longleftrightarrow>
     (if is_over (main_pc t)
      then upstream_closed t \<and> record_of (first_report t) (up_sent (up_pc t)) (main_pc t) (recorded t)
      else in_channel (first_report t) (up_sent (up_pc t)) (main_sent (main_pc t)) (got (main_pc t) @ closes t))"

lemma in_channel_cases:
  "in_channel f up mn xs \<Longrightarrow>
     f = None \<and> up = [] \<and> mn = [] \<and> xs = [] \<or> f = Some ToClient \<and> up \<noteq> [] \<and> xs = up @ mn \<or>
     f = Some ToUpstream \<and> mn \<noteq> [] \<and> xs = mn @ up"
  by (cases "(f, up, mn, xs)" rule: in_channel.cases) auto

lemma in_channel_up:
  "in_channel (first_report t) [] mn xs \<Longrightarrow> in_channel (reported ToClient t) [r] mn (xs @ [r])"
  by (auto simp: reported_def dest!: in_channel_cases)

lemma in_channel_main:
  "in_channel (first_report t) up [] xs \<Longrightarrow> in_channel (reported ToUpstream t) up [r] (xs @ [r])"
  by (auto simp: reported_def dest!: in_channel_cases)

lemma outcome_sent [simp]:
  "up_sent (read_outcome n e) = []" "main_sent (main_outcome n e) = []" "got (main_outcome n e) = []"
  "\<not> is_over (main_outcome n e)"
  by (simp_all add: read_outcome_def main_outcome_def split: option.split)

lemma up_over_sent: "up_over p \<Longrightarrow> \<exists>n e. p = UpDone n e"
  by (cases p) auto

lemma channel_step:
  assumes "relay_step t t'" and "channel_ok t" and "shut_ok t"
  shows "channel_ok t'"
  using assms(1)
proof cases
  case (receive n r rs)
  then have "up_over (up_pc t)" using assms(3) by (simp add: shut_ok_def)
  then obtain k e where p: "up_pc t = UpDone k e" using up_over_sent by blast
  then show ?thesis using receive assms(2)
    by (auto simp: channel_ok_def relay_over_def record_of_def dest!: in_channel_cases)
next
  case (join n e r r')
  then obtain k x where p: "up_pc t = UpDone k x" using up_over_sent by blast
  then show ?thesis using join assms(2)
    by (auto simp: channel_ok_def relay_over_def record_of_def dest!: in_channel_cases)
next
  case (up_send n e)
  then have "\<not> awaited (main_pc t)" using assms(3) by (auto simp: shut_ok_def)
  then have "\<not> is_over (main_pc t)" by (cases "main_pc t") simp_all
  then show ?thesis using up_send assms(2) in_channel_up [of t "main_sent (main_pc t)" "got (main_pc t) @ closes t"]
    by (simp add: channel_ok_def up_send_def)
next
  case (main_send n e)
  then show ?thesis using assms(2) in_channel_main [of t "up_sent (up_pc t)" "closes t"]
    by (simp add: channel_ok_def)
qed (use assms(2) in \<open>auto simp: channel_ok_def relay_ops split: option.splits\<close>)

section \<open>What a tunnel comes to\<close>

definition relay_reach :: "net_conn \<Rightarrow> tunnel \<Rightarrow> bool" where
  "relay_reach c t \<longleftrightarrow> relay_step\<^sup>*\<^sup>* (new_tunnel c) t"

definition relay_ok :: "tunnel \<Rightarrow> bool" where
  "relay_ok t \<longleftrightarrow> streams_ok t \<and> shut_ok t \<and> sockets_ok t \<and> channel_ok t \<and> results_ok t"

lemma relay_reach_ok:
  assumes "relay_reach c t"
  shows "relay_ok t \<and> client t = c"
  using assms unfolding relay_reach_def
proof (induction rule: rtranclp_induct)
  case base
  show ?case
    by (simp add: relay_ok_def new_tunnel_def streams_ok_def shut_ok_def sockets_ok_def forsaken_def channel_ok_def results_ok_def)
next
  case (step t u)
  have "client u = client t" using step(2) by (rule relay_stepE) (simp_all add: relay_ops)
  then show ?case using step streams_step shut_step sockets_step channel_step results_step by (auto simp: relay_ok_def)
qed

text \<open>The step of a goroutine, as opposed to what shutdown does from outside.\<close>

definition own_step :: "tunnel \<Rightarrow> tunnel \<Rightarrow> bool" where
  "own_step t t' \<longleftrightarrow> relay_step t t' \<and> (up_pc t' \<noteq> up_pc t \<or> main_pc t' \<noteq> main_pc t)"

lemma own_stepI: "relay_step t t' \<Longrightarrow> up_pc t' \<noteq> up_pc t \<or> main_pc t' \<noteq> main_pc t \<Longrightarrow> \<exists>t'. own_step t t'"
  by (auto simp: own_step_def)

lemma up_progress:
  assumes "\<not> up_over (up_pc t)"
  shows "\<exists>t'. own_step t t'"
proof (cases "up_pc t")
  case (UpRead n)
  have "may_read (upstream_closed t) [] (Some (if upstream_closed t then ErrClosed else EOF))"
    by (simp add: may_read_def socket_error_def)
  from own_stepI [OF relay_step.up_read [OF UpRead this]] show ?thesis
      using UpRead by (simp add: copy_read_def read_outcome_def split: if_splits)
next
  case (UpWrite n chunk e)
  have "may_write (client_end t \<noteq> None) chunk 0 (Some (if client_end t \<noteq> None then ErrClosed else OtherError []))"
    by (simp add: may_write_def socket_error_def)
  from own_stepI [OF relay_step.up_write [OF UpWrite this]] show ?thesis
      using UpWrite by (simp add: copy_write_def split: if_splits)
next
  case (UpSend n e)
  then show ?thesis using own_stepI [OF relay_step.up_send [OF UpSend]] by (simp add: up_send_def split: if_splits)
next
  case (UpArm n e)
  then show ?thesis using own_stepI [OF relay_step.up_arm [OF UpArm]] by (simp add: up_arm_def split: if_splits)
next
  case (UpClose n e)
  then show ?thesis using own_stepI [OF relay_step.up_close [OF UpClose]] by (simp add: up_close_def split: if_splits)
qed (use assms in simp)

text \<open>No goroutine waits for a result that nobody sends.\<close>

lemma copy_progress:
  assumes "main_pc t = MRead n \<or> main_pc t = MWrite n chunk e"
  shows "\<exists>t'. own_step t t'"
proof (cases "main_pc t")
  case (MRead n)
  have "may_read (client_end t \<noteq> None) [] (Some (if client_end t \<noteq> None then ErrClosed else EOF))"
    by (simp add: may_read_def socket_error_def)
  from own_stepI [OF relay_step.main_read [OF MRead this]] show ?thesis
    using MRead by (simp add: main_read_def main_outcome_def split: if_splits)
next
  case (MWrite n chunk e)
  have "may_write (upstream_closed t) chunk 0 (Some (if upstream_closed t then ErrClosed else OtherError []))"
    by (simp add: may_write_def socket_error_def)
  from own_stepI [OF relay_step.main_write [OF MWrite this]] show ?thesis
    using MWrite by (simp add: main_write_def split: if_splits)
qed (use assms in simp_all)

lemma relay_progress:
  assumes ok: "relay_ok t" and "\<not> is_over (main_pc t)"
  shows "\<exists>t'. own_step t t'"
proof (cases "up_over (up_pc t)")
  case False
  then show ?thesis by (rule up_progress)
next
  case over: True
  then obtain k x where p: "up_pc t = UpDone k x" using up_over_sent by blast
  have ch: "channel_ok t" using ok by (simp add: relay_ok_def)
  show ?thesis
  proof (cases "main_pc t")
    case (MRead n)
    then show ?thesis using copy_progress [of t n "[]" None] by simp
  next
    case (MWrite n chunk e)
    then show ?thesis using copy_progress [of t n chunk e] by simp
  next
    case (MHalf n)
    then show ?thesis using own_stepI [OF relay_step.half_close [OF MHalf]] by (simp split: if_splits)
  next
    case (MSelect n)
    then show ?thesis using own_stepI [OF relay_step.select_over [OF MSelect over]] by (simp split: if_splits)
  next
    case (MCut n)
    then show ?thesis using own_stepI [OF relay_step.join_cut [OF MCut over]] by (simp split: if_splits)
  next
    case (MReceive n)
    then obtain r where "closes t = [r]" using ch p by (auto simp: channel_ok_def dest!: in_channel_cases)
    from own_stepI [OF relay_step.receive [OF MReceive this]] show ?thesis
      using MReceive by (simp add: relay_over_def split: if_splits)
  next
    case (MSend n e)
    then show ?thesis using own_stepI [OF relay_step.main_send [OF MSend]] by (simp split: if_splits)
  next
    case (MCloseUp n e)
    then show ?thesis using own_stepI [OF relay_step.close_up [OF MCloseUp]] by (simp split: if_splits)
  next
    case (MCloseClient n e)
    then show ?thesis using own_stepI [OF relay_step.close_cl [OF MCloseClient]] by (simp split: if_splits)
  next
    case (MFirst n e)
    then obtain r rs where "closes t = r # rs" using ch p by (auto simp: channel_ok_def dest!: in_channel_cases)
    from own_stepI [OF relay_step.fst_result [OF MFirst this]] show ?thesis
      using MFirst by (simp split: if_splits)
  next
    case (MSecond n e r)
    then obtain r' rs where "closes t = r' # rs" using ch p by (auto simp: channel_ok_def dest!: in_channel_cases)
    from own_stepI [OF relay_step.snd_result [OF MSecond this]] show ?thesis
      using MSecond by (simp split: if_splits)
  next
    case (MJoin n e r r')
    then show ?thesis using own_stepI [OF relay_step.join [OF MJoin over]] by (simp add: relay_over_def split: if_splits)
  qed (use assms(2) in simp)
qed

lemma sockets_facts:
  assumes "sockets_ok t"
  shows "client_end t = Some Reset \<Longrightarrow> breaking (up_pc t)"
    and "client_end t = Some Fin \<Longrightarrow> breaking (up_pc t) \<Longrightarrow> tcpConnOf (client t) \<noteq> None \<Longrightarrow>
      forced t \<or> failed (main_pc t)"
    and "up_over (up_pc t) \<Longrightarrow> client_end t \<noteq> None"
proof -
  have "closed_client (main_pc t) \<Longrightarrow> failed (main_pc t)" by (cases "main_pc t") simp_all
  then show "client_end t = Some Fin \<Longrightarrow> breaking (up_pc t) \<Longrightarrow> tcpConnOf (client t) \<noteq> None \<Longrightarrow>
      forced t \<or> failed (main_pc t)"
    using assms by (auto simp: sockets_ok_def forsaken_def)
  show "up_over (up_pc t) \<Longrightarrow> client_end t \<noteq> None"
    using assms by (cases "client_end t") (simp_all add: sockets_ok_def)
qed (use assms armed_breaks in \<open>auto simp: sockets_ok_def\<close>)

lemma up_ok_facts: "up_ok p d r \<Longrightarrow> prefix d r \<and> (breaking p \<longrightarrow> d = r)"
  by (cases p) (auto simp: over_ok_def)

lemma main_ok_facts: "main_ok m d r \<Longrightarrow> prefix d r \<and> (halved m \<longrightarrow> d = r)"
  by (cases m) auto

text \<open>The record of a tunnel whose copies ended with \<open>x\<close> (response) and \<open>e\<close> (request).\<close>

definition the_record :: "direction option \<Rightarrow> relay_error option \<Rightarrow> relay_error option \<Rightarrow> nat \<Rightarrow> nat \<Rightarrow> close_record" where
  "the_record f x e sent back =
     \<lparr>msg = (if isUpstreamBreak x then ''tunnel broken'' else ''tunnel closed''),
      close_reason = (if isUpstreamBreak x then ''upstream_broken'' else if e = None then ''client_closed''
        else if f = Some ToClient \<and> x = None then ''upstream_closed'' else ''client_aborted''),
      at_warn = isUpstreamBreak x, c2u_bytes = sent, u2c_bytes = back,
      cause = (if isUpstreamBreak x then x else if e = None then None else if f = Some ToClient then x else e)\<rparr>"

lemma record_exact:
  assumes "record_of (first_report t) (up_sent (up_pc t)) (main_pc t) (recorded t)" and "streams_ok t" and "results_ok t"
    and "up_over (up_pc t)"
  shows "recorded t = Some (the_record (first_report t) (up_end (heard t) (refusal t)) (main_end (asked t) (stall t))
    (length (forwarded t)) (length (delivered t)))"
proof -
  obtain k x where p: "up_pc t = UpDone k x" using up_over_sent [OF assms(4)] by blast
  obtain n e where m: "main_pc t = MOver n e" using assms(1) p by (cases "main_pc t") (simp_all add: record_of_def)
  have len: "k = length (delivered t)" "n = length (forwarded t)"
    using assms(2) by (simp_all add: streams_ok_def p m over_ok_def)
  have x: "x = up_end (heard t) (refusal t)" "e = main_end (asked t) (stall t)"
    using assms(3) by (simp_all add: results_ok_def p m)
  show ?thesis using assms(1) unfolding x [symmetric] len [symmetric]
    by (auto simp: record_of_def p m recordTunnelClose_def to_upstream_def the_record_def)
qed

text \<open>Claim C16: the relay of an established tunnel, in every interleaving of its two goroutines with the
  network and with a shutdown. Each side gets a prefix of what the other sent; once a copy ended, it
  got all of it unless a write to it failed. The copy of the response ended with a failed write, or
  else with what the last read of the upstream said, and likewise the copy of the request. A client that
  half closes has its whole request forwarded first, and the upstream stays open until the response is
  over unless the request failed or the process shuts down. A reset reaches the client only after the
  upstream broke the tunnel, behind all bytes that came before; and a broken tunnel reaches a TCP client
  as a reset unless the request failed too or the shutdown closed the socket. A relay that is over left
  no goroutine, closed both sockets and recorded exactly what happened: the byte counts, the message,
  level, reason and error of a tunnel the upstream broke, of one the client closed after its request,
  of one the upstream closed first, or of one that was cut off otherwise. One that is not over can always
  take a step.\<close>

theorem tunnel_close:
  assumes "relay_reach c t"
  shows "prefix (delivered t) (received t) \<and> prefix (forwarded t) (taken t) \<and>
    (\<forall>x. up_result (up_pc t) = Some x \<longrightarrow> x = up_end (heard t) (refusal t) \<and>
       (refusal t = None \<longrightarrow> heard t \<noteq> None \<and> delivered t = received t)) \<and>
    (\<forall>x. main_result (main_pc t) = Some x \<longrightarrow> x = main_end (asked t) (stall t) \<and>
       (stall t = None \<longrightarrow> asked t \<noteq> None \<and> forwarded t = taken t)) \<and>
    (half_closed t \<longrightarrow> forwarded t = taken t) \<and>
    (upstream_closed t \<longrightarrow> base_done t \<or> failed (main_pc t) \<or> up_over (up_pc t)) \<and>
    (client_end t = Some Reset \<longrightarrow> breaking (up_pc t)) \<and>
    (breaking (up_pc t) \<longrightarrow> delivered t = received t) \<and>
    (client_end t = Some Fin \<and> breaking (up_pc t) \<and> tcpConnOf c \<noteq> None \<longrightarrow> forced t \<or> failed (main_pc t)) \<and>
    (is_over (main_pc t) \<longrightarrow> up_over (up_pc t) \<and> upstream_closed t \<and> client_end t \<noteq> None \<and>
       recorded t = Some (the_record (first_report t) (up_end (heard t) (refusal t)) (main_end (asked t) (stall t))
         (length (forwarded t)) (length (delivered t)))) \<and>
    (\<not> is_over (main_pc t) \<longrightarrow>
       (\<exists>t'. relay_step t t' \<and> (up_pc t' \<noteq> up_pc t \<or> main_pc t' \<noteq> main_pc t)))"
proof (intro conjI)
  have ok: "relay_ok t" and c: "client t = c" using relay_reach_ok [OF assms] by simp_all
  then have st: "streams_ok t" and sh: "shut_ok t" and so: "sockets_ok t" and ch: "channel_ok t" and rs: "results_ok t"
    by (simp_all add: relay_ok_def)
  note up = up_ok_facts [of "up_pc t" "delivered t" "received t"]
  note mn = main_ok_facts [of "main_pc t" "forwarded t" "taken t"]
  show "prefix (delivered t) (received t)" "prefix (forwarded t) (taken t)"
    "half_closed t \<longrightarrow> forwarded t = taken t" "breaking (up_pc t) \<longrightarrow> delivered t = received t"
    "upstream_closed t \<longrightarrow> base_done t \<or> failed (main_pc t) \<or> up_over (up_pc t)"
    using up mn st sh unfolding streams_ok_def shut_ok_def by blast+
  show "client_end t = Some Reset \<longrightarrow> breaking (up_pc t)"
    "client_end t = Some Fin \<and> breaking (up_pc t) \<and> tcpConnOf c \<noteq> None \<longrightarrow> forced t \<or> failed (main_pc t)"
    using sockets_facts [OF so] c by blast+
  show "\<forall>x. up_result (up_pc t) = Some x \<longrightarrow> x = up_end (heard t) (refusal t) \<and>
      (refusal t = None \<longrightarrow> heard t \<noteq> None \<and> delivered t = received t)"
    "\<forall>x. main_result (main_pc t) = Some x \<longrightarrow> x = main_end (asked t) (stall t) \<and>
      (stall t = None \<longrightarrow> asked t \<noteq> None \<and> forwarded t = taken t)"
    using rs by (simp_all add: results_ok_def split: option.splits)
  show "is_over (main_pc t) \<longrightarrow> up_over (up_pc t) \<and> upstream_closed t \<and> client_end t \<noteq> None \<and>
      recorded t = Some (the_record (first_report t) (up_end (heard t) (refusal t)) (main_end (asked t) (stall t))
        (length (forwarded t)) (length (delivered t)))"
  proof
    assume o: "is_over (main_pc t)"
    then have u: "up_over (up_pc t)" using sh by (cases "main_pc t") (simp_all add: shut_ok_def)
    moreover have "upstream_closed t" and r: "record_of (first_report t) (up_sent (up_pc t)) (main_pc t) (recorded t)"
      using o ch by (simp_all add: channel_ok_def)
    ultimately show "up_over (up_pc t) \<and> upstream_closed t \<and> client_end t \<noteq> None \<and>
      recorded t = Some (the_record (first_report t) (up_end (heard t) (refusal t)) (main_end (asked t) (stall t))
        (length (forwarded t)) (length (delivered t)))"
      using sockets_facts(3) [OF so] record_exact [OF r st rs u] by blast
  qed
  show "\<not> is_over (main_pc t) \<longrightarrow> (\<exists>t'. relay_step t t' \<and> (up_pc t' \<noteq> up_pc t \<or> main_pc t' \<noteq> main_pc t))"
    using relay_progress [OF ok] by (auto simp: own_step_def)
qed

lemma relay_reach_step: "relay_reach c t \<Longrightarrow> relay_step t t' \<Longrightarrow> relay_reach c t'"
  unfolding relay_reach_def by (rule rtranclp.rtrancl_into_rtrancl)

text \<open>The upstream breaks the tunnel behind one byte: the client gets the byte and a reset.\<close>

theorem tunnel_close_witness:
  "\<exists>t. relay_reach (TCPConn 0) t \<and> client_end t = Some Reset \<and> delivered t = ''a'' \<and> breaking (up_pc t) \<and>
     delivered t = received t"
proof -
  let ?e = "OtherError ''read: connection reset''" let ?b = "Some (upstreamBreakError ?e)"
  let ?t0 = "new_tunnel (TCPConn 0)" let ?t1 = "(copy_read 0 ''a'' (Some ?e) ?t0)\<lparr>heard := Some ?e\<rparr>"
  let ?t2 = "(copy_write 0 ''a'' (Some ?e) 1 None ?t1)\<lparr>refusal := failed_write WriteToClient ''a'' 1 None\<rparr>"
  let ?t3 = "(up_send 1 ?b ?t2)\<lparr>first_report := reported ToClient ?t2\<rparr>"
  let ?t4 = "up_arm 1 ?b ?t3" let ?t5 = "up_close 1 ?b ?t4"
  have br: "isUpstreamBreak ?b" by (simp add: isUpstreamBreak_def)
  note defs = relay_ops new_tunnel_def read_outcome_def close_client_def tcpConnOf_def may_read_def may_write_def
    socket_error_def failed_write_def reported_def
  have "relay_reach (TCPConn 0) ?t0" by (simp add: relay_reach_def)
  then have "relay_reach (TCPConn 0) ?t1"
    by (rule relay_reach_step) (rule relay_step.up_read; simp add: defs)
  then have "relay_reach (TCPConn 0) ?t2"
    by (rule relay_reach_step) (rule relay_step.up_write; simp add: defs)
  then have "relay_reach (TCPConn 0) ?t3"
    by (rule relay_reach_step) (rule relay_step.up_send; simp add: defs)
  then have "relay_reach (TCPConn 0) ?t4"
    by (rule relay_reach_step) (rule relay_step.up_arm; simp add: defs br)
  then have r: "relay_reach (TCPConn 0) ?t5"
    by (rule relay_reach_step) (rule relay_step.up_close; simp add: defs)
  have "client_end ?t5 = Some Reset" "delivered ?t5 = ''a''" by (simp_all add: defs)
  then show ?thesis using tunnel_close [OF r] r by blast
qed

text \<open>The upstream breaks while the request is being written, and the write fails before the read does:
  the caller closes both sockets, so the read ends as closed here and the reset is not armed. The client
  sees a clean end of a truncated response, and the record blames the client.\<close>

lemma broken_upload_ends_clean:
  "\<exists>t. relay_reach (TCPConn 0) t \<and> is_over (main_pc t) \<and> \<not> forced t \<and> \<not> base_done t \<and>
     forwarded t \<noteq> taken t \<and> client_end t = Some Fin \<and>
     map_option close_reason (recorded t) = Some ''client_aborted'' \<and> map_option at_warn (recorded t) = Some False"
proof -
  let ?e = "OtherError ''write: connection reset''" let ?x = "Some (upstreamBreakError ErrClosed)"
  let ?r = "to_upstream 0 (Some ?e)" let ?r' = "\<lparr>direction = ToClient, bytes = 0, err = ?x\<rparr>"
  let ?t0 = "new_tunnel (TCPConn 0)" let ?t1 = "(main_read 0 ''x'' None ?t0)\<lparr>asked := None\<rparr>"
  let ?t2 = "(main_write 0 ''x'' None 0 (Some ?e) ?t1)\<lparr>stall := failed_write (\<lambda>e. e) ''x'' 0 (Some ?e)\<rparr>"
  let ?t3 = "?t2\<lparr>closes := closes ?t2 @ [?r], main_pc := MCloseUp 0 ?e, first_report := reported ToUpstream ?t2\<rparr>"
  let ?t4 = "?t3\<lparr>upstream_closed := True, main_pc := MCloseClient 0 ?e\<rparr>"
  let ?t5 = "(close_client ?t4)\<lparr>main_pc := MFirst 0 ?e\<rparr>"
  let ?t6 = "(copy_read 0 [] (Some ErrClosed) ?t5)\<lparr>heard := Some ErrClosed\<rparr>"
  let ?t7 = "(up_send 0 ?x ?t6)\<lparr>first_report := reported ToClient ?t6\<rparr>"
  let ?t8 = "up_close 0 ?x ?t7" let ?t9 = "?t8\<lparr>closes := [?r'], main_pc := MSecond 0 ?e ?r\<rparr>"
  let ?t10 = "?t9\<lparr>closes := [], main_pc := MJoin 0 ?e ?r ?r'\<rparr>" let ?t11 = "relay_over 0 (Some ?e) ?r ?r' ?t10"
  have br: "\<not> isUpstreamBreak ?x" by (simp add: isUpstreamBreak_def)
  note defs = relay_ops new_tunnel_def read_outcome_def close_client_def may_read_def may_write_def
    socket_error_def failed_write_def reported_def br
  note more = relay_reach_step [of "TCPConn 0"]
  have "relay_reach (TCPConn 0) ?t0" by (simp add: relay_reach_def)
  then have "relay_reach (TCPConn 0) ?t1" by (rule more) (rule relay_step.main_read; simp add: defs)
  then have "relay_reach (TCPConn 0) ?t2" by (rule more) (rule relay_step.main_write; simp add: defs)
  then have "relay_reach (TCPConn 0) ?t3" by (rule more) (rule relay_step.main_send; simp add: defs)
  then have "relay_reach (TCPConn 0) ?t4" by (rule more) (rule relay_step.close_up; simp add: defs)
  then have "relay_reach (TCPConn 0) ?t5" by (rule more) (rule relay_step.close_cl; simp add: defs)
  then have "relay_reach (TCPConn 0) ?t6" by (rule more) (rule relay_step.up_read; simp add: defs)
  then have "relay_reach (TCPConn 0) ?t7" by (rule more) (rule relay_step.up_send; simp add: defs)
  then have "relay_reach (TCPConn 0) ?t8" by (rule more) (rule relay_step.up_close; simp add: defs)
  then have "relay_reach (TCPConn 0) ?t9" by (rule more) (rule relay_step.fst_result; simp add: defs)
  then have "relay_reach (TCPConn 0) ?t10" by (rule more) (rule relay_step.snd_result; simp add: defs)
  then have r: "relay_reach (TCPConn 0) ?t11" by (rule more) (rule relay_step.join; simp add: defs)
  have "is_over (main_pc ?t11)" "\<not> forced ?t11" "\<not> base_done ?t11" "forwarded ?t11 \<noteq> taken ?t11"
    "client_end ?t11 = Some Fin" "map_option close_reason (recorded ?t11) = Some ''client_aborted''"
    "map_option at_warn (recorded ?t11) = Some False"
    by (simp_all add: defs recordTunnelClose_def to_upstream_def)
  then show ?thesis using r by blast
qed

end
