(* ===== verification/Logging.thy ===== *)
theory Logging
  imports Serve
begin

text \<open>
  What the records of a request may carry (internal/proxyserver/logging.go): the target without its
  userinfo, the class of a failed dial, and its bounded text.
\<close>

section \<open>Values\<close>

definition dropUserinfo :: "string \<Rightarrow> string" where
  "dropUserinfo v = (if CHR ''@'' \<in> set v then after_last_at v else v)"

definition validPortNumber :: "string \<Rightarrow> bool" where
  "validPortNumber port = (case Atoi port of None \<Rightarrow> False | Some n \<Rightarrow> 1 \<le> n \<and> n \<le> 65535)"

definition cleanLogValue :: "string \<Rightarrow> string" where
  "cleanLogValue v = Sanitize_text v"

definition targetLogValue :: "string \<Rightarrow> string" where
  "targetLogValue t =
     (case net_SplitHostPort t of
        Inl _ \<Rightarrow> cleanLogValue (dropUserinfo t)
      | Inr (host, port) \<Rightarrow>
          if \<not> validPortNumber port then cleanLogValue (dropUserinfo t)
          else cleanLogValue (JoinHostPort (dropUserinfo host) port))"

definition upstreamLogValue :: "proxy option \<Rightarrow> string" where
  "upstreamLogValue p = (case p of None \<Rightarrow> ''none'' | Some x \<Rightarrow> cleanLogValue (url_Host (URL x)))"

section \<open>Errors\<close>

datatype error_kind =
    errorKindProxyConnect
  | errorKindAuthRoute
  | errorKindSocksConnect
  | errorKindConnectTarget
  | errorKindSetup

definition logErrorKind :: "dial_error \<Rightarrow> error_kind" where
  "logErrorKind e =
     (if IsDialError e then errorKindProxyConnect
      else if IsAuthError e then errorKindAuthRoute
      else if IsConnectTargetError e then errorKindConnectTarget
      else if IsHandshakeError e then errorKindSocksConnect
      else errorKindSetup)"

definition authErrorSafeText :: "string \<Rightarrow> string" where
  "authErrorSafeText reason =
     (if reason = ''endpoint requires credentials but none are configured''
      then ''endpoint requires credentials but none are configured''
      else if reason = ''endpoint rejected credentials'' then ''endpoint rejected credentials''
      else if reason = ''endpoint accepted no offered authentication method''
      then ''endpoint accepted no offered authentication method''
      else ''SOCKS authentication failed'')"

definition logErrorValue :: "dial_error option \<Rightarrow> string" where
  "logErrorValue err =
     (case err of
        None \<Rightarrow> []
      | Some (ProxyAuthError reason) \<Rightarrow> Sanitize_text (authErrorSafeText reason)
      | Some e \<Rightarrow> ErrorString (Some (dial_error_text e)))"

section \<open>No userinfo\<close>

lemma after_last_at_append: "CHR ''@'' \<notin> set s \<Longrightarrow> after_last_at (ui @ CHR ''@'' # s) = s"
  by (rule after_last_at_host)

lemma dropUserinfo_append: "CHR ''@'' \<notin> set s \<Longrightarrow> dropUserinfo (ui @ CHR ''@'' # s) = s"
  by (simp add: dropUserinfo_def after_last_at_append)

lemma dropUserinfo_no_at: "CHR ''@'' \<notin> set (dropUserinfo v)"
proof (cases "CHR ''@'' \<in> set v")
  case True
  have "x \<noteq> CHR ''@''" if "x \<in> set (takeWhile (\<lambda>c. c \<noteq> CHR ''@'') (rev v))" for x
    using set_takeWhileD [OF that] by simp
  with True show ?thesis by (auto simp: dropUserinfo_def after_last_at_def)
qed (simp add: dropUserinfo_def)

lemma redact_tokens_no_at: "CHR ''@'' \<notin> set s \<Longrightarrow> redact_tokens s = s"
proof (induction s rule: redact_tokens.induct)
  case (2 c s)
  let ?t = "takeWhile (\<lambda>x. \<not> isTokenBoundary x) (c # s)" and ?d = "dropWhile (\<lambda>x. \<not> isTokenBoundary x) (c # s)"
  show ?case
  proof (cases "isTokenBoundary c")
    case True
    then show ?thesis using 2 by (simp add: redact_tokens.simps(2))
  next
    case False
    have t: "CHR ''@'' \<notin> set ?t" and d: "CHR ''@'' \<notin> set ?d"
      using 2(3) set_takeWhileD [of _ _ "c # s"] set_dropWhileD [of _ _ "c # s"] by blast+
    have "CHR ''@'' \<notin> set rest" if "cut_scheme u = Some (a, rest)" and "CHR ''@'' \<notin> set u" for u a rest
      using that by (induction u arbitrary: a rest) (auto split: if_splits dest: in_set_dropD)
    then have "redactToken ?t = ?t" using t
      by (auto simp: redactToken_def bare_userinfo_def simp del: takeWhile.simps split: option.split)
    moreover have "redact_tokens ?d = ?d" using 2(2) [OF False] d by simp
    ultimately show ?thesis using False takeWhile_dropWhile_id [of "\<lambda>x. \<not> isTokenBoundary x" "c # s"]
      by (simp add: redact_tokens.simps(2) del: takeWhile.simps dropWhile.simps)
  qed
qed simp

lemma skip_csi_subset: "set (skip_csi s) \<subseteq> set s"
  by (induction s rule: skip_csi.induct) auto

lemma skip_osc_subset: "set (skip_osc s) \<subseteq> set s"
  by (induction s rule: skip_osc.induct) auto

lemma stripANSI_subset: "set (stripANSI s) \<subseteq> set s"
proof (induction s rule: stripANSI.induct)
  case (2 c s)
  show ?case
  proof (cases "c = ESC \<and> s \<noteq> []")
    case True
    then obtain d t where s: "s = d # t" by (cases s) auto
    have esc: "c = ESC" using True by simp
    consider "d = CHR ''[''" | "d = CHR '']''" | "d = CHR ''('' \<or> d = CHR '')'' \<or> d = CHR ''#''"
      | "d \<notin> set ''[]()#''" by auto
    then show ?thesis
    proof cases
      case 1
      then show ?thesis using 2(2) [OF _ s] esc s skip_csi_subset [of t] by auto
    next
      case d: 2
      then show ?thesis using 2(3) [OF _ s] esc s skip_osc_subset [of t] by auto
    next
      case 3
      then show ?thesis using 2(4) [OF _ s] esc s set_drop_subset [of 1 t] by auto
    next
      case 4
      then show ?thesis using 2(5) [OF _ s] esc s by auto
    qed
  next
    case False
    then show ?thesis using 2(1) by (cases "c = ESC") auto
  qed
qed simp

lemma clean_rune_chars: "c \<in> set (clean_rune r) \<Longrightarrow> c \<in> set r \<or> c = CHR '' ''"
  by (auto simp: clean_rune_def split: list.splits if_splits)

lemma cleanControls_chars: "c \<in> set (cleanControls s) \<Longrightarrow> c \<in> set s \<or> 128 \<le> ord c \<or> c = CHR '' ''"
proof -
  assume "c \<in> set (cleanControls s)"
  then obtain r where r: "r \<in> set (runes (stripANSI s))" "c \<in> set (clean_rune r)" by (auto simp: cleanControls_def)
  then show "c \<in> set s \<or> 128 \<le> ord c \<or> c = CHR '' ''"
    using clean_rune_chars [OF r(2)] rune_chars [OF r(1)] stripANSI_subset [of s] by blast
qed

lemma Sanitize_no_at:
  assumes "CHR ''@'' \<notin> set s"
  shows "CHR ''@'' \<notin> set (Sanitize_text s)"
proof -
  have "redactUserinfo s = s" using assms redact_tokens_no_at by (simp add: redactUserinfo_def)
  moreover have at: "\<not> 128 \<le> ord (CHR ''@'')" "CHR ''@'' \<noteq> CHR '' ''" by (simp_all add: ord_def)
  then have "CHR ''@'' \<notin> set (bound_text (cleanControls s))"
    using assms bound_chars [of "CHR ''@''" "cleanControls s"] cleanControls_chars [of "CHR ''@''" s] by blast
  ultimately show ?thesis using assms by (simp add: Sanitize_text_def)
qed

lemma valid_port_chars:
  assumes "validPortNumber port" and "c \<in> set port"
  shows "is_digit c \<or> c = CHR ''+'' \<or> c = CHR ''-''"
proof -
  have "list_all is_digit (if port \<noteq> [] \<and> (hd port = CHR ''-'' \<or> hd port = CHR ''+'') then tl port else port)"
    using assms(1) by (auto simp: validPortNumber_def Atoi_def Let_def split: option.splits if_splits)
  then show ?thesis using assms(2) by (cases port) (auto simp: list_all_iff split: if_splits)
qed

lemma valid_port_plain:
  assumes "validPortNumber port"
  shows "CHR '':'' \<notin> set port" "CHR ''['' \<notin> set port" "CHR '']'' \<notin> set port" "CHR ''@'' \<notin> set port"
proof -
  have "list_all (\<lambda>c. \<not> (is_digit c \<or> c = CHR ''+'' \<or> c = CHR ''-'')) '':[]@''" by code_simp
  then have marks: "\<not> (is_digit c \<or> c = CHR ''+'' \<or> c = CHR ''-'')" if "c \<in> set '':[]@''" for c
    using that by (auto simp only: list_all_iff)
  note no = valid_port_chars [OF assms]
  show "CHR '':'' \<notin> set port" using no [of "CHR '':''"] marks [of "CHR '':''"] by auto
  show "CHR ''['' \<notin> set port" using no [of "CHR ''[''"] marks [of "CHR ''[''"] by auto
  show "CHR '']'' \<notin> set port" using no [of "CHR '']''"] marks [of "CHR '']''"] by auto
  show "CHR ''@'' \<notin> set port" using no [of "CHR ''@''"] marks [of "CHR ''@''"] by auto
qed

lemma targetLogValue_no_at: "CHR ''@'' \<notin> set (targetLogValue t)"
proof -
  have "CHR ''@'' \<notin> set (JoinHostPort (dropUserinfo h) p)" if "validPortNumber p" for h p
    using dropUserinfo_no_at [of h] valid_port_plain(4) [OF that] by (auto simp: JoinHostPort_def)
  then show ?thesis using dropUserinfo_no_at [of t] Sanitize_no_at
    by (auto simp: targetLogValue_def cleanLogValue_def split: sum.split)
qed

text \<open>A target that splits, splits at its last colon; the host keeps the userinfo in front of it.\<close>

lemma split_with_userinfo:
  assumes "net_SplitHostPort (ui @ CHR ''@'' # h @ CHR '':'' # p) = Inr (host, port)"
    and h: "CHR ''['' \<notin> set h" "CHR '']'' \<notin> set h" and p: "CHR '':'' \<notin> set p"
  shows "host = ui @ CHR ''@'' # h \<and> port = p"
proof -
  let ?t = "ui @ CHR ''@'' # h @ CHR '':'' # p"
  have lc: "last_colon ?t = Some (ui @ CHR ''@'' # h, p)" using last_colon_Some [of ?t "ui @ CHR ''@'' # h" p] p by simp
  obtain a b closed where c: "Cut ?t (CHR '']'') = (a, b, closed)" by (cases "Cut ?t (CHR '']'')")
  have "\<not> (closed \<and> b = CHR '':'' # p)"
  proof
    assume "closed \<and> b = CHR '':'' # p"
    then have "?t = a @ CHR '']'' # CHR '':'' # p" using c Cut_found [of ?t "CHR '']''" a b] by simp
    then have "(ui @ [CHR ''@'']) @ h = a @ [CHR '']'']" by simp
    then show False using h by (cases h rule: rev_cases) auto
  qed
  then show ?thesis using assms(1)
    by (auto simp: net_SplitHostPort_def lc c Let_def split: if_splits)
qed

lemma targetLogValue_userinfo:
  assumes h: "CHR '':'' \<notin> set h" "CHR ''['' \<notin> set h" "CHR '']'' \<notin> set h" "CHR ''@'' \<notin> set h"
    and p: "validPortNumber p"
  shows "targetLogValue (ui @ CHR ''@'' # h @ CHR '':'' # p) = cleanLogValue (h @ CHR '':'' # p)"
proof -
  note pp = valid_port_plain [OF p]
  have drop: "dropUserinfo (ui @ CHR ''@'' # h @ CHR '':'' # p) = h @ CHR '':'' # p"
    using dropUserinfo_append [of "h @ CHR '':'' # p" ui] h pp by simp
  have dh: "dropUserinfo (ui @ CHR ''@'' # h) = h" using dropUserinfo_append [of h ui] h by simp
  show ?thesis
  proof (cases "net_SplitHostPort (ui @ CHR ''@'' # h @ CHR '':'' # p)")
    case (Inr hp)
    then have "hp = (ui @ CHR ''@'' # h, p)" using split_with_userinfo [of ui h p] h pp by (cases hp) simp
    then show ?thesis using Inr h dh by (simp add: targetLogValue_def p JoinHostPort_def)
  qed (simp add: targetLogValue_def drop)
qed

section \<open>What a record shows\<close>

definition plain_host :: "string \<Rightarrow> bool" where
  "plain_host h \<longleftrightarrow> list_all (\<lambda>c. c \<notin> set '':[]@'') h"



end
