(* ===== verification/Engine.thy ===== *)
theory Engine
  imports PoolReload Probe
begin

text \<open>
  The rotation engine (internal/rotation/engine.go): the scheduler that admits due manual
  routes and the procedure that rotates one of them.

  The maps of the engine are \<open>due\<close> and \<open>consec\<close> (partial functions) and \<open>active\<close>, an
  association list with distinct keys because the code reads its size. A procedure runs beside
  the scheduler, other procedures, request sessions and reloads. Its state is a \<open>world\<close>: the
  routes, the published generation, the engine and the clock. Between any two of its steps the
  others may act (\<open>gap\<close>): \<open>interfere\<close> is their effect and \<open>lag\<close> the time that passes. The
  remaining fields of \<open>rotate_env\<close> are what the procedure observes: whether its context is
  cancelled, the networks of the probe and of the provider, and the backoff jitter.
\<close>

section \<open>State\<close>

record engine =
  rotations :: u64
  ipRevisits :: u64
  due :: "string \<Rightarrow> instant option"
  active :: "(string \<times> pref) list"
  consec :: "string \<Rightarrow> int"

definition new_engine :: engine where
  "new_engine = \<lparr>rotations = 0, ipRevisits = 0, due = (\<lambda>_. None), active = [], consec = (\<lambda>_. 0)\<rparr>"

record world =
  mem :: heap
  live_gen :: generation
  eng :: engine
  wall :: instant
  tick :: nat

record rotate_env =
  cancelled :: "nat \<Rightarrow> bool"
  ctx_deadline :: "instant option"
  lag :: "nat \<Rightarrow> nat"
  interfere :: "nat \<Rightarrow> heap \<times> generation \<times> engine \<Rightarrow> heap \<times> generation \<times> engine"
  probe_at :: "nat \<Rightarrow> probe_net"
  api_at :: "nat \<Rightarrow> api_net"
  jitter_at :: "nat \<Rightarrow> duration \<Rightarrow> duration"

definition gap :: "rotate_env \<Rightarrow> world \<Rightarrow> world" where
  "gap env w =
     (let (h, g, e) = interfere env (tick w) (mem w, live_gen w, eng w)
      in \<lparr>mem = h, live_gen = g, eng = e, wall = wall w + int (lag env (tick w)), tick = tick w + 1\<rparr>)"

definition on_route :: "pref \<Rightarrow> (proxy \<Rightarrow> proxy) \<Rightarrow> world \<Rightarrow> world" where
  "on_route p f w = w\<lparr>mem := upd p f (mem w)\<rparr>"

definition on_engine :: "(engine \<Rightarrow> engine) \<Rightarrow> world \<Rightarrow> world" where
  "on_engine f w = w\<lparr>eng := f (eng w)\<rparr>"

definition ctx_err :: "rotate_env \<Rightarrow> world \<Rightarrow> bool" where
  "ctx_err env w \<longleftrightarrow> cancelled env (tick w)"

text \<open>\<^verbatim>\<open>sleepCtx\<close>: a cancellation during the sleep wins or loses the select, as the tick says.\<close>

definition sleepCtx :: "rotate_env \<Rightarrow> duration \<Rightarrow> world \<Rightarrow> bool \<times> world" where
  "sleepCtx env d w =
     (let w = gap env w in
      if ctx_err env w then (False, w)
      else (True, if d \<le> 0 then w else w\<lparr>wall := wall w + d\<rparr>))"

section \<open>Bookkeeping\<close>

definition engine_routeID :: "route_spec \<Rightarrow> string" where
  "engine_routeID s = CanonicalRouteID (spec_URL s) @ ''|'' @ kind_string (spec_Kind s)"

definition setDue :: "string \<Rightarrow> instant \<Rightarrow> engine \<Rightarrow> engine" where
  "setDue i at e = e\<lparr>due := (due e)(i \<mapsto> at)\<rparr>"

text \<open>A missing entry of a counter map reads as zero, so deleting it is setting it to zero.\<close>

definition bumpConsecutive :: "string \<Rightarrow> engine \<Rightarrow> int \<times> engine" where
  "bumpConsecutive i e = (let n = consec e i + 1 in (n, e\<lparr>consec := (consec e)(i := n)\<rparr>))"

definition clearConsecutive :: "string \<Rightarrow> engine \<Rightarrow> engine" where
  "clearConsecutive i e = e\<lparr>consec := (consec e)(i := 0)\<rparr>"

definition finishProcedure :: "string \<Rightarrow> pref \<Rightarrow> engine \<Rightarrow> engine" where
  "finishProcedure i p e =
     (if map_of (active e) i = Some p then e\<lparr>active := AList.delete i (active e)\<rparr> else e)"

fun abandon_all :: "pref list \<Rightarrow> heap \<Rightarrow> heap" where
  "abandon_all [] h = h"
| "abandon_all (p # ps) h = abandon_all ps (upd p AbandonRotation h)"

definition abortAll :: "engine \<Rightarrow> heap \<Rightarrow> engine \<times> heap" where
  "abortAll e h = (e\<lparr>active := []\<rparr>, abandon_all (map snd (active e)) h)"

section \<open>The scheduler\<close>

definition spec_id :: "manual_route_spec \<Rightarrow> string" where
  "spec_id s = engine_routeID (RouteSpec s)"

text \<open>Every current route is scheduled; one added by a reload is due at once.\<close>

fun schedule_new :: "instant \<Rightarrow> manual_route_spec list \<Rightarrow> engine \<Rightarrow> engine" where
  "schedule_new now [] e = e"
| "schedule_new now (s # ss) e =
     schedule_new now ss (if due e (spec_id s) = None then setDue (spec_id s) now e else e)"

text \<open>Entries of routes that are gone, and the slots of their procedures.\<close>

definition drop_gone :: "string set \<Rightarrow> engine \<Rightarrow> engine" where
  "drop_gone current e =
     e\<lparr>due := (\<lambda>i. if i \<in> current then due e i else None),
       consec := (\<lambda>i. if i \<notin> current \<and> due e i \<noteq> None then 0 else consec e i)\<rparr>"

definition drop_slots :: "string set \<Rightarrow> engine \<Rightarrow> heap \<Rightarrow> engine \<times> heap" where
  "drop_slots current e h =
     (e\<lparr>active := filter (\<lambda>(i, p). i \<in> current) (active e)\<rparr>,
      abandon_all (map snd (filter (\<lambda>(i, p). i \<notin> current) (active e))) h)"

text \<open>Admission in configuration order; the cap ends the scan. The result lists the started
  procedures.\<close>

fun admit ::
  "generation \<Rightarrow> heap \<Rightarrow> int \<Rightarrow> instant \<Rightarrow> manual_route_spec list \<Rightarrow> int \<Rightarrow> engine \<Rightarrow>
   engine \<times> (manual_route_spec \<times> pref) list" where
  "admit gen h cap now [] n e = (e, [])"
| "admit gen h cap now (s # ss) n e =
     (let i = spec_id s in
      if map_of (active e) i \<noteq> None then admit gen h cap now ss n e
      else (case due e i of
          None \<Rightarrow> admit gen h cap now ss n e
        | Some d \<Rightarrow>
            if now < d then admit gen h cap now ss n e
            else if cap \<le> n then (e, [])
            else (case Lookup (gen_Pool gen) h i of
                None \<Rightarrow> admit gen h cap now ss n e
              | Some p \<Rightarrow>
                  (let (e', started) = admit gen h cap now ss (n + 1) (e\<lparr>active := AList.update i p (active e)\<rparr>)
                   in (e', (s, p) # started)))))"

definition rotation_cap :: "generation \<Rightarrow> int" where
  "rotation_cap gen =
     ResolveMaxConcurrent (Rotation (gen_Config gen)) (int (length (ManualRoutes (gen_Config gen))))"

definition evaluate ::
  "generation \<Rightarrow> instant \<Rightarrow> engine \<Rightarrow> heap \<Rightarrow> (engine \<times> heap) \<times> (manual_route_spec \<times> pref) list" where
  "evaluate gen now e h =
     (let specs = ManualRoutes (gen_Config gen);
          current = set (map spec_id specs);
          e = drop_gone current (schedule_new now specs e);
          (e, h) = drop_slots current e h;
          (e, started) = admit gen h (rotation_cap gen) now specs (int (length (active e))) e
      in ((e, h), started))"

text \<open>\<^verbatim>\<open>Run\<close>: the first schedule; every reading of the clock is a gap.\<close>

fun boot_due :: "rotate_env \<Rightarrow> bool \<Rightarrow> manual_route_spec list \<Rightarrow> world \<Rightarrow> world" where
  "boot_due env on_start [] w = w"
| "boot_due env on_start (s # ss) w =
     (let w = gap env w; at = wall w + RotateInterval s;
          (at, w) = (if on_start then (let w = gap env w in (wall w, w)) else (at, w))
      in boot_due env on_start ss (on_engine (setDue (spec_id s) at) w))"

section \<open>The procedure\<close>

definition drainPoll :: duration where
  "drainPoll = 100 * millisecond"

definition baselineAttempts :: nat where
  "baselineAttempts = 3"

definition probeRetryPause :: duration where
  "probeRetryPause = second"

text \<open>\<^verbatim>\<open>gone\<close>: shutdown, or a reload removed or replaced the route.\<close>

definition gone :: "rotate_env \<Rightarrow> pref \<Rightarrow> world \<Rightarrow> bool" where
  "gone env p w \<longleftrightarrow> ctx_err env w \<or> \<not> Contains_route (gen_Pool (live_gen w)) (Some p)"

lemma wall_gap: "wall w \<le> wall (gap env w)"
  by (simp add: gap_def split: prod.split)

text \<open>The drain wait; the flag says that the procedure must stop.\<close>

function drain :: "rotate_env \<Rightarrow> pref \<Rightarrow> instant \<Rightarrow> world \<Rightarrow> bool \<times> world" where
  "drain env p until w =
     (let w = gap env w in
      if inFlight (cells (mem w) p) \<le> 0 then (False, w)
      else (let w = gap env w in
        if \<not> wall w < until then (False, w)
        else (let w = gap env w in
          if gone env p w then (True, w)
          else (let (ok, w) = sleepCtx env drainPoll w in
            if \<not> ok then (True, w) else drain env p until w))))"
  by pat_completeness auto

termination
proof (relation "measure (\<lambda>(env, p, until, w). nat (until - wall w))")
  show "wf (measure (\<lambda>(env, p, until, w). nat (until - wall w)))" by simp
next
  fix env :: rotate_env and p until w w1 w2 w3 ok w4 x
  assume a: "w1 = gap env w" "w2 = gap env w1" "\<not> \<not> wall w2 < until" "w3 = gap env w2"
    "x = sleepCtx env drainPoll w3" "(ok, w4) = x" "\<not> \<not> ok"
  have "wall w \<le> wall w1" "wall w1 \<le> wall w2" "wall w2 \<le> wall w3" "wall w3 \<le> wall (gap env w3)"
    using a(1,2,4) by (simp_all add: wall_gap)
  moreover have "wall w4 = wall (gap env w3) + drainPoll" "0 < drainPoll"
    using a(5,6,7) by (auto simp: sleepCtx_def Let_def drainPoll_def millisecond_def split: if_splits)
  ultimately show "((env, p, until, w4), env, p, until, w) \<in> measure (\<lambda>(env, p, until, w). nat (until - wall w))"
    using a(3) by simp
qed

declare drain.simps [simp del]

definition probe_now ::
  "rotate_env \<Rightarrow> generation \<Rightarrow> manual_route_spec \<Rightarrow> duration \<Rightarrow> world \<Rightarrow> (probe_error + string) \<times> world" where
  "probe_now env gen s timeout w =
     (let w' = gap env w in
      (probeIP (probe_at env (tick w)) (IPCheckURL (Rotation (gen_Config gen))) (spec_URL (RouteSpec s))
         (wall w) (ctx_deadline env) timeout, w'))"

fun baseline_attempts ::
  "nat \<Rightarrow> rotate_env \<Rightarrow> generation \<Rightarrow> manual_route_spec \<Rightarrow> duration \<Rightarrow> world \<Rightarrow> (string \<times> bool) \<times> world" where
  "baseline_attempts 0 env gen s timeout w = (([], False), w)"
| "baseline_attempts (Suc n) env gen s timeout w =
     (if ctx_err env w then (([], False), w)
      else (case probe_now env gen s timeout w of
          (Inr ip, w) \<Rightarrow> ((ip, True), w)
        | (Inl e, w) \<Rightarrow>
            if n = 0 then (([], False), w)
            else (let (ok, w) = sleepCtx env probeRetryPause w in
              if \<not> ok then (([], False), w) else baseline_attempts n env gen s timeout w)))"

definition baselineProbe ::
  "rotate_env \<Rightarrow> generation \<Rightarrow> manual_route_spec \<Rightarrow> duration \<Rightarrow> world \<Rightarrow> (string \<times> bool) \<times> world" where
  "baselineProbe env gen s timeout w = baseline_attempts baselineAttempts env gen s timeout w"

datatype commitOutcome = commitDone | commitAborted | commitLateCollision

text \<open>The bookkeeping after the pool accepted the address.\<close>

definition record_commit :: "rotate_env \<Rightarrow> manual_route_spec \<Rightarrow> pref \<Rightarrow> string \<Rightarrow> bool \<Rightarrow> world \<Rightarrow> world" where
  "record_commit env s p i revisit w =
     (let w = on_route p MarkRotated (gap env w);
          w = on_engine (clearConsecutive i) (gap env w);
          w = on_engine (\<lambda>e. e\<lparr>rotations := rotations e + 1\<rparr>) (gap env w);
          w = (if revisit then on_engine (\<lambda>e. e\<lparr>ipRevisits := ipRevisits e + 1\<rparr>) (gap env w) else w);
          w = gap env w
      in on_engine (setDue i (wall w + RotateInterval s)) w)"

definition commit_candidate ::
  "rotate_env \<Rightarrow> manual_route_spec \<Rightarrow> pref \<Rightarrow> string \<Rightarrow> string \<Rightarrow> world \<Rightarrow> commitOutcome \<times> world" where
  "commit_candidate env s p i ip w =
     (let w = gap env w in
      if gone env p w then (commitAborted, w)
      else
        (let w = gap env w; at = wall w;
             w = gap env w; pl = gen_Pool (live_gen w);
             w = gap env w in
         (case CommitRotation pl (Some (Some (live_gen w))) (Some p) ip at (mem w) of
            (Inl ErrRotationRouteGone, h) \<Rightarrow> (commitAborted, w\<lparr>mem := h\<rparr>)
          | (Inl ErrRotationCollision, h) \<Rightarrow> (commitLateCollision, w\<lparr>mem := h\<rparr>)
          | (Inr revisit, h) \<Rightarrow> (commitDone, record_commit env s p i revisit (w\<lparr>mem := h\<rparr>)))))"

text \<open>One round of the verify window: a decision, or another round.\<close>

definition verify_wait :: "rotate_env \<Rightarrow> rotation_settings \<Rightarrow> instant \<Rightarrow> nat \<Rightarrow> world \<Rightarrow> bool \<times> world" where
  "verify_wait env settings until attempt w =
     (if attempt = 0 then (True, w)
      else
        (let w = gap env w; remaining = sat64 (until - wall w);
             pause = (if remaining < IPCheckInterval settings then remaining else IPCheckInterval settings);
             (ok, w) = sleepCtx env pause w in
         if \<not> ok then (False, w)
         else (let w = gap env w in (wall w < until, w))))"

definition probe_budget :: "rotation_settings \<Rightarrow> instant \<Rightarrow> world \<Rightarrow> duration" where
  "probe_budget settings until w =
     (let d = sat64 (until - wall w)
      in if 0 < d \<and> d < IPCheckTimeout settings then d else IPCheckTimeout settings)"

definition verify_candidate ::
  "rotate_env \<Rightarrow> manual_route_spec \<Rightarrow> pref \<Rightarrow> string \<Rightarrow> string \<Rightarrow> bool \<Rightarrow> string \<Rightarrow> world \<Rightarrow> (bool + unit) \<times> world" where
  "verify_candidate env s p i baseline verified ip w =
     (if verified \<and> SameIP ip baseline then (Inr (), w)
      else (let w = gap env w in
        if \<not> verified \<and> SameIP ip (lastIP (cells (mem w) p)) then (Inr (), w)
        else (let w = gap env w in
          if CanonicalIP ip \<in> LastIPs (gen_Pool (live_gen w)) p (mem w) then (Inr (), w)
          else (case commit_candidate env s p i ip w of
              (commitDone, w) \<Rightarrow> (Inl True, w)
            | (commitAborted, w) \<Rightarrow> (Inl False, w)
            | (commitLateCollision, w) \<Rightarrow> (Inr (), w)))))"

definition verify_attempt ::
  "rotate_env \<Rightarrow> generation \<Rightarrow> manual_route_spec \<Rightarrow> pref \<Rightarrow> string \<Rightarrow> string \<Rightarrow> bool \<Rightarrow> rotation_settings \<Rightarrow>
   bool \<Rightarrow> instant \<Rightarrow> nat \<Rightarrow> world \<Rightarrow> (bool + unit) \<times> world" where
  "verify_attempt env gen s p i baseline verified settings apiFailed until attempt w =
     (if ctx_err env w then (Inl False, w)
      else if apiFailed \<and> 1 \<le> attempt then (Inl False, w)
      else (let (ok, w) = verify_wait env settings until attempt w in
        if \<not> ok then (Inl False, w)
        else (let w = gap env w in
          (case probe_now env gen s (probe_budget settings until w) w of
             (Inl e, w) \<Rightarrow> (Inr (), w)
           | (Inr ip, w) \<Rightarrow> verify_candidate env s p i baseline verified ip w))))"

text \<open>The window may only end by its clock, so the loop is a partial function: \<open>None\<close> is a
  window that never ends. \<open>verify_returns\<close> shows that it ends for a positive interval.\<close>

partial_function (option) verify_loop ::
  "rotate_env \<Rightarrow> generation \<Rightarrow> manual_route_spec \<Rightarrow> pref \<Rightarrow> string \<Rightarrow> string \<Rightarrow> bool \<Rightarrow> rotation_settings \<Rightarrow>
   bool \<Rightarrow> instant \<Rightarrow> nat \<Rightarrow> world \<Rightarrow> (bool \<times> world) option" where
  "verify_loop env gen s p i baseline verified settings apiFailed until attempt w =
     (case verify_attempt env gen s p i baseline verified settings apiFailed until attempt w of
        (Inl changed, w) \<Rightarrow> Some (changed, w)
      | (Inr _, w) \<Rightarrow> verify_loop env gen s p i baseline verified settings apiFailed until (attempt + 1) w)"

definition verify ::
  "rotate_env \<Rightarrow> generation \<Rightarrow> manual_route_spec \<Rightarrow> pref \<Rightarrow> string \<Rightarrow> string \<Rightarrow> bool \<Rightarrow> rotation_settings \<Rightarrow>
   bool \<Rightarrow> world \<Rightarrow> (bool \<times> world) option" where
  "verify env gen s p i baseline verified settings apiFailed w =
     (let w = gap env w
      in verify_loop env gen s p i baseline verified settings apiFailed
           (wall w + IPCheckTimeout settings) 0 w)"

definition stale_wait :: "duration \<Rightarrow> duration \<Rightarrow> duration \<Rightarrow> duration" where
  "stale_wait retryAfter backoff ceiling = min (max retryAfter backoff) ceiling"

text \<open>The end of an attempt that changed nothing.\<close>

definition rotate_failed ::
  "rotate_env \<Rightarrow> manual_route_spec \<Rightarrow> pref \<Rightarrow> string \<Rightarrow> rotation_settings \<Rightarrow> duration \<Rightarrow> world \<Rightarrow> world" where
  "rotate_failed env s p i settings retryAfter w =
     (let w = gap env w;
          (consecutive, e) = bumpConsecutive i (eng w);
          w = gap env (w\<lparr>eng := e\<rparr>);
          backoff = BackoffFor (jitter_at env (tick w)) (RotateInterval s) consecutive (RetryBackoffMax settings);
          backoff = stale_wait retryAfter backoff (RetryBackoffMax settings);
          w = gap env w; pl = gen_Pool (live_gen w);
          w = gap env w; w = w\<lparr>mem := MarkStale pl p backoff consecutive (mem w)\<rparr>;
          w = gap env w
      in on_engine (setDue i (wall w + backoff)) w)"

text \<open>The result flag of \<open>rotate\<close> is the source's: the procedure aborted without a terminal
  state. \<open>rotate_verify\<close> is its part from the verifying phase on, with the observed baseline
  and the answer of the provider.\<close>

definition rotate_verify ::
  "rotate_env \<Rightarrow> generation \<Rightarrow> manual_route_spec \<Rightarrow> pref \<Rightarrow> string \<Rightarrow> string \<Rightarrow> bool \<Rightarrow> duration \<Rightarrow> bool \<Rightarrow> world \<Rightarrow>
   (bool \<times> world) option" where
  "rotate_verify env gen s p i baseline verified retryAfter apiFailed w =
     (let settings = Rotation (gen_Config gen) in
      case verify env gen s p i baseline verified settings apiFailed
             (on_route p (SetRotationPhase RotationVerifying) w) of
        None \<Rightarrow> None
      | Some (changed, w) \<Rightarrow>
          (let w = gap env w in
           if gone env p w then Some (True, w)
           else if changed then Some (False, w)
           else Some (False, rotate_failed env s p i settings retryAfter w)))"

definition rotate ::
  "rotate_env \<Rightarrow> generation \<Rightarrow> manual_route_spec \<Rightarrow> pref \<Rightarrow> string \<Rightarrow> world \<Rightarrow> (bool \<times> world) option" where
  "rotate env gen s p i w =
     (let settings = Rotation (gen_Config gen);
          w = gap env (on_route p (BeginRotation RotationDraining) w);
          (stop, w) = drain env p (wall w + DrainTimeout settings) w in
      if stop then Some (True, w)
      else (let w = gap env w in
        if gone env p w then Some (True, w)
        else (let w = gap env (on_route p (SetRotationPhase RotationRotating) w);
                  ((baseline, verified), w) = baselineProbe env gen s (IPCheckTimeout settings) w;
                  w = gap env w in
          if gone env p w then Some (True, w)
          else (let (retryAfter, apiErr) = callRotateAPI (api_at env (tick w)) (API s);
                    w = gap env w in
            if gone env p w then Some (True, w)
            else rotate_verify env gen s p i baseline verified retryAfter (apiErr \<noteq> None) w))))"

definition runProcedure ::
  "rotate_env \<Rightarrow> generation \<Rightarrow> manual_route_spec \<Rightarrow> pref \<Rightarrow> string \<Rightarrow> world \<Rightarrow> world option" where
  "runProcedure env gen s p i w =
     (let w = gap env w in
      if gone env p w then Some (on_engine (finishProcedure i p) w)
      else (case rotate env gen s p i w of
          None \<Rightarrow> None
        | Some (aborted, w) \<Rightarrow>
            (let w = (if aborted then on_route p AbandonRotation (gap env w) else w)
             in Some (on_engine (finishProcedure i p) (gap env w)))))"

text \<open>The boot precheck: two probes per route; a baseline is set only while none is known.\<close>

fun bootPrecheck :: "rotate_env \<Rightarrow> generation \<Rightarrow> manual_route_spec list \<Rightarrow> world \<Rightarrow> world" where
  "bootPrecheck env gen [] w = w"
| "bootPrecheck env gen (s # ss) w =
     (let w = gap env w in
      if ctx_err env w then w
      else (case Lookup (gen_Pool gen) (mem w) (spec_id s) of
          None \<Rightarrow> bootPrecheck env gen ss w
        | Some p \<Rightarrow>
            (let w = gap env w in
             if \<not> Contains_route (gen_Pool (live_gen w)) (Some p) then bootPrecheck env gen ss w
             else (let ((first, ok), w) =
                     baselineProbe env gen s (IPCheckTimeout (Rotation (gen_Config gen))) w in
               if \<not> ok then bootPrecheck env gen ss w
               else (let ((probed, ok), w) =
                       baselineProbe env gen s (IPCheckTimeout (Rotation (gen_Config gen))) w
                     in bootPrecheck env gen ss
                          (on_route p (SetBaselineIP (if ok then probed else first)) w))))))"

end
