(* ===== verification/EngineInv.thy ===== *)
theory EngineInv
  imports Engine
begin

text \<open>
  What a rotation procedure promises, whatever runs beside it: it ends, it returns its route to
  service and its slot to the scheduler, and it leaves one of three outcomes: a committed
  rotation, a recorded failure, or nothing. The rest of the program is constrained only by what
  its own operations keep (\<open>never_begins\<close>, \<open>quiet\<close>); it may reload the configuration, serve
  requests and rotate other routes between any two steps.
\<close>

section \<open>Time\<close>

definition later :: "world \<Rightarrow> world \<Rightarrow> bool" where
  "later w w' \<longleftrightarrow> wall w \<le> wall w' \<and> tick w \<le> tick w'"

lemma later_refl [simp]: "later w w"
  by (simp add: later_def)

lemma later_trans [trans]: "later a b \<Longrightarrow> later b c \<Longrightarrow> later a c"
  by (simp add: later_def)

lemma later_gap [simp]: "later w (gap env w)"
  by (simp add: later_def gap_def split: prod.split)

lemma later_upd [simp]: "later w (on_route p f w')  = later w w'" "later w (on_engine g w') = later w w'"
  "later (on_route p f w) w' = later w w'" "later w (w'\<lparr>mem := h\<rparr>) = later w w'"
  "later w (w'\<lparr>eng := e\<rparr>) = later w w'" "later (w\<lparr>mem := h\<rparr>) w' = later w w'"
  "later (on_engine g w) w' = later w w'" "later (w\<lparr>eng := e\<rparr>) w' = later w w'"
  by (simp_all add: later_def on_route_def on_engine_def)

lemma later_gapD: "later w w' \<Longrightarrow> later w (gap env w')"
  using later_trans later_gap by blast

lemma later_sleep: "sleepCtx env d w = (ok, w') \<Longrightarrow> later w w' \<and> (ok \<longrightarrow> wall w + d \<le> wall w')"
  by (auto simp: sleepCtx_def Let_def later_def gap_def split: if_splits prod.splits)

section \<open>A property every step keeps\<close>

text \<open>
  A relation between worlds that is a preorder and holds across a gap and across a sleep holds
  across every phase of the procedure but the commit and the recording of a failure.
\<close>

definition idle_closed :: "rotate_env \<Rightarrow> (world \<Rightarrow> world \<Rightarrow> bool) \<Rightarrow> bool" where
  "idle_closed env R \<longleftrightarrow>
     (\<forall>w. R w w) \<and> (\<forall>a b c. R a b \<longrightarrow> R b c \<longrightarrow> R a c) \<and> (\<forall>w. R w (gap env w)) \<and>
     (\<forall>w d. 0 \<le> d \<longrightarrow> R w (w\<lparr>wall := wall w + d\<rparr>))"

lemma idle_refl: "idle_closed env R \<Longrightarrow> R w w"
  and idle_trans: "idle_closed env R \<Longrightarrow> R a b \<Longrightarrow> R b c \<Longrightarrow> R a c"
  and idle_gap: "idle_closed env R \<Longrightarrow> R w (gap env w)"
  and idle_time: "idle_closed env R \<Longrightarrow> 0 \<le> d \<Longrightarrow> R w (w\<lparr>wall := wall w + d\<rparr>)"
  by (auto simp: idle_closed_def)

lemma idle_gapD: "idle_closed env R \<Longrightarrow> R w w' \<Longrightarrow> R w (gap env w')"
  by (rule idle_trans [OF _ _ idle_gap])

lemma sleep_cases:
  assumes "sleepCtx env d w = (ok, w')"
  shows "w' = gap env w \<or> ok \<and> 0 < d \<and> w' = (gap env w)\<lparr>wall := wall (gap env w) + d\<rparr>"
  using assms by (cases "ctx_err env (gap env w)"; cases "d \<le> 0") (auto simp: sleepCtx_def Let_def)

lemma idle_sleep:
  assumes i: "idle_closed env R" and s: "sleepCtx env d w = (ok, w')"
  shows "R w w'"
  using sleep_cases [OF s]
proof
  assume "w' = gap env w"
  then show ?thesis using idle_gap [OF i] by simp
next
  assume a: "ok \<and> 0 < d \<and> w' = (gap env w)\<lparr>wall := wall (gap env w) + d\<rparr>"
  then have "R (gap env w) w'" using idle_time [OF i, of d] by simp
  then show ?thesis by (rule idle_trans [OF i idle_gap [OF i]])
qed

lemma idle_drain: "idle_closed env R \<Longrightarrow> drain env p until w = (stop, w') \<Longrightarrow> R w w'"
proof (induction env p until w arbitrary: stop w' rule: drain.induct)
  case (1 env p until w)
  let ?w1 = "gap env w" let ?w2 = "gap env ?w1" let ?w3 = "gap env ?w2"
  have g: "R w ?w1" "R w ?w2" "R w ?w3" using idle_gap [OF 1(2)] idle_gapD [OF 1(2)] by auto
  show ?case
  proof (cases "inFlight (cells (mem ?w1) p) \<le> 0 \<or> \<not> wall ?w2 < until \<or> gone env p ?w3")
    case True
    then have "w' = ?w1 \<or> w' = ?w2 \<or> w' = ?w3"
      using 1(3) by (subst (asm) drain.simps) (auto simp: Let_def split: if_splits)
    with g show ?thesis by auto
  next
    case False
    obtain ok w4 where s: "sleepCtx env drainPoll ?w3 = (ok, w4)" by fastforce
    have r4: "R w w4" using idle_trans [OF 1(2) g(3) idle_sleep [OF 1(2) s]] .
    show ?thesis
    proof (cases ok)
      case True
      then have "drain env p until w4 = (stop, w')"
        using 1(3) False s by (subst (asm) drain.simps) (simp add: Let_def)
      from 1(1) [OF refl _ refl _ refl _ s [symmetric] refl _ 1(2) this] False True
      have "R w4 w'" by simp
      with r4 show ?thesis using idle_trans [OF 1(2)] by blast
    next
      case F: False
      then have "w' = w4" using 1(3) False s by (subst (asm) drain.simps) (simp add: Let_def)
      with r4 show ?thesis by simp
    qed
  qed
qed

lemma idle_probe: "idle_closed env R \<Longrightarrow> probe_now env gen s d w = (r, w') \<Longrightarrow> R w w'"
  using idle_gap by (auto simp: probe_now_def)

lemma idle_baseline: "idle_closed env R \<Longrightarrow> baseline_attempts n env gen s d w = (r, w') \<Longrightarrow> R w w'"
proof (induction n arbitrary: w)
  case 0
  then show ?case using idle_refl by auto
next
  case (Suc n)
  obtain res w1 where p: "probe_now env gen s d w = (res, w1)" by fastforce
  note r1 = idle_probe [OF Suc(2) p]
  obtain ok w2 where sl: "sleepCtx env probeRetryPause w1 = (ok, w2)" by fastforce
  have r2: "R w w2" using idle_trans [OF Suc(2) r1 idle_sleep [OF Suc(2) sl]] .
  show ?case
  proof (cases "ctx_err env w \<or> (\<exists>ip. res = Inr ip) \<or> n = 0 \<or> \<not> ok")
    case True
    then have "w' = w \<or> w' = w1 \<or> w' = w2"
      using Suc(3) p sl by (auto split: if_splits sum.splits)
    with r1 r2 show ?thesis using idle_refl [OF Suc(2)] by auto
  next
    case False
    then have "baseline_attempts n env gen s d w2 = (r, w')"
      using Suc(3) p sl by (auto split: if_splits sum.splits)
    from Suc(1) [OF Suc(2) this] r2 show ?thesis using idle_trans [OF Suc(2)] by blast
  qed
qed

lemma idle_wait: "idle_closed env R \<Longrightarrow> verify_wait env settings until n w = (ok, w') \<Longrightarrow> R w w'"
proof -
  assume i: "idle_closed env R" and v: "verify_wait env settings until n w = (ok, w')"
  show ?thesis
  proof (cases "n = 0")
    case True
    with v show ?thesis using idle_refl [OF i] by (simp add: verify_wait_def)
  next
    case False
    let ?w = "gap env w"
    define pause where "pause = (if sat64 (until - wall ?w) < IPCheckInterval settings
      then sat64 (until - wall ?w) else IPCheckInterval settings)"
    obtain b w1 where s: "sleepCtx env pause ?w = (b, w1)" by fastforce
    have "R w w1" using idle_trans [OF i idle_gap [OF i] idle_sleep [OF i s]] .
    moreover have "w' = w1 \<or> w' = gap env w1"
      using v False s by (auto simp: verify_wait_def Let_def pause_def split: if_splits prod.splits)
    ultimately show ?thesis using idle_gapD [OF i] by blast
  qed
qed

section \<open>The verify window ends\<close>

lemma later_idle: "idle_closed env later"
  by (auto simp: idle_closed_def intro: later_trans) (simp add: later_def)

lemma wait_strict:
  assumes v: "verify_wait env settings until n w = (True, w')" and n: "0 < n"
    and pos: "0 < IPCheckInterval settings"
  shows "wall w < wall w' \<and> wall w < until"
proof -
  let ?w = "gap env w"
  define pause where "pause = (if sat64 (until - wall ?w) < IPCheckInterval settings
    then sat64 (until - wall ?w) else IPCheckInterval settings)"
  obtain b w1 where s: "sleepCtx env pause ?w = (b, w1)" by fastforce
  from v n s have ok: b "w' = gap env w1" "wall w' < until"
    by (auto simp: verify_wait_def Let_def pause_def split: if_splits prod.splits)
  have w: "wall w \<le> wall ?w" "wall ?w \<le> wall w1" "wall w1 \<le> wall w'"
    using later_sleep [OF s] wall_gap ok(2) by (auto simp: later_def)
  have "0 < pause"
  proof (rule ccontr)
    assume "\<not> 0 < pause"
    with pos have "sat64 (until - wall ?w) \<le> 0" by (simp add: pause_def split: if_splits)
    then have "until \<le> wall ?w" by (auto simp: sat64_def min_int64_def max_int64_def split: if_splits)
    with w ok(3) show False by simp
  qed
  moreover have "wall ?w + pause \<le> wall w1" using later_sleep [OF s] ok(1) by simp
  ultimately show ?thesis using w ok(3) by simp
qed

lemma record_later: "later w (record_commit env s p i rv w)"
  by (auto simp: record_commit_def Let_def intro!: later_gapD)

text \<open>A commit either leaves the world as three or four gaps leave it, or records.\<close>

lemma commit_cases:
  assumes c: "commit_candidate env s p i ip w = (c, w')"
  shows "(c \<noteq> commitDone \<and> (w' = gap env w \<or> w' = gap env (gap env (gap env (gap env w))))) \<or>
    (\<exists>w1 at. c = commitDone \<and> w1 = gap env (gap env (gap env (gap env w))) \<and> wall w \<le> at \<and> at \<le> wall w1 \<and>
       w' = record_commit env s p i (snd (EndRotation ip at (cells (mem w1) p)))
              (on_route p (\<lambda>x. fst (EndRotation ip at x)) w1))"
proof -
  let ?w2 = "gap env (gap env w)" let ?w4 = "gap env (gap env ?w2)"
  have t: "wall w \<le> wall ?w2" "wall ?w2 \<le> wall ?w4"
    using wall_gap [of w env] wall_gap [of "gap env w" env] wall_gap [of ?w2 env] wall_gap [of "gap env ?w2" env]
    by linarith+
  have same: "?w4\<lparr>mem := mem ?w4\<rparr> = ?w4" by simp
  show ?thesis
    using c t
    by (auto simp: commit_candidate_def Let_def CommitRotation_cases on_route_def upd_def
        split: if_splits)
qed

lemma commit_later: "commit_candidate env s p i ip w = (c, w') \<Longrightarrow> later w w'"
proof -
  assume c: "commit_candidate env s p i ip w = (c, w')"
  let ?w4 = "gap env (gap env (gap env (gap env w)))"
  have l4: "later w ?w4" by (intro later_gapD) simp
  have "later w (record_commit env s p i rv (on_route p f ?w4))" for rv f
    using l4 record_later [of "on_route p f ?w4"] by (auto intro: later_trans)
  with commit_cases [OF c] l4 show ?thesis by auto
qed

text \<open>The shape of one round: nothing was committed, or a candidate that passed the screens was.\<close>

definition screened ::
  "rotate_env \<Rightarrow> (world \<Rightarrow> world \<Rightarrow> bool) \<Rightarrow> generation \<Rightarrow> manual_route_spec \<Rightarrow> pref \<Rightarrow> string \<Rightarrow> bool \<Rightarrow>
   world \<Rightarrow> string \<Rightarrow> world \<Rightarrow> bool" where
  "screened env R gen s p baseline verified w ip w1 \<longleftrightarrow>
     (\<exists>wa d wb. R w wa \<and> fst (probe_now env gen s d wa) = Inr ip \<and> R (gap env wa) wb \<and> R wb w1 \<and>
        (if verified then \<not> SameIP ip baseline else \<not> SameIP ip (lastIP (cells (mem wb) p))))"

definition verdict :: "commitOutcome \<Rightarrow> bool + unit" where
  "verdict c = (case c of commitDone \<Rightarrow> Inl True | commitAborted \<Rightarrow> Inl False | commitLateCollision \<Rightarrow> Inr ())"

lemma probe_now_gap: "probe_now env gen s d w = (r, w') \<Longrightarrow> w' = gap env w \<and> fst (probe_now env gen s d w) = r"
  by (auto simp: probe_now_def Let_def)

lemma verify_candidate_cases:
  assumes v: "verify_candidate env s p rid baseline verified ip w = (res, w')"
  shows "(res = Inr () \<and> (w' = w \<or> w' = gap env w \<or> w' = gap env (gap env w))) \<or>
    (\<exists>c. commit_candidate env s p rid ip (gap env (gap env w)) = (c, w') \<and> res = verdict c \<and>
       (if verified then \<not> SameIP ip baseline else \<not> SameIP ip (lastIP (cells (mem (gap env w)) p))))"
proof -
  obtain c wc where c: "commit_candidate env s p rid ip (gap env (gap env w)) = (c, wc)" by fastforce
  show ?thesis using v c by (cases c) (auto simp: verify_candidate_def Let_def verdict_def split: if_splits)
qed

lemma verify_attempt_cases:
  assumes i: "idle_closed env R"
    and v: "verify_attempt env gen s p rid baseline verified settings apiFailed until n w = (res, w')"
  shows "(res \<noteq> Inl True \<and> R w w') \<or>
    (\<exists>ip w1 c. screened env R gen s p baseline verified w ip w1 \<and>
       commit_candidate env s p rid ip w1 = (c, w') \<and> res = verdict c)"
proof -
  obtain ok wv where wait: "verify_wait env settings until n w = (ok, wv)" by fastforce
  note rv = idle_wait [OF i wait]
  let ?wg = "gap env wv"
  obtain r wp where pr: "probe_now env gen s (probe_budget settings until ?wg) ?wg = (r, wp)" by fastforce
  note pg = probe_now_gap [OF pr]
  have rg: "R w ?wg" using idle_gapD [OF i rv] .
  have rp: "R w wp" using idle_gapD [OF i rg] pg by simp
  show ?thesis
  proof (cases "ctx_err env w \<or> (apiFailed \<and> 1 \<le> n) \<or> \<not> ok")
    case True
    then have "res = Inl False \<and> (w' = w \<or> w' = wv)"
      using v wait by (auto simp: verify_attempt_def split: if_splits)
    then show ?thesis using idle_refl [OF i] rv by auto
  next
    case F1: False
    show ?thesis
    proof (cases r)
      case (Inl e)
      then have "res = Inr () \<and> w' = wp"
        using v F1 wait pr by (auto simp: verify_attempt_def Let_def split: if_splits)
      with rp show ?thesis by simp
    next
      case (Inr ip)
      then have "verify_candidate env s p rid baseline verified ip wp = (res, w')"
        using v F1 wait pr by (auto simp: verify_attempt_def Let_def split: if_splits)
      from verify_candidate_cases [OF this] show ?thesis
      proof
        assume "res = Inr () \<and> (w' = wp \<or> w' = gap env wp \<or> w' = gap env (gap env wp))"
        then show ?thesis using rp idle_gapD [OF i rp] idle_gapD [OF i idle_gapD [OF i rp]] by auto
      next
        assume "\<exists>c. commit_candidate env s p rid ip (gap env (gap env wp)) = (c, w') \<and> res = verdict c \<and>
          (if verified then \<not> SameIP ip baseline else \<not> SameIP ip (lastIP (cells (mem (gap env wp)) p)))"
        moreover from this have "screened env R gen s p baseline verified w ip (gap env (gap env wp))"
          unfolding screened_def using rg pg Inr idle_gap [OF i] by blast
        ultimately show ?thesis by blast
      qed
    qed
  qed
qed

lemma verify_candidate_later: "verify_candidate env s p rid baseline verified ip w = (res, w') \<Longrightarrow> later w w'"
  using verify_candidate_cases [of env s p rid baseline verified ip w res w']
  by (auto dest!: commit_later intro: later_gapD later_trans later_gap)

lemma verify_attempt_advance:
  assumes v: "verify_attempt env gen s p rid baseline verified settings apiFailed until n w = (Inr (), w')"
    and pos: "0 < IPCheckInterval settings"
  shows "wall w \<le> wall w' \<and> (0 < n \<longrightarrow> wall w < wall w' \<and> wall w < until)"
proof -
  obtain ok wv where wait: "verify_wait env settings until n w = (ok, wv)" by fastforce
  from v wait have ok: "ok" by (auto simp: verify_attempt_def split: if_splits)
  obtain r wp where pr: "probe_now env gen s (probe_budget settings until (gap env wv)) (gap env wv) = (r, wp)" by fastforce
  have "later wv wp" using probe_now_gap [OF pr] by (simp add: later_gapD)
  moreover have "wp = w' \<or> (\<exists>ip. verify_candidate env s p rid baseline verified ip wp = (Inr (), w'))"
    using v wait pr ok by (auto simp: verify_attempt_def Let_def split: if_splits sum.splits)
  ultimately have "later wv w'" using verify_candidate_later later_trans by blast
  with wait_strict [OF wait [unfolded eqTrueI [OF ok]] _ pos] idle_wait [OF later_idle wait] show ?thesis
    by (auto simp: later_def)
qed

text \<open>The loop rule: the window ends, and what every undecided round keeps holds in the round
  that decides.\<close>

lemma verify_rule:
  assumes pos: "0 < IPCheckInterval settings"
    and step: "\<And>n w w'. P w \<Longrightarrow>
      verify_attempt env gen s p rid baseline verified settings apiFailed until n w = (Inr (), w') \<Longrightarrow> P w'"
    and P: "P w"
  shows "\<exists>b w' n w1. verify_loop env gen s p rid baseline verified settings apiFailed until k w = Some (b, w') \<and>
    P w1 \<and> verify_attempt env gen s p rid baseline verified settings apiFailed until n w1 = (Inl b, w')"
  using P
proof (induction "nat (until - wall w) + (if k = 0 then 1 else 0)" arbitrary: k w rule: less_induct)
  case less
  obtain r w2 where a: "verify_attempt env gen s p rid baseline verified settings apiFailed until k w = (r, w2)"
    by fastforce
  show ?case
  proof (cases r)
    case (Inl b)
    then have "verify_loop env gen s p rid baseline verified settings apiFailed until k w = Some (b, w2)"
      using a by (subst verify_loop.simps) simp
    then show ?thesis using a Inl less.prems by blast
  next
    case (Inr u)
    then have a': "verify_attempt env gen s p rid baseline verified settings apiFailed until k w = (Inr (), w2)"
      using a by simp
    note adv = verify_attempt_advance [OF a' pos]
    have "nat (until - wall w2) + (if k + 1 = 0 then 1 else 0) < nat (until - wall w) + (if k = 0 then 1 else 0)"
      using adv by auto
    from less.hyps [OF this step [OF less.prems a']] a' show ?thesis
      by (subst verify_loop.simps) simp
  qed
qed

end
