(* ===== verification/Rotate.thy ===== *)
theory Rotate
  imports EngineInv
begin

text \<open>
  The outcomes of a rotation procedure. \<open>runProcedure_returns\<close> needs nothing of the rest of the
  program but that it does not begin rotations of this route; \<open>runProcedure_outcome\<close> says
  exactly what was recorded when nothing else rotates or abandons this route meanwhile, while
  sessions, reloads and rotations of other routes go on.
\<close>

section \<open>The shape of a procedure\<close>

text \<open>The step that records an accepted address, from the world the pool accepted it in.\<close>

definition committed_from ::
  "rotate_env \<Rightarrow> manual_route_spec \<Rightarrow> pref \<Rightarrow> string \<Rightarrow> string \<Rightarrow> world \<Rightarrow> world \<Rightarrow> bool" where
  "committed_from env s p i ip w w' \<longleftrightarrow>
     (\<exists>at w1. w1 = gap env (gap env (gap env (gap env w))) \<and> wall w \<le> at \<and> at \<le> wall w1 \<and>
        w' = record_commit env s p i (snd (EndRotation ip at (cells (mem w1) p)))
               (on_route p (\<lambda>x. fst (EndRotation ip at x)) w1))"

lemma verdict_simps [simp]:
  "verdict c = Inl True \<longleftrightarrow> c = commitDone" "verdict c = Inl False \<longleftrightarrow> c = commitAborted"
  "verdict c = Inr () \<longleftrightarrow> c = commitLateCollision"
  by (cases c; simp add: verdict_def)+

lemma screened_mem: "idle_closed env R \<Longrightarrow> screened env R gen s p baseline verified w ip w1 \<Longrightarrow> R w w1"
proof -
  assume i: "idle_closed env R" and "screened env R gen s p baseline verified w ip w1"
  then obtain wa wb where "R w wa" "R (gap env wa) wb" "R wb w1" by (auto simp: screened_def)
  then show ?thesis using idle_trans [OF i] idle_gap [OF i] by blast
qed

lemma attempt_kept:
  assumes i: "idle_closed env R"
    and v: "verify_attempt env gen s p rid baseline verified settings apiFailed until n w = (res, w')"
    and res: "res \<noteq> Inl True"
  shows "R w w'"
  using verify_attempt_cases [OF i v]
proof
  assume "\<exists>ip w1 c. screened env R gen s p baseline verified w ip w1 \<and>
    commit_candidate env s p rid ip w1 = (c, w') \<and> res = verdict c"
  then obtain ip w1 c where c: "R w w1" "commit_candidate env s p rid ip w1 = (c, w')" "c \<noteq> commitDone"
    using screened_mem [OF i] res by (metis verdict_simps(1))
  from commit_cases [OF c(2)] c(3)
  have "w' = gap env w1 \<or> w' = gap env (gap env (gap env (gap env w1)))" by blast
  then show ?thesis using c(1) idle_gapD [OF i] by blast
qed simp

lemma verify_outcome:
  assumes i: "idle_closed env R" and pos: "0 < IPCheckInterval settings"
  shows "\<exists>b w'. verify env gen s p rid baseline verified settings apiFailed w = Some (b, w') \<and>
    (if b then \<exists>w0 ip w1. R w w0 \<and> screened env R gen s p baseline verified w0 ip w1 \<and>
                 committed_from env s p rid ip w1 w'
     else R w w')"
proof -
  let ?u = "wall (gap env w) + IPCheckTimeout settings"
  have "\<exists>b w' n w0. verify_loop env gen s p rid baseline verified settings apiFailed ?u 0 (gap env w) = Some (b, w') \<and>
      R w w0 \<and> verify_attempt env gen s p rid baseline verified settings apiFailed ?u n w0 = (Inl b, w')"
  proof (rule verify_rule [OF pos])
    show "R w w2" if "R w w1"
      "verify_attempt env gen s p rid baseline verified settings apiFailed ?u n w1 = (Inr (), w2)" for n w1 w2
      using attempt_kept [OF i that(2)] idle_trans [OF i that(1)] by simp
    show "R w (gap env w)" by (rule idle_gap [OF i])
  qed
  then obtain b w' n w0
    where l: "verify_loop env gen s p rid baseline verified settings apiFailed ?u 0 (gap env w) = Some (b, w')"
      and r: "R w w0"
      and a: "verify_attempt env gen s p rid baseline verified settings apiFailed ?u n w0 = (Inl b, w')" by blast
  have v: "verify env gen s p rid baseline verified settings apiFailed w = Some (b, w')"
    using l by (simp add: verify_def Let_def)
  show ?thesis
  proof (cases b)
    case False
    then have "R w0 w'" using attempt_kept [OF i a] by simp
    then show ?thesis using v False idle_trans [OF i r] by auto
  next
    case True
    then obtain ip w1 where s: "screened env R gen s p baseline verified w0 ip w1"
      "commit_candidate env s p rid ip w1 = (commitDone, w')"
      using verify_attempt_cases [OF i a] by (auto simp: eq_commute [of "Inl True"])
    have "committed_from env s p rid ip w1 w'"
      using commit_cases [OF s(2)] by (auto simp: committed_from_def)
    with v r s(1) True show ?thesis by auto
  qed
qed

text \<open>The stages of \<open>rotate\<close>: the phases it went through and how it left the last one. \<open>wr\<close>
  and \<open>wv\<close> are the worlds in which the rotating and the verifying phase begin.\<close>

definition begun :: "pref \<Rightarrow> world \<Rightarrow> world" where
  "begun p w = on_route p (BeginRotation RotationDraining) w"

definition phased :: "pref \<Rightarrow> rotation_state \<Rightarrow> world \<Rightarrow> world" where
  "phased p st w = on_route p (SetRotationPhase st) w"

datatype rotate_end = Aborted | Failed | Committed

definition verify_end ::
  "rotate_env \<Rightarrow> (world \<Rightarrow> world \<Rightarrow> bool) \<Rightarrow> generation \<Rightarrow> manual_route_spec \<Rightarrow> pref \<Rightarrow> string \<Rightarrow> string \<Rightarrow> bool \<Rightarrow>
   duration \<Rightarrow> world \<Rightarrow> rotate_end \<Rightarrow> bool \<Rightarrow> world \<Rightarrow> bool" where
  "verify_end env R gen s p rid baseline verified retryAfter w out aborted w' \<longleftrightarrow>
     (case out of
        Aborted \<Rightarrow> aborted \<and> R w w'
      | Failed \<Rightarrow> \<not> aborted \<and>
          (\<exists>wf. R w wf \<and> w' = rotate_failed env s p rid (Rotation (gen_Config gen)) retryAfter wf)
      | Committed \<Rightarrow>
          (\<exists>w0 ip w1 wc. R w w0 \<and> screened env R gen s p baseline verified w0 ip w1 \<and>
             committed_from env s p rid ip w1 wc \<and> w' = gap env wc))"

lemma rotate_verify_end:
  assumes i: "idle_closed env R" and pos: "0 < IPCheckInterval (Rotation (gen_Config gen))"
  shows "\<exists>out aborted w'. rotate_verify env gen s p rid baseline verified retryAfter failed w = Some (aborted, w') \<and>
    verify_end env R gen s p rid baseline verified retryAfter (phased p RotationVerifying w) out aborted w'"
proof -
  obtain b w' where v: "verify env gen s p rid baseline verified (Rotation (gen_Config gen)) failed
        (phased p RotationVerifying w) = Some (b, w')"
    and r: "if b then \<exists>w0 ip w1. R (phased p RotationVerifying w) w0 \<and>
                 screened env R gen s p baseline verified w0 ip w1 \<and> committed_from env s p rid ip w1 w'
       else R (phased p RotationVerifying w) w'"
    using verify_outcome [OF i pos] by meson
  have rot: "rotate_verify env gen s p rid baseline verified retryAfter failed w =
      Some (if gone env p (gap env w') then (True, gap env w')
            else if b then (False, gap env w')
            else (False, rotate_failed env s p rid (Rotation (gen_Config gen)) retryAfter (gap env w')))"
    using v by (simp add: rotate_verify_def Let_def phased_def)
  show ?thesis
  proof (cases b)
    case True
    then have "verify_end env R gen s p rid baseline verified retryAfter (phased p RotationVerifying w) Committed
        a (gap env w')" for a
      using r by (auto simp: verify_end_def)
    then show ?thesis using rot True by (cases "gone env p (gap env w')") auto
  next
    case False
    then have rg: "R (phased p RotationVerifying w) (gap env w')" using r idle_gapD [OF i] by simp
    show ?thesis
    proof (cases "gone env p (gap env w')")
      case True
      then have "verify_end env R gen s p rid baseline verified retryAfter (phased p RotationVerifying w) Aborted
          True (gap env w')"
        using rg by (simp add: verify_end_def)
      then show ?thesis using rot True by auto
    next
      case F: False
      then have "verify_end env R gen s p rid baseline verified retryAfter (phased p RotationVerifying w) Failed
          False (rotate_failed env s p rid (Rotation (gen_Config gen)) retryAfter (gap env w'))"
        using rg by (auto simp: verify_end_def)
      then show ?thesis using rot F False by auto
    qed
  qed
qed

text \<open>The baseline of a procedure: what it learned between its drain and its rotate call, and the world
  it learned it in.\<close>

definition baseline_of ::
  "rotate_env \<Rightarrow> generation \<Rightarrow> manual_route_spec \<Rightarrow> pref \<Rightarrow> world \<Rightarrow> (string \<times> bool) \<times> world" where
  "baseline_of env gen s p w =
     (let w0 = gap env (begun p w);
          w1 = snd (drain env p (wall w0 + DrainTimeout (Rotation (gen_Config gen))) w0)
      in baselineProbe env gen s (IPCheckTimeout (Rotation (gen_Config gen)))
           (gap env (phased p RotationRotating (gap env w1))))"

lemma rotate_stages:
  assumes i: "idle_closed env R" and pos: "0 < IPCheckInterval (Rotation (gen_Config gen))"
  shows "\<exists>aborted w'. rotate env gen s p rid w = Some (aborted, w') \<and>
    ((aborted \<and> R (begun p w) w') \<or>
     (\<exists>wr. R (begun p w) wr \<and>
       ((aborted \<and> R (phased p RotationRotating wr) w') \<or>
        (\<exists>wv baseline verified retryAfter out. R (phased p RotationRotating wr) wv \<and>
           (\<exists>wb. baseline_of env gen s p w = ((baseline, verified), wb) \<and> R (phased p RotationRotating wr) wb \<and> R wb wv) \<and>
           verify_end env R gen s p rid baseline verified retryAfter (phased p RotationVerifying wv) out aborted w'))))"
proof -
  let ?set = "Rotation (gen_Config gen)"
  let ?w0 = "gap env (begun p w)"
  obtain stop w1 where dr: "drain env p (wall ?w0 + DrainTimeout ?set) ?w0 = (stop, w1)" by fastforce
  have r1: "R (begun p w) w1" using idle_trans [OF i idle_gap [OF i] idle_drain [OF i dr]] .
  let ?w2 = "gap env w1"
  have r2: "R (begun p w) ?w2" using idle_gapD [OF i r1] .
  let ?wr = "phased p RotationRotating ?w2"
  obtain bl ver w3 where bp: "baselineProbe env gen s (IPCheckTimeout ?set) (gap env ?wr) = ((bl, ver), w3)"
    by (metis surj_pair)
  have r3: "R ?wr w3"
    using idle_trans [OF i idle_gap [OF i] idle_baseline [OF i bp [unfolded baselineProbe_def]]] .
  let ?w4 = "gap env w3" let ?w5 = "gap env ?w4"
  have r5: "R ?wr ?w4" "R ?wr ?w5" using idle_gapD [OF i r3] idle_gapD [OF i idle_gapD [OF i r3]] by auto
  obtain ra err where api: "callRotateAPI (api_at env (tick ?w4)) (API s) = (ra, err)" by fastforce
  have of: "baseline_of env gen s p w = ((bl, ver), w3)"
    using dr bp by (simp add: baseline_of_def Let_def)
  have r35: "R w3 ?w5" using idle_gapD [OF i idle_gap [OF i]] .
  have rot: "rotate env gen s p rid w =
      (if stop then Some (True, w1) else if gone env p ?w2 then Some (True, ?w2)
       else if gone env p ?w4 then Some (True, ?w4) else if gone env p ?w5 then Some (True, ?w5)
       else rotate_verify env gen s p rid bl ver ra (err \<noteq> None) ?w5)"
    using dr bp api by (simp add: rotate_def Let_def begun_def phased_def)
  obtain out aborted w' where v: "rotate_verify env gen s p rid bl ver ra (err \<noteq> None) ?w5 = Some (aborted, w')"
    "verify_end env R gen s p rid bl ver ra (phased p RotationVerifying ?w5) out aborted w'"
    using rotate_verify_end [OF i pos] by meson
  consider (a) "stop" | (b) "\<not> stop" "gone env p ?w2" | (c) "\<not> stop" "\<not> gone env p ?w2" "gone env p ?w4"
    | (d) "\<not> stop" "\<not> gone env p ?w2" "\<not> gone env p ?w4" "gone env p ?w5"
    | (e) "\<not> stop" "\<not> gone env p ?w2" "\<not> gone env p ?w4" "\<not> gone env p ?w5" by blast
  then show ?thesis
  proof cases
    case a
    with rot r1 show ?thesis by auto
  next
    case b
    with rot r2 show ?thesis by auto
  next
    case c
    then have "rotate env gen s p rid w = Some (True, ?w4)" using rot by simp
    with r2 r5 show ?thesis by blast
  next
    case d
    then have "rotate env gen s p rid w = Some (True, ?w5)" using rot by simp
    with r2 r5 show ?thesis by blast
  next
    case e
    then have "rotate env gen s p rid w = Some (aborted, w')" using rot v(1) by simp
    with r2 r5 v(2) of r3 r35 show ?thesis by blast
  qed
qed

section \<open>Ending\<close>

definition never_begins :: "rotate_env \<Rightarrow> pref \<Rightarrow> bool" where
  "never_begins env p \<longleftrightarrow> (\<forall>w. rotating (cells (mem (gap env w)) p) \<longrightarrow> rotating (cells (mem w) p))"

definition released :: "pref \<Rightarrow> world \<Rightarrow> world \<Rightarrow> bool" where
  "released p a b \<longleftrightarrow> (rotating (cells (mem b) p) \<longrightarrow> rotating (cells (mem a) p))"

lemma released_idle: "never_begins env p \<Longrightarrow> idle_closed env (released p)"
  by (auto simp: idle_closed_def released_def never_begins_def)

lemma at_route [simp]: "cells (mem (on_route p f w)) p = f (cells (mem w) p)" "mem (on_engine g w) = mem w"
  by (simp_all add: on_route_def on_engine_def upd_def)

lemma rotating_simps [simp]:
  "rotating (MarkRotated x) = rotating x" "\<not> rotating (AbandonRotation x)" "\<not> rotating (mark_stale d n x)"
  by (simp_all add: MarkRotated_def clearAllTargetCooldowns_def AbandonRotation_def mark_stale_def Let_def)

lemma jumpToBack_route: "cells (jumpToBack pl p h) p = (cells h p)\<lparr>pass := pass (cells (jumpToBack pl p h) p)\<rparr>"
  by (simp add: jumpToBack_def upd_def Let_def)

lemma MarkStale_route:
  "\<exists>n. cells (MarkStale pl p d k h) p = (mark_stale d k (cells h p))\<lparr>pass := n\<rparr>"
  using jumpToBack_route [of pl p "upd p (mark_stale d k) h"] by (auto simp: MarkStale_def upd_def)

lemma MarkStale_not_rotating: "\<not> rotating (cells (MarkStale pl p d k h) p)"
  using MarkStale_route [of pl p d k h] by (auto simp: mark_stale_def)

lemma still_released:
  "never_begins env p \<Longrightarrow> \<not> rotating (cells (mem w) p) \<Longrightarrow> \<not> rotating (cells (mem (gap env w)) p)"
  by (auto simp: never_begins_def)

lemma record_released:
  assumes n: "never_begins env p" and w: "\<not> rotating (cells (mem w) p)"
  shows "\<not> rotating (cells (mem (record_commit env s p i rv w)) p)"
proof -
  have "\<not> rotating (cells (mem (on_route p MarkRotated (gap env w))) p)"
    using still_released [OF n w] by simp
  then show ?thesis
    by (auto simp: record_commit_def Let_def dest!: never_begins_def [THEN iffD1, OF n, rule_format])
qed

lemma failed_released:
  assumes n: "never_begins env p"
  shows "\<not> rotating (cells (mem (rotate_failed env s p i settings ra w)) p)"
  using MarkStale_not_rotating [of _ p]
  by (auto simp: rotate_failed_def bumpConsecutive_def Let_def
      dest!: never_begins_def [THEN iffD1, OF n, rule_format])

lemma rotate_released:
  assumes n: "never_begins env p" and pos: "0 < IPCheckInterval (Rotation (gen_Config gen))"
  shows "\<exists>aborted w'. rotate env gen s p i w = Some (aborted, w') \<and>
    (\<not> aborted \<longrightarrow> \<not> rotating (cells (mem w') p))"
proof -
  have committed: "\<not> rotating (cells (mem w2) p)" if "committed_from env s p i ip w1 w2" for ip w1 w2
    using that record_released [OF n] by (auto simp: committed_from_def EndRotation_fields)
  have "\<not> rotating (cells (mem w') p)"
    if "verify_end env (released p) gen s p i b v ra w1 out False w'" for b v ra w1 out w'
    using that committed failed_released [OF n] still_released [OF n]
    by (cases out) (auto simp: verify_end_def)
  with rotate_stages [OF released_idle [OF n] pos, of s p i w] show ?thesis by (metis (full_types))
qed

text \<open>Claim C24: a rotation procedure always ends, and never strands its route. Whatever the
  clock, the probes, the provider, the reloads and the other requests do, as long as nothing else
  begins a rotation of the route: with a positive probe interval the procedure returns, its route
  is open to selection again on every exit, and the scheduler slot is no longer held for it.\<close>

theorem runProcedure_returns:
  assumes "never_begins env p" and "0 < IPCheckInterval (Rotation (gen_Config gen))"
    and "\<not> rotating (cells (mem w) p)"
  shows "\<exists>w'. runProcedure env gen s p i w = Some w' \<and> \<not> rotating (cells (mem w') p) \<and>
    map_of (active (eng w')) i \<noteq> Some p"
proof -
  have slot: "map_of (active (finishProcedure i p e)) i \<noteq> Some p" for e
    by (simp add: finishProcedure_def map_of_delete)
  obtain aborted w1 where r: "rotate env gen s p i (gap env w) = Some (aborted, w1)"
    "\<not> aborted \<longrightarrow> \<not> rotating (cells (mem w1) p)"
    using rotate_released [OF assms(1,2)] by blast
  show ?thesis
  proof (cases "gone env p (gap env w)")
    case True
    then show ?thesis using still_released [OF assms(1,3)] slot
      by (simp add: runProcedure_def Let_def) (simp add: on_engine_def slot)
  next
    case False
    have "\<not> rotating (cells (mem (gap env (if aborted then on_route p AbandonRotation (gap env w1) else w1))) p)"
      using r(2) by (intro still_released [OF assms(1)]) simp
    then show ?thesis using False r(1)
      by (simp add: runProcedure_def Let_def) (simp add: on_engine_def slot)
  qed
qed

definition demo_manual :: manual_route_spec where
  "demo_manual = \<lparr>RouteSpec = demo_spec_route ''m'' RouteOriginManual, RotateInterval = 5 * second,
     API = \<lparr>api_URL = ''https://p/r'', api_Method = ''POST'', api_Headers = [(''x-key'', ''k'')], api_Body = [],
       api_Timeout = second\<rparr>\<rparr>"

definition demo_rotating :: generation where
  "demo_rotating = NewGeneration (demo_config\<lparr>ManualRoutes := [demo_manual]\<rparr>)
     \<lparr>pool_id = 5, entries = [0], ids = (\<lambda>_. None), base = second, maxCooldown = 60 * second\<rparr>"

definition demo_world :: world where
  "demo_world = \<lparr>mem = \<lparr>cells = (\<lambda>_. newProxy (demo_spec_route ''m'' RouteOriginManual) 3), brk = 9\<rparr>,
     live_gen = demo_rotating, eng = new_engine\<lparr>active := [(''m'', 0)]\<rparr>, wall = 0, tick = 0\<rparr>"

text \<open>The endpoint reports one address before the rotate call and another after it; the
  provider refuses with a hint.\<close>

definition demo_rotate_env ::
  "(nat \<Rightarrow> heap \<times> generation \<times> engine \<Rightarrow> heap \<times> generation \<times> engine) \<Rightarrow> rotate_env" where
  "demo_rotate_env others =
     \<lparr>cancelled = (\<lambda>_. False), ctx_deadline = None, lag = (\<lambda>_. 1), interfere = others,
      probe_at = (\<lambda>t. demo_net (if t < 7 then ''::1'' else ''::2'')),
      api_at = (\<lambda>_. \<lparr>an_request_ok = (\<lambda>_ _. True), an_do = (\<lambda>_ _. Responded 429 ''7'')\<rparr>),
      jitter_at = (\<lambda>_ d. d)\<rparr>"

lemma demo_bounds:
  "0 < IPCheckInterval (Rotation (gen_Config demo_rotating))"
  "0 < RetryBackoffMax (Rotation (gen_Config demo_rotating))"
  "RetryBackoffMax (Rotation (gen_Config demo_rotating)) \<le> max_int64"
  "\<not> rotating (cells (mem demo_world) 0)"
  by (simp_all add: demo_rotating_def NewGeneration_def demo_config_def demo_percent_def max_int64_def
      demo_world_def newProxy_def Let_def)

theorem runProcedure_returns_witness:
  "\<exists>w'. runProcedure (demo_rotate_env (\<lambda>_ (h, g, e). (upd 0 AbandonRotation h, g, e)))
       demo_rotating demo_manual 0 ''m'' demo_world = Some w' \<and> \<not> rotating (cells (mem w') 0) \<and>
     map_of (active (eng w')) ''m'' \<noteq> Some 0"
proof (rule runProcedure_returns)
  show "never_begins (demo_rotate_env (\<lambda>_ (h, g, e). (upd 0 AbandonRotation h, g, e))) 0"
    by (simp add: never_begins_def gap_def demo_rotate_env_def upd_def)
qed (rule demo_bounds)+

section \<open>What is recorded\<close>

text \<open>The rotation record of a route, its phase, and the engine's books on it. The counters are
  global: \<open>cr\<close> and \<open>cv\<close> say what other procedures had added to them at each tick.\<close>

definition history :: "pref \<Rightarrow> world \<Rightarrow> int \<times> string \<times> instant option \<times> ip_key set \<times> int \<times> int" where
  "history p w = (let x = cells (mem w) p in
     (consecutiveSameIP x, lastIP x, lastRotationAt x, verifiedIPs x, rotationCount x, ipRevisitCount x))"

definition phase :: "pref \<Rightarrow> world \<Rightarrow> bool \<times> rotation_state \<times> duration" where
  "phase p w = (let x = cells (mem w) p in (rotating x, rotationState x, nextRetryIn x))"

definition schedule_of :: "string \<Rightarrow> world \<Rightarrow> instant option \<times> int" where
  "schedule_of i w = (due (eng w) i, consec (eng w) i)"

definition counters :: "(nat \<Rightarrow> u64) \<Rightarrow> (nat \<Rightarrow> u64) \<Rightarrow> world \<Rightarrow> u64 \<times> u64" where
  "counters cr cv w = (rotations (eng w) - cr (tick w), ipRevisits (eng w) - cv (tick w))"

declare history_def [frame_simps] phase_def [frame_simps] schedule_of_def [frame_simps] counters_def [frame_simps]

definition quiet :: "rotate_env \<Rightarrow> pref \<Rightarrow> string \<Rightarrow> (nat \<Rightarrow> u64) \<Rightarrow> (nat \<Rightarrow> u64) \<Rightarrow> bool" where
  "quiet env p i cr cv \<longleftrightarrow>
     (\<forall>w. history p (gap env w) = history p w \<and> phase p (gap env w) = phase p w \<and>
        schedule_of i (gap env w) = schedule_of i w \<and> counters cr cv (gap env w) = counters cr cv w)"

definition calm :: "pref \<Rightarrow> string \<Rightarrow> (nat \<Rightarrow> u64) \<Rightarrow> (nat \<Rightarrow> u64) \<Rightarrow> world \<Rightarrow> world \<Rightarrow> bool" where
  "calm p i cr cv a b \<longleftrightarrow> later a b \<and> history p b = history p a \<and> phase p b = phase p a \<and>
     schedule_of i b = schedule_of i a \<and> counters cr cv b = counters cr cv a"

lemma calm_idle: "quiet env p i cr cv \<Longrightarrow> idle_closed env (calm p i cr cv)"
  by (auto simp: idle_closed_def calm_def quiet_def intro: later_trans)
    (simp_all add: frame_simps later_def)

lemma views_route [simp]:
  "schedule_of i (on_route p f w) = schedule_of i w" "counters cr cv (on_route p f w) = counters cr cv w"
  "history p (on_engine g w) = history p w" "phase p (on_engine g w) = phase p w"
  "wall (on_route p f w) = wall w" "wall (on_engine g w) = wall w"
  "tick (on_route p f w) = tick w" "tick (on_engine g w) = tick w" "eng (on_engine g w) = g (eng w)"
  "eng (on_route p f w) = eng w"
  by (simp_all add: frame_simps on_route_def on_engine_def)

lemma MarkRotated_view:
  "history p (on_route p MarkRotated w) = history p w" "phase p (on_route p MarkRotated w) = phase p w"
  by (simp_all add: history_def phase_def Let_def MarkRotated_def clearAllTargetCooldowns_def)

lemma phase_of_steps:
  "history p (begun p w) = history p w" "fst (phase p (begun p w))"
  "history p (phased p st w) = history p w"
  "fst (phase p w) \<Longrightarrow> phase p (phased p st w) = (True, st, snd (snd (phase p w)))"
  "schedule_of i (begun p w) = schedule_of i w" "counters cr cv (begun p w) = counters cr cv w"
  "schedule_of i (phased p st w) = schedule_of i w" "counters cr cv (phased p st w) = counters cr cv w"
  "later (begun p w) v = later w v" "later (phased p st w) v = later w v"
  "tick (begun p w) = tick w" "tick (phased p st w) = tick w" "wall (begun p w) = wall w" "wall (phased p st w) = wall w"
  by (simp_all add: history_def phase_def Let_def begun_def phased_def BeginRotation_def SetRotationPhase_def)

text \<open>The three endings, as what they leave.\<close>

definition recorded_commit ::
  "string \<Rightarrow> (nat \<Rightarrow> u64) \<Rightarrow> (nat \<Rightarrow> u64) \<Rightarrow> manual_route_spec \<Rightarrow> pref \<Rightarrow> string \<Rightarrow> world \<Rightarrow> world \<Rightarrow> bool" where
  "recorded_commit i cr cv s p ip w w' \<longleftrightarrow>
     (\<exists>at t x. x = cells (mem w) p \<and> wall w \<le> at \<and> at \<le> t \<and> t \<le> wall w' \<and>
        history p w' = (0, CanonicalIP ip, Some at, verifiedIPs x \<union> set_option (IPIdentity ip),
          rotationCount x + 1,
          ipRevisitCount x + (if set_option (IPIdentity ip) \<inter> verifiedIPs x \<noteq> {} then 1 else 0)) \<and>
        phase p w' = (False, RotationIdle, 0) \<and>
        schedule_of i w' = (Some (t + RotateInterval s), 0) \<and>
        counters cr cv w' = (fst (counters cr cv w) + 1,
          snd (counters cr cv w) + (if set_option (IPIdentity ip) \<inter> verifiedIPs x \<noteq> {} then 1 else 0)))"

lemma views_engine [simp]:
  "schedule_of i (on_engine (clearConsecutive i) w) = (fst (schedule_of i w), 0)"
  "schedule_of i (on_engine (\<lambda>e. e\<lparr>rotations := rotations e + 1\<rparr>) w) = schedule_of i w"
  "schedule_of i (on_engine (\<lambda>e. e\<lparr>ipRevisits := ipRevisits e + 1\<rparr>) w) = schedule_of i w"
  "schedule_of i (on_engine (setDue i t) w) = (Some t, snd (schedule_of i w))"
  "counters cr cv (on_engine (clearConsecutive i) w) = counters cr cv w"
  "counters cr cv (on_engine (setDue i t) w) = counters cr cv w"
  "counters cr cv (on_engine (\<lambda>e. e\<lparr>rotations := rotations e + 1\<rparr>) w) =
     (fst (counters cr cv w) + 1, snd (counters cr cv w))"
  "counters cr cv (on_engine (\<lambda>e. e\<lparr>ipRevisits := ipRevisits e + 1\<rparr>) w) =
     (fst (counters cr cv w), snd (counters cr cv w) + 1)"
  by (simp_all add: schedule_of_def counters_def on_engine_def clearConsecutive_def setDue_def)

lemma quiet_gap:
  assumes "quiet env p i cr cv"
  shows "history p (gap env w) = history p w" "phase p (gap env w) = phase p w"
    "schedule_of i (gap env w) = schedule_of i w" "counters cr cv (gap env w) = counters cr cv w"
  using assms by (simp_all add: quiet_def)

lemma record_views:
  assumes q: "quiet env p i cr cv"
  shows "history p (record_commit env s p i rv w) = history p w"
    "phase p (record_commit env s p i rv w) = phase p w"
    "counters cr cv (record_commit env s p i rv w) =
       (fst (counters cr cv w) + 1, snd (counters cr cv w) + (if rv then 1 else 0))"
    "\<exists>t. wall w \<le> t \<and> t = wall (record_commit env s p i rv w) \<and>
       schedule_of i (record_commit env s p i rv w) = (Some (t + RotateInterval s), 0)"
  using record_later [of w env s p i rv]
  by (cases rv; simp add: record_commit_def Let_def quiet_gap [OF q] MarkRotated_view later_def)+

lemma commit_recorded:
  assumes q: "quiet env p i cr cv" and c: "committed_from env s p i ip w w'"
  shows "recorded_commit i cr cv s p ip w w'"
proof -
  let ?w4 = "gap env (gap env (gap env (gap env w)))"
  obtain at where at: "wall w \<le> at" "at \<le> wall ?w4"
    and w': "w' = record_commit env s p i (snd (EndRotation ip at (cells (mem ?w4) p)))
      (on_route p (\<lambda>x. fst (EndRotation ip at x)) ?w4)"
    using c by (auto simp: committed_from_def)
  define x where "x = cells (mem ?w4) p"
  have h: "history p ?w4 = history p w" by (simp add: quiet_gap [OF q])
  then have view: "verifiedIPs x = verifiedIPs (cells (mem w) p)" "rotationCount x = rotationCount (cells (mem w) p)"
    "ipRevisitCount x = ipRevisitCount (cells (mem w) p)"
    by (simp_all add: history_def Let_def x_def)
  define rv where "rv = snd (EndRotation ip at x)"
  have rv: "rv \<longleftrightarrow> set_option (IPIdentity ip) \<inter> verifiedIPs x \<noteq> {}"
    by (auto simp: rv_def EndRotation_fields)
  have ended: "lastRotationAt (fst (EndRotation ip at x)) = Some at"
    by (simp add: EndRotation_def Let_def recordVerifiedIP_def split: option.splits)
  define we where "we = on_route p (\<lambda>x. fst (EndRotation ip at x)) ?w4"
  have we: "history p we = (0, CanonicalIP ip, Some at, verifiedIPs x \<union> set_option (IPIdentity ip), rotationCount x + 1,
      ipRevisitCount x + (if rv then 1 else 0))" "phase p we = (False, RotationIdle, 0)" "wall we = wall ?w4"
    "counters cr cv we = counters cr cv w"
    by (simp_all add: we_def history_def phase_def Let_def EndRotation_fields(1-6,16,17) ended flip: x_def rv_def)
      (simp_all add: quiet_gap [OF q])
  from w' have w': "w' = record_commit env s p i rv we" by (simp add: rv_def we_def x_def)
  obtain t where t: "wall we \<le> t" "t = wall w'" "schedule_of i w' = (Some (t + RotateInterval s), 0)"
    using record_views(4) [OF q, of we s rv] unfolding w' by blast
  note rec = record_views(1-3) [OF q, of s rv we, folded w']
  show ?thesis
    unfolding recorded_commit_def
    using at t rec we rv view
    by (intro exI [of _ at] exI [of _ t] exI [of _ "cells (mem w) p"]) auto
qed

lemma recorded_base:
  assumes "recorded_commit i cr cv s p ip w w'" and "history p w = history p w0"
    and "counters cr cv w = counters cr cv w0" and "wall w0 \<le> wall w"
  shows "recorded_commit i cr cv s p ip w0 w'"
proof -
  have v: "verifiedIPs (cells (mem w) p) = verifiedIPs (cells (mem w0) p)"
    "rotationCount (cells (mem w) p) = rotationCount (cells (mem w0) p)"
    "ipRevisitCount (cells (mem w) p) = ipRevisitCount (cells (mem w0) p)"
    using assms(2) by (simp_all add: history_def Let_def)
  obtain at t where r: "wall w \<le> at" "at \<le> t" "t \<le> wall w'"
    "history p w' = (0, CanonicalIP ip, Some at, verifiedIPs (cells (mem w) p) \<union> set_option (IPIdentity ip),
       rotationCount (cells (mem w) p) + 1, ipRevisitCount (cells (mem w) p) +
         (if set_option (IPIdentity ip) \<inter> verifiedIPs (cells (mem w) p) \<noteq> {} then 1 else 0))"
    "phase p w' = (False, RotationIdle, 0)" "schedule_of i w' = (Some (t + RotateInterval s), 0)"
    "counters cr cv w' = (fst (counters cr cv w) + 1, snd (counters cr cv w) +
       (if set_option (IPIdentity ip) \<inter> verifiedIPs (cells (mem w) p) \<noteq> {} then 1 else 0))"
    using assms(1) unfolding recorded_commit_def by blast
  show ?thesis
    unfolding recorded_commit_def
    by (rule exI [of _ at], rule exI [of _ t], rule exI [of _ "cells (mem w0) p"])
      (use r v assms(3,4) in simp)
qed

text \<open>A failed attempt: one more on the streak, the next attempt after the wait, the history kept.\<close>

definition recorded_failure ::
  "string \<Rightarrow> (nat \<Rightarrow> u64) \<Rightarrow> (nat \<Rightarrow> u64) \<Rightarrow> duration \<Rightarrow> pref \<Rightarrow> world \<Rightarrow> world \<Rightarrow> bool" where
  "recorded_failure i cr cv ceiling p w w' \<longleftrightarrow>
     (\<exists>wait t. 0 < wait \<and> wait \<le> ceiling \<and> wall w \<le> t \<and> t \<le> wall w' \<and>
        history p w' = (snd (schedule_of i w) + 1, snd (history p w)) \<and>
        phase p w' = (False, RotationStale, wait) \<and>
        schedule_of i w' = (Some (t + wait), snd (schedule_of i w) + 1) \<and>
        counters cr cv w' = counters cr cv w)"

lemma stale_wait_range:
  assumes "0 < ceiling" and "ceiling \<le> max_int64"
  shows "0 < stale_wait ra (BackoffFor jit interval n ceiling) ceiling \<and>
    stale_wait ra (BackoffFor jit interval n ceiling) ceiling \<le> ceiling"
proof -
  have "0 < (if interval \<le> 0 then second else interval)" by (simp add: second_def)
  from saturating.clamped_range [OF this assms]
  have "0 < BackoffFor jit interval n ceiling" by (simp add: BackoffFor_def Let_def)
  then show ?thesis using assms(1) by (auto simp: stale_wait_def min_def max_def)
qed

lemma failure_recorded:
  assumes q: "quiet env p i cr cv" and c: "0 < RetryBackoffMax settings" "RetryBackoffMax settings \<le> max_int64"
  shows "recorded_failure i cr cv (RetryBackoffMax settings) p w (rotate_failed env s p i settings ra w)"
proof -
  define w1 where "w1 = gap env w"
  define n where "n = consec (eng w1) i + 1"
  define w2 where "w2 = gap env (w1\<lparr>eng := (eng w1)\<lparr>consec := (consec (eng w1))(i := n)\<rparr>\<rparr>)"
  define wait where "wait = stale_wait ra (BackoffFor (jitter_at env (tick w2)) (RotateInterval s) n (RetryBackoffMax settings))
    (RetryBackoffMax settings)"
  define w3 where "w3 = gap env (gap env w2)"
  define w4 where "w4 = gap env (w3\<lparr>mem := MarkStale (gen_Pool (live_gen (gap env w2))) p wait n (mem w3)\<rparr>)"
  have w': "rotate_failed env s p i settings ra w = on_engine (setDue i (wall w4 + wait)) w4"
    by (simp add: rotate_failed_def Let_def bumpConsecutive_def w1_def n_def w2_def wait_def w3_def w4_def)
  have h3: "history p w3 = history p w" "schedule_of i w3 = (fst (schedule_of i w), n)"
    "counters cr cv w3 = counters cr cv w"
    by (simp_all add: w3_def w2_def quiet_gap [OF q])
      (simp_all add: history_def schedule_of_def counters_def w1_def n_def quiet_gap [OF q, unfolded history_def]
        quiet_gap(3) [OF q, unfolded schedule_of_def, simplified] quiet_gap(4) [OF q, unfolded counters_def, simplified])
  have n: "n = snd (schedule_of i w) + 1"
    using quiet_gap(3) [OF q, of w] by (simp add: n_def w1_def schedule_of_def)
  obtain ps where c4: "cells (MarkStale (gen_Pool (live_gen (gap env w2))) p wait n (mem w3)) p =
      (mark_stale wait n (cells (mem w3) p))\<lparr>pass := ps\<rparr>"
    using MarkStale_route by blast
  have v4: "history p w4 = (n, snd (history p w3))" "phase p w4 = (False, RotationStale, wait)"
    "schedule_of i w4 = schedule_of i w3" "counters cr cv w4 = counters cr cv w3"
    unfolding w4_def quiet_gap [OF q]
    by (simp_all add: history_def phase_def Let_def c4 mark_stale_def schedule_of_def counters_def)
  have "later w w4"
    unfolding w4_def w3_def w2_def w1_def by (simp add: later_gapD)
  then have t: "wall w \<le> wall w4" by (simp add: later_def)
  show ?thesis
    unfolding recorded_failure_def w'
    using stale_wait_range [OF c, of ra "jitter_at env (tick w2)" "RotateInterval s" n] t h3 v4 n
    by - (rule exI [of _ wait], rule exI [of _ "wall w4"], simp add: wait_def)
qed

text \<open>Nothing recorded between two worlds, whatever phases were entered.\<close>

definition unrecorded :: "pref \<Rightarrow> string \<Rightarrow> (nat \<Rightarrow> u64) \<Rightarrow> (nat \<Rightarrow> u64) \<Rightarrow> world \<Rightarrow> world \<Rightarrow> bool" where
  "unrecorded p i cr cv a b \<longleftrightarrow> later a b \<and> history p b = history p a \<and>
     schedule_of i b = schedule_of i a \<and> counters cr cv b = counters cr cv a"

lemma unrecorded_trans [trans]:
  "unrecorded p i cr cv a b \<Longrightarrow> unrecorded p i cr cv b c \<Longrightarrow> unrecorded p i cr cv a c"
  by (auto simp: unrecorded_def intro: later_trans)

lemma unrecorded_steps:
  "calm p i cr cv a b \<Longrightarrow> unrecorded p i cr cv a b"
  "unrecorded p i cr cv w (begun p w)" "unrecorded p i cr cv w (phased p st w)"
  by (simp_all add: calm_def unrecorded_def phase_of_steps) (simp_all add: later_def phase_of_steps)

lemma unrecorded_gap: "quiet env p i cr cv \<Longrightarrow> unrecorded p i cr cv w (gap env w)"
  by (simp add: unrecorded_def quiet_gap)

lemma commit_base:
  "recorded_commit i cr cv s p ip w w' \<Longrightarrow> unrecorded p i cr cv w0 w \<Longrightarrow> recorded_commit i cr cv s p ip w0 w'"
  by (erule recorded_base) (simp_all add: unrecorded_def later_def)

lemma failure_base:
  "recorded_failure i cr cv cl p w w' \<Longrightarrow> unrecorded p i cr cv w0 w \<Longrightarrow> recorded_failure i cr cv cl p w0 w'"
  by (auto simp: recorded_failure_def unrecorded_def later_def)

text \<open>The end of the procedure touches neither the record nor the books.\<close>

lemma finish_views [simp]:
  "schedule_of i (on_engine (finishProcedure i p) w) = schedule_of i w"
  "counters cr cv (on_engine (finishProcedure i p) w) = counters cr cv w"
  by (simp_all add: schedule_of_def counters_def on_engine_def finishProcedure_def)

lemma abandon_views:
  "history p (on_route p AbandonRotation w) = history p w"
  "phase p w = (False, RotationIdle, 0) \<Longrightarrow> phase p (on_route p AbandonRotation w) = (False, RotationIdle, 0)"
  "\<not> fst (phase p (on_route p AbandonRotation w))"
  by (simp_all add: history_def phase_def Let_def AbandonRotation_def in_rotation_def)

definition closing :: "rotate_env \<Rightarrow> pref \<Rightarrow> string \<Rightarrow> bool \<Rightarrow> world \<Rightarrow> world" where
  "closing env p i aborted w =
     on_engine (finishProcedure i p)
       (gap env (if aborted then on_route p AbandonRotation (gap env w) else w))"

lemma closing_views:
  assumes q: "quiet env p i cr cv"
  shows "unrecorded p i cr cv w (closing env p i a w)"
    "a \<Longrightarrow> \<not> fst (phase p (closing env p i a w))"
    "phase p w = (False, RotationIdle, 0) \<Longrightarrow> phase p (closing env p i a w) = (False, RotationIdle, 0)"
    "\<not> a \<Longrightarrow> phase p (closing env p i a w) = phase p w"
  by (cases a; simp add: closing_def unrecorded_def quiet_gap [OF q] abandon_views later_gapD)+

lemma commit_after:
  assumes r: "recorded_commit i cr cv s p ip w w1" and u: "unrecorded p i cr cv w1 w2"
    and ph: "phase p w1 = (False, RotationIdle, 0) \<Longrightarrow> phase p w2 = (False, RotationIdle, 0)"
  shows "recorded_commit i cr cv s p ip w w2"
proof -
  from r obtain at t x where "x = cells (mem w) p \<and> wall w \<le> at \<and> at \<le> t \<and> t \<le> wall w1 \<and>
        history p w1 = (0, CanonicalIP ip, Some at, verifiedIPs x \<union> set_option (IPIdentity ip),
          rotationCount x + 1,
          ipRevisitCount x + (if set_option (IPIdentity ip) \<inter> verifiedIPs x \<noteq> {} then 1 else 0)) \<and>
        phase p w1 = (False, RotationIdle, 0) \<and>
        schedule_of i w1 = (Some (t + RotateInterval s), 0) \<and>
        counters cr cv w1 = (fst (counters cr cv w) + 1,
          snd (counters cr cv w) + (if set_option (IPIdentity ip) \<inter> verifiedIPs x \<noteq> {} then 1 else 0))"
    unfolding recorded_commit_def by blast
  with u ph show ?thesis
    unfolding recorded_commit_def
    by - (rule exI [of _ at], rule exI [of _ t], rule exI [of _ x], auto simp: unrecorded_def later_def)
qed

lemma recorded_commit_closing:
  "quiet env p i cr cv \<Longrightarrow> recorded_commit i cr cv s p ip w w1 \<Longrightarrow>
     recorded_commit i cr cv s p ip w (closing env p i a w1)"
  by (erule commit_after [OF _ closing_views(1)]) (simp_all add: closing_views(3))

lemma recorded_failure_closing:
  assumes q: "quiet env p i cr cv" and r: "recorded_failure i cr cv cl p w w1"
  shows "recorded_failure i cr cv cl p w (closing env p i False w1)"
proof -
  have u: "unrecorded p i cr cv w1 (closing env p i False w1)" by (rule closing_views(1) [OF q])
  have ph: "phase p (closing env p i False w1) = phase p w1"
    by (rule closing_views(4) [OF q]) simp
  have le: "wall w1 \<le> wall (closing env p i False w1)" using u by (simp add: unrecorded_def later_def)
  with r u ph show ?thesis by (fastforce simp: recorded_failure_def unrecorded_def)
qed

text \<open>An address the route's own endpoint reported at a tick.\<close>

definition observed :: "rotate_env \<Rightarrow> generation \<Rightarrow> manual_route_spec \<Rightarrow> nat \<Rightarrow> string \<Rightarrow> bool" where
  "observed env gen s t ip \<longleftrightarrow>
     (\<exists>start d. probeIP (probe_at env t) (IPCheckURL (Rotation (gen_Config gen))) (spec_URL (RouteSpec s))
        start (ctx_deadline env) d = Inr ip)"

lemma probe_observed: "fst (probe_now env gen s d w) = Inr ip \<Longrightarrow> observed env gen s (tick w) ip"
  by (auto simp: probe_now_def observed_def Let_def)

definition failed_probe :: "rotate_env \<Rightarrow> generation \<Rightarrow> manual_route_spec \<Rightarrow> nat \<Rightarrow> bool" where
  "failed_probe env gen s t \<longleftrightarrow>
     (\<exists>start d e. probeIP (probe_at env t) (IPCheckURL (Rotation (gen_Config gen))) (spec_URL (RouteSpec s))
        start (ctx_deadline env) d = Inl e)"

lemma tick_gap [simp]: "tick (gap env w) = tick w + 1"
  by (simp add: gap_def split: prod.split)

lemma tick_views [simp]: "tick (begun p w) = tick w" "tick (phased p st w) = tick w"
  by (simp_all add: begun_def phased_def on_route_def)

lemma baseline_from:
  "tick w \<le> tick (gap env (phased p st (gap env (snd (drain env p u (gap env (begun p (gap env w))))))))"
proof -
  obtain stop w1 where d: "drain env p u (gap env (begun p (gap env w))) = (stop, w1)" by fastforce
  from idle_drain [OF later_idle d] have "tick w + 2 \<le> tick w1" by (simp add: later_def)
  then show ?thesis by (simp add: d)
qed

text \<open>What a baseline rests on: an observation, or else a cancellation or three failed probes.\<close>

definition baseline_learned ::
  "rotate_env \<Rightarrow> generation \<Rightarrow> manual_route_spec \<Rightarrow> nat \<Rightarrow> nat \<Rightarrow> nat \<Rightarrow> string \<times> bool \<Rightarrow> bool" where
  "baseline_learned env gen s n lo hi res \<longleftrightarrow>
     (if snd res then \<exists>t. lo \<le> t \<and> t < hi \<and> observed env gen s t (fst res)
      else (\<exists>t. lo \<le> t \<and> t \<le> hi \<and> cancelled env t) \<or>
        (\<exists>ts. length ts = n \<and> distinct ts \<and> (\<forall>t \<in> set ts. lo \<le> t \<and> t < hi \<and> failed_probe env gen s t)))"

lemma baseline_learned_mono:
  assumes "baseline_learned env gen s n lo hi res" and "lo' \<le> lo" and "hi \<le> hi'"
  shows "baseline_learned env gen s n lo' hi' res"
proof -
  have wide: "lo' \<le> t" "t < hi \<Longrightarrow> t < hi'" "t \<le> hi \<Longrightarrow> t \<le> hi'" if "lo \<le> t" for t
    using assms(2,3) that by simp_all
  from assms(1) consider t where "snd res" "lo \<le> t" "t < hi" "observed env gen s t (fst res)"
    | t where "\<not> snd res" "lo \<le> t" "t \<le> hi" "cancelled env t"
    | ts where "\<not> snd res" "length ts = n" "distinct ts" "\<forall>t \<in> set ts. lo \<le> t \<and> t < hi \<and> failed_probe env gen s t"
    unfolding baseline_learned_def by (auto split: if_splits)
  then show ?thesis unfolding baseline_learned_def using wide by cases auto
qed

lemma baseline_attempts_learned:
  "baseline_attempts n env gen s d w = (res, w') \<Longrightarrow>
     tick w \<le> tick w' \<and> baseline_learned env gen s n (tick w) (tick w') res"
proof (induction n arbitrary: w)
  case (Suc n)
  show ?case
  proof (cases "ctx_err env w")
    case True
    with Suc(2) show ?thesis by (auto simp: baseline_learned_def ctx_err_def)
  next
    case False
    obtain r w1 where p: "probe_now env gen s d w = (r, w1)" by fastforce
    then have w1: "w1 = gap env w" using probe_now_gap by blast
    obtain ok w2 where sl: "sleepCtx env probeRetryPause w1 = (ok, w2)" by fastforce
    have w2: "tick w2 = tick w + 2" "\<not> ok \<Longrightarrow> cancelled env (tick w2)"
      using sl by (auto simp: sleepCtx_def Let_def w1 ctx_err_def split: if_splits)
    show ?thesis
    proof (cases r)
      case (Inr ip)
      then have "observed env gen s (tick w) ip" using probe_observed [of env gen s d w ip] p by simp
      with Suc(2) False p Inr w1 show ?thesis by (auto simp: baseline_learned_def)
    next
      case (Inl e)
      then have bad: "failed_probe env gen s (tick w)" using p by (auto simp: probe_now_def Let_def failed_probe_def)
      consider "n = 0" | "n \<noteq> 0" "\<not> ok" | "n \<noteq> 0" ok by blast
      then show ?thesis
      proof cases
        case 1
        with Suc(2) False p Inl have "res = ([], False)" "w' = gap env w" using w1 by auto
        then show ?thesis using bad 1 by (auto simp: baseline_learned_def intro!: exI [of _ "[tick w]"])
      next
        case 2
        with Suc(2) False p Inl sl have "res = ([], False)" "w' = w2" by auto
        then show ?thesis using w2 2 by (auto simp: baseline_learned_def intro!: exI [of _ "tick w + 2"])
      next
        case 3
        with Suc(2) False p Inl sl have "baseline_attempts n env gen s d w2 = (res, w')" by simp
        from Suc(1) [OF this] have l: "tick w2 \<le> tick w'" "baseline_learned env gen s n (tick w2) (tick w') res" by auto
        show ?thesis
        proof (cases "snd res \<or> (\<exists>t. tick w2 \<le> t \<and> t \<le> tick w' \<and> cancelled env t)")
          case True
          with l(2) have "baseline_learned env gen s (Suc n) (tick w2) (tick w') res"
            by (auto simp: baseline_learned_def split: if_splits)
          from baseline_learned_mono [OF this] l(1) w2(1) show ?thesis by simp
        next
          case False
          with l obtain ts where "length ts = n" "distinct ts"
            "\<forall>t \<in> set ts. tick w2 \<le> t \<and> t < tick w' \<and> failed_probe env gen s t"
            unfolding baseline_learned_def by auto
          then have "length (tick w # ts) = Suc n \<and> distinct (tick w # ts) \<and>
              (\<forall>t \<in> set (tick w # ts). tick w \<le> t \<and> t < tick w' \<and> failed_probe env gen s t)"
            using bad w2(1) l(1) by auto
          with False l(1) w2(1) show ?thesis unfolding baseline_learned_def by (metis le_trans le_add1)
        qed
      qed
    qed
  qed
qed (auto simp: baseline_learned_def)

text \<open>The change of address a commit needs: the address was observed after the baseline, and it differs
  from the baseline when one was observed, and otherwise from the address on record.\<close>

definition changed_address ::
  "rotate_env \<Rightarrow> generation \<Rightarrow> manual_route_spec \<Rightarrow> pref \<Rightarrow> string \<Rightarrow> world \<Rightarrow> world \<Rightarrow> bool" where
  "changed_address env gen s p ip w w' \<longleftrightarrow>
     (\<exists>b verified wb t. baseline_of env gen s p (gap env w) = ((b, verified), wb) \<and>
        baseline_learned env gen s baselineAttempts (tick w) (tick wb) (b, verified) \<and>
        tick wb \<le> t \<and> t < tick w' \<and> observed env gen s t ip \<and>
        (if verified then \<not> SameIP ip b else \<not> SameIP ip (lastIP (cells (mem w) p))))"

lemma commit_changed:
  assumes q: "quiet env p i cr cv" and u0: "unrecorded p i cr cv w w1"
    and base: "baseline_of env gen s p (gap env w) = ((baseline, verified), wc)"
    and c: "calm p i cr cv w1 wc" "calm p i cr cv wc wv"
    and u: "unrecorded p i cr cv wv w0" and s: "screened env (calm p i cr cv) gen s p baseline verified w0 ip w2"
    and l: "later w2 w'"
  shows "changed_address env gen s p ip w w'"
proof -
  obtain wa d wb where sc: "calm p i cr cv w0 wa" "fst (probe_now env gen s d wa) = Inr ip"
    "calm p i cr cv (gap env wa) wb" "calm p i cr cv wb w2"
    "if verified then \<not> SameIP ip baseline else \<not> SameIP ip (lastIP (cells (mem wb) p))"
    using s by (auto simp: screened_def)
  have ticks: "tick w \<le> tick w1" "tick w1 \<le> tick wc" "tick wc \<le> tick wv" "tick wv \<le> tick w0" "tick w0 \<le> tick wa"
    "tick wa < tick wb" "tick wb \<le> tick w2" "tick w2 \<le> tick w'"
    using u0 c u sc(1,3,4) l by (simp_all add: unrecorded_def calm_def later_def)
  have "calm p i cr cv wa (gap env wa)" by (rule idle_gap [OF calm_idle [OF q]])
  then have "unrecorded p i cr cv w wb"
    using unrecorded_trans u0 u unrecorded_steps(1) [OF c(1)] unrecorded_steps(1) [OF c(2)]
      unrecorded_steps(1) [OF sc(1)] unrecorded_steps(1) [OF sc(3)] unrecorded_steps(1) by meson
  then have last: "lastIP (cells (mem wb) p) = lastIP (cells (mem w) p)"
    by (simp add: unrecorded_def history_def Let_def)
  obtain ws where "baseline_attempts baselineAttempts env gen s (IPCheckTimeout (Rotation (gen_Config gen))) ws =
      ((baseline, verified), wc)" and ws: "tick w \<le> tick ws"
    using base baseline_from [where w = w and env = env and p = p] by (auto simp: baseline_of_def baselineProbe_def Let_def)
  from baseline_attempts_learned [OF this(1)]
  have "baseline_learned env gen s baselineAttempts (tick w) (tick wc) (baseline, verified)"
    using ws by (auto elim: baseline_learned_mono)
  moreover have "tick wc \<le> tick wa" "tick wa < tick w'" using ticks by linarith+
  ultimately show ?thesis
    unfolding changed_address_def using base probe_observed [OF sc(2)] sc(5) last by (cases verified) auto
qed

lemma committed_later: "committed_from env s p i ip w w' \<Longrightarrow> later w w'"
proof -
  assume "committed_from env s p i ip w w'"
  then obtain rv f where w': "w' = record_commit env s p i rv (on_route p f (gap env (gap env (gap env (gap env w)))))"
    by (auto simp: committed_from_def)
  have "later w (on_route p f (gap env (gap env (gap env (gap env w)))))" by (simp add: later_gapD)
  then show ?thesis unfolding w' by (rule later_trans [OF _ record_later])
qed

definition rotation_outcome ::
  "rotate_env \<Rightarrow> generation \<Rightarrow> manual_route_spec \<Rightarrow> pref \<Rightarrow> string \<Rightarrow> (nat \<Rightarrow> u64) \<Rightarrow> (nat \<Rightarrow> u64) \<Rightarrow>
   world \<Rightarrow> world \<Rightarrow> bool" where
  "rotation_outcome env gen s p i cr cv w w' \<longleftrightarrow>
     (\<exists>ip. ParseIP ip \<noteq> None \<and> changed_address env gen s p ip w w' \<and> recorded_commit i cr cv s p ip w w') \<or>
     recorded_failure i cr cv (RetryBackoffMax (Rotation (gen_Config gen))) p w w' \<or>
     (unrecorded p i cr cv w w' \<and> \<not> fst (phase p w'))"

lemma screened_literal: "screened env R gen s p b v w ip w1 \<Longrightarrow> ParseIP ip \<noteq> None"
  by (auto simp: screened_def probe_now_def Let_def dest: probeIP_literal)

lemma verify_end_outcome:
  assumes q: "quiet env p i cr cv" and c: "0 < RetryBackoffMax (Rotation (gen_Config gen))"
    "RetryBackoffMax (Rotation (gen_Config gen)) \<le> max_int64"
    and u0: "unrecorded p i cr cv w w1" and cv: "calm p i cr cv w1 wv"
    and base: "baseline_of env gen s p (gap env w) = ((baseline, verified), wb)"
      "calm p i cr cv w1 wb" "calm p i cr cv wb wv"
    and v: "verify_end env (calm p i cr cv) gen s p i baseline verified ra (phased p st wv) out a w'"
  shows "rotation_outcome env gen s p i cr cv w (closing env p i a w')"
proof -
  have uv: "unrecorded p i cr cv w (phased p st wv)"
    using unrecorded_trans u0 unrecorded_steps(1) [OF cv] unrecorded_steps(3) by meson
  show ?thesis
  proof (cases out)
    case Aborted
    then have a: a and "unrecorded p i cr cv w w'"
      using v unrecorded_trans [OF uv unrecorded_steps(1)] by (auto simp: verify_end_def)
    then have "unrecorded p i cr cv w (closing env p i a w')"
      using unrecorded_trans closing_views(1) [OF q] by meson
    with closing_views(2) [OF q a] show ?thesis by (simp add: rotation_outcome_def)
  next
    case Failed
    then obtain wf where a: "\<not> a" and wf: "calm p i cr cv (phased p st wv) wf"
      and w': "w' = rotate_failed env s p i (Rotation (gen_Config gen)) ra wf"
      using v by (auto simp: verify_end_def)
    have "unrecorded p i cr cv w wf" using unrecorded_trans [OF uv unrecorded_steps(1) [OF wf]] .
    then have "recorded_failure i cr cv (RetryBackoffMax (Rotation (gen_Config gen))) p w w'"
      unfolding w' by (rule failure_base [OF failure_recorded [OF q c]])
    with recorded_failure_closing [OF q] a show ?thesis by (simp add: rotation_outcome_def)
  next
    case Committed
    then obtain w0 ip w2 wc where w0: "calm p i cr cv (phased p st wv) w0"
      and s: "screened env (calm p i cr cv) gen s p baseline verified w0 ip w2"
      and cm: "committed_from env s p i ip w2 wc" and w': "w' = gap env wc"
      using v by (auto simp: verify_end_def)
    have u2: "unrecorded p i cr cv w w2"
      using unrecorded_trans uv unrecorded_steps(1) [OF w0]
        unrecorded_steps(1) [OF screened_mem [OF calm_idle [OF q] s]] by meson
    have rc: "recorded_commit i cr cv s p ip w wc"
      by (rule commit_base [OF commit_recorded [OF q cm] u2])
    have ug: "unrecorded p i cr cv wc w'" "phase p w' = phase p wc"
      using unrecorded_gap [OF q] quiet_gap(2) [OF q] w' by auto
    have rc': "recorded_commit i cr cv s p ip w w'" by (rule commit_after [OF rc ug(1)]) (simp add: ug(2))
    have "unrecorded p i cr cv wv w0"
      using unrecorded_trans [OF unrecorded_steps(3) unrecorded_steps(1) [OF w0]] .
    moreover have "later w2 (closing env p i a w')"
      using committed_later [OF cm] ug(1) closing_views(1) [OF q] by (auto simp: unrecorded_def intro: later_trans)
    ultimately have "changed_address env gen s p ip w (closing env p i a w')"
      using commit_changed [OF q u0 base _ s] by blast
    with recorded_commit_closing [OF q rc'] screened_literal [OF s] show ?thesis
      by (auto simp: rotation_outcome_def)
  qed
qed

text \<open>Claim C23: the outcome of a rotation procedure. While nothing else touches the rotation
  record of the route, a procedure ends in one of three ways, whatever else runs. It committed an
  address: one the route's own verified endpoint reported after the baseline, an address literal different from
  the baseline when one was observed between the drain and the rotate call, and from the recorded
  address when none was (because the procedure was cancelled or three probes failed); the record, the
  history, the streak, both counters and the next due time are then exactly those of one more
  rotation, with a revisit counted exactly for an address already verified. Or it failed: the
  history is untouched, the streak grew by one, the route is stale and due again after a positive
  wait of at most the configured ceiling, whatever the provider's hint. Or it stopped for a
  reload or shutdown: nothing was recorded. In all three the route is no longer rotating.\<close>

theorem runProcedure_outcome:
  assumes q: "quiet env p i cr cv" and pos: "0 < IPCheckInterval (Rotation (gen_Config gen))"
    and c: "0 < RetryBackoffMax (Rotation (gen_Config gen))"
      "RetryBackoffMax (Rotation (gen_Config gen)) \<le> max_int64"
    and r: "\<not> rotating (cells (mem w) p)"
  shows "\<exists>w'. runProcedure env gen s p i w = Some w' \<and> rotation_outcome env gen s p i cr cv w w'"
proof -
  let ?w = "gap env w"
  have ug: "unrecorded p i cr cv w ?w" by (rule unrecorded_gap [OF q])
  show ?thesis
  proof (cases "gone env p ?w")
    case True
    have "\<not> fst (phase p ?w)" using r quiet_gap(2) [OF q, of w] by (simp add: phase_def Let_def)
    with ug True show ?thesis
      by (simp add: runProcedure_def Let_def rotation_outcome_def unrecorded_def)
  next
    case False
    obtain a w1 where rot: "rotate env gen s p i ?w = Some (a, w1)"
      and st: "(a \<and> calm p i cr cv (begun p ?w) w1) \<or>
       (\<exists>wr. calm p i cr cv (begun p ?w) wr \<and>
       ((a \<and> calm p i cr cv (phased p RotationRotating wr) w1) \<or>
        (\<exists>wv baseline verified retryAfter out. calm p i cr cv (phased p RotationRotating wr) wv \<and>
           (\<exists>wb. baseline_of env gen s p ?w = ((baseline, verified), wb) \<and>
              calm p i cr cv (phased p RotationRotating wr) wb \<and> calm p i cr cv wb wv) \<and>
           verify_end env (calm p i cr cv) gen s p i baseline verified retryAfter (phased p RotationVerifying wv) out a w1)))"
      using rotate_stages [OF calm_idle [OF q] pos, of s p i ?w] by meson
    have run: "runProcedure env gen s p i w = Some (closing env p i a w1)"
      using rot False by (simp add: runProcedure_def closing_def Let_def)
    have ub: "unrecorded p i cr cv w (begun p ?w)" using unrecorded_trans [OF ug unrecorded_steps(2)] .
    have stopped: "rotation_outcome env gen s p i cr cv w (closing env p i a w1)"
      if "a" "unrecorded p i cr cv w w1"
      using unrecorded_trans [OF that(2) closing_views(1) [OF q, of w1 a]] closing_views(2) [OF q that(1)]
      by (simp add: rotation_outcome_def)
    have "rotation_outcome env gen s p i cr cv w (closing env p i a w1)"
      using st
    proof (elim disjE exE conjE)
      assume "a" "calm p i cr cv (begun p ?w) w1"
      then show ?thesis using stopped unrecorded_trans [OF ub unrecorded_steps(1)] by blast
    next
      fix wr
      assume "calm p i cr cv (begun p ?w) wr" "a" "calm p i cr cv (phased p RotationRotating wr) w1"
      then show ?thesis
        using stopped unrecorded_trans ub unrecorded_steps(1) unrecorded_steps(3) by meson
    next
      fix wr wv baseline verified ra out wb
      assume w: "calm p i cr cv (begun p ?w) wr" "calm p i cr cv (phased p RotationRotating wr) wv"
        and b: "baseline_of env gen s p ?w = ((baseline, verified), wb)"
          "calm p i cr cv (phased p RotationRotating wr) wb" "calm p i cr cv wb wv"
        and v: "verify_end env (calm p i cr cv) gen s p i baseline verified ra (phased p RotationVerifying wv) out a w1"
      have "unrecorded p i cr cv w (phased p RotationRotating wr)"
        using unrecorded_trans ub unrecorded_steps(1) [OF w(1)] unrecorded_steps(3) by meson
      from verify_end_outcome [OF q c this w(2) b v] show ?thesis .
    qed
    with run show ?thesis by blast
  qed
qed

theorem runProcedure_outcome_witness:
  "\<exists>w'. runProcedure (demo_rotate_env (\<lambda>_ x. x)) demo_rotating demo_manual 0 ''m'' demo_world = Some w' \<and>
     rotation_outcome (demo_rotate_env (\<lambda>_ x. x)) demo_rotating demo_manual 0 ''m'' (\<lambda>_. 0) (\<lambda>_. 0) demo_world w'"
proof (rule runProcedure_outcome)
  show "quiet (demo_rotate_env (\<lambda>_ x. x)) 0 ''m'' (\<lambda>_. 0) (\<lambda>_. 0)"
    by (simp add: quiet_def gap_def demo_rotate_env_def frame_simps)
qed (rule demo_bounds)+

end
