(* ===== verification/Scheduler.thy ===== *)
theory Scheduler
  imports Rotate
begin

text \<open>
  The scheduler of the rotation engine: what one evaluation admits, and the slots it shares with
  the procedures it starts. Evaluations, procedures that end, reloads and every other change of
  the routes interleave in \<open>slot_step\<close>.
\<close>

section \<open>One evaluation\<close>

text \<open>The routes an evaluation may start, in configuration order.\<close>

definition ready :: "generation \<Rightarrow> heap \<Rightarrow> instant \<Rightarrow> engine \<Rightarrow> manual_route_spec \<Rightarrow> bool" where
  "ready gen h now e s \<longleftrightarrow> map_of (active e) (spec_id s) = None \<and>
     (\<exists>d. due e (spec_id s) = Some d \<and> d \<le> now) \<and> Lookup (gen_Pool gen) h (spec_id s) \<noteq> None"

definition start_of :: "generation \<Rightarrow> heap \<Rightarrow> manual_route_spec \<Rightarrow> manual_route_spec \<times> pref" where
  "start_of gen h s = (s, the (Lookup (gen_Pool gen) h (spec_id s)))"

definition slot_of :: "manual_route_spec \<times> pref \<Rightarrow> string \<times> pref" where
  "slot_of x = (spec_id (fst x), snd x)"

lemma update_new: "k \<notin> set (keys m) \<Longrightarrow> AList.update k v m = m @ [(k, v)]"
  by (induction m) auto

lemma map_of_keys: "map_of m k = None \<longleftrightarrow> k \<notin> set (keys m)"
  by (simp add: keys_def map_of_eq_None_iff)

lemma keys_append [simp]: "keys (a @ b) = keys a @ keys b"
  by (simp add: keys_def)

lemma ready_other:
  "spec_id s \<noteq> i \<Longrightarrow> ready gen h now (e\<lparr>active := active e @ [(i, p)]\<rparr>) s = ready gen h now e s"
  by (simp add: ready_def map_of_keys)

lemma admit_take:
  assumes "distinct (map spec_id ss)"
  shows "admit gen h cap now ss n e =
    (let started = map (start_of gen h) (take (nat (cap - n)) (filter (ready gen h now e) ss))
     in (e\<lparr>active := active e @ map slot_of started\<rparr>, started))"
  using assms
proof (induction ss arbitrary: n e)
  case (Cons s ss)
  let ?i = "spec_id s"
  show ?case
  proof (cases "map_of (active e) ?i = None \<and> (\<exists>d. due e ?i = Some d \<and> d \<le> now)")
    case False
    then have "\<not> ready gen h now e s" by (auto simp: ready_def)
    moreover have "admit gen h cap now (s # ss) n e = admit gen h cap now ss n e"
      using False by (auto simp: Let_def split: option.splits)
    ultimately show ?thesis using Cons by simp
  next
    case True
    then obtain d where d: "due e ?i = Some d" "d \<le> now" by blast
    show ?thesis
    proof (cases "cap \<le> n")
      case c: True
      then have "admit gen h cap now (s # ss) n e = (e, [])" using True d by (simp add: Let_def)
      then show ?thesis using c by simp
    next
      case cn: False
      show ?thesis
      proof (cases "Lookup (gen_Pool gen) h ?i")
        case None
        then have "\<not> ready gen h now e s" by (simp add: ready_def)
        moreover have "admit gen h cap now (s # ss) n e = admit gen h cap now ss n e"
          using True d cn None by (simp add: Let_def)
        ultimately show ?thesis using Cons by simp
      next
        case (Some p)
        then have r: "ready gen h now e s" using True d by (simp add: ready_def)
        let ?e = "e\<lparr>active := active e @ [(?i, p)]\<rparr>"
        have up: "AList.update ?i p (active e) = active e @ [(?i, p)]"
          using True by (simp add: map_of_keys update_new)
        have same: "filter (ready gen h now ?e) ss = filter (ready gen h now e) ss"
        proof (intro filter_cong refl ready_other)
          show "spec_id x \<noteq> ?i" if "x \<in> set ss" for x
            using Cons.prems imageI [OF that, of spec_id] by auto
        qed
        have "nat (cap - n) = Suc (nat (cap - (n + 1)))" using cn by simp
        moreover have "admit gen h cap now (s # ss) n e =
            (let (e', started) = admit gen h cap now ss (n + 1) ?e in (e', (s, p) # started))"
          using True d cn Some up by (simp add: Let_def)
        ultimately show ?thesis
          using Cons.IH [of "n + 1" ?e] Cons.prems r same Some
          by (simp add: Let_def start_of_def slot_of_def)
      qed
    qed
  qed
qed simp

lemma schedule_new_eq:
  "schedule_new now ss e =
     e\<lparr>due := (\<lambda>i. if due e i = None \<and> i \<in> set (map spec_id ss) then Some now else due e i)\<rparr>"
proof (induction ss arbitrary: e)
  case (Cons s ss)
  show ?case
    by (simp add: Cons.IH) (auto simp: setDue_def fun_eq_iff intro!: engine.equality)
qed simp

lemma abandon_all_cells:
  "cells (abandon_all ps h) q = (if q \<in> set ps then AbandonRotation (cells h q) else cells h q)"
  "brk (abandon_all ps h) = brk h"
proof -
  have idem: "AbandonRotation (AbandonRotation x) = AbandonRotation x" for x
    by (simp add: AbandonRotation_def in_rotation_def Let_def)
  show "cells (abandon_all ps h) q = (if q \<in> set ps then AbandonRotation (cells h q) else cells h q)"
    by (induction ps h rule: abandon_all.induct) (auto simp: upd_def idem)
  show "brk (abandon_all ps h) = brk h"
    by (induction ps h rule: abandon_all.induct) (simp_all add: upd_def)
qed

lemma abandon_identity:
  "URL (cells (abandon_all ps h) q) = URL (cells h q)" "Kind (cells (abandon_all ps h) q) = Kind (cells h q)"
  "Origin (cells (abandon_all ps h) q) = Origin (cells h q)"
  by (simp_all add: abandon_all_cells AbandonRotation_def Let_def)

definition current_ids :: "generation \<Rightarrow> string set" where
  "current_ids gen = set (map spec_id (ManualRoutes (gen_Config gen)))"

definition kept_slots :: "generation \<Rightarrow> engine \<Rightarrow> (string \<times> pref) list" where
  "kept_slots gen e = filter (\<lambda>(i, p). i \<in> current_ids gen) (active e)"

definition wanted :: "generation \<Rightarrow> heap \<Rightarrow> instant \<Rightarrow> engine \<Rightarrow> manual_route_spec \<Rightarrow> bool" where
  "wanted gen h now e s \<longleftrightarrow> map_of (active e) (spec_id s) = None \<and>
     (case due e (spec_id s) of None \<Rightarrow> True | Some d \<Rightarrow> d \<le> now) \<and>
     Lookup (gen_Pool gen) h (spec_id s) \<noteq> None"

lemma map_of_filter: "i \<in> S \<Longrightarrow> map_of (filter (\<lambda>(i, p). i \<in> S) m) i = map_of m i"
  by (induction m) auto

lemma keys_filter: "distinct (keys m) \<Longrightarrow> distinct (keys (filter f m))"
  unfolding keys_def by (rule distinct_map_filter)

definition same_identity :: "heap \<Rightarrow> heap \<Rightarrow> bool" where
  "same_identity h h' \<longleftrightarrow> brk h' = brk h \<and>
     (\<forall>q. URL (cells h' q) = URL (cells h q) \<and> Kind (cells h' q) = Kind (cells h q) \<and>
          Origin (cells h' q) = Origin (cells h q))"

lemma evaluate_spec:
  assumes "distinct (map spec_id (ManualRoutes (gen_Config gen)))"
    and "evaluate gen now e h = ((e', h'), started)"
  shows "due e' = (\<lambda>i. if i \<in> current_ids gen then (case due e i of None \<Rightarrow> Some now | Some d \<Rightarrow> Some d) else None)"
    and "consec e' = (\<lambda>i. if i \<notin> current_ids gen \<and> due e i \<noteq> None then 0 else consec e i)"
    and "\<forall>q. cells h' q = (if q \<in> snd ` {x \<in> set (active e). fst x \<notin> current_ids gen}
       then AbandonRotation (cells h q) else cells h q)"
    and "started = map (start_of gen h')
      (take (nat (rotation_cap gen - int (length (kept_slots gen e))))
        (filter (wanted gen h' now e) (ManualRoutes (gen_Config gen))))"
    and "active e' = kept_slots gen e @ map slot_of started" and "same_identity h h'"
    and "rotations e' = rotations e \<and> ipRevisits e' = ipRevisits e"
proof -
  let ?specs = "ManualRoutes (gen_Config gen)" let ?cur = "current_ids gen"
  define e1 where "e1 = drop_gone ?cur (schedule_new now ?specs e)"
  define e2 where "e2 = e1\<lparr>active := kept_slots gen e\<rparr>"
  define h2 where "h2 = abandon_all (map snd (filter (\<lambda>(i, p). i \<notin> ?cur) (active e))) h"
  have a1: "active e1 = active e" "rotations e1 = rotations e" "ipRevisits e1 = ipRevisits e"
    and d1: "due e1 = (\<lambda>i. if i \<in> ?cur then (case due e i of None \<Rightarrow> Some now | Some d \<Rightarrow> Some d) else None)"
    and c1: "consec e1 = (\<lambda>i. if i \<notin> ?cur \<and> due e i \<noteq> None then 0 else consec e i)"
    by (auto simp: e1_def drop_gone_def schedule_new_eq current_ids_def fun_eq_iff split: option.split)
  have slots: "drop_slots ?cur e1 h = (e2, h2)"
    by (simp add: drop_slots_def e2_def h2_def a1 kept_slots_def)
  have ready: "filter (ready gen h2 now e2) ?specs = filter (wanted gen h2 now e) ?specs"
  proof (rule filter_cong [OF refl])
    fix s assume "s \<in> set ?specs"
    then have c: "spec_id s \<in> ?cur" by (simp add: current_ids_def)
    then have "map_of (kept_slots gen e) (spec_id s) = map_of (active e) (spec_id s)"
      by (simp add: kept_slots_def map_of_filter)
    with c show "ready gen h2 now e2 s = wanted gen h2 now e s"
      by (auto simp: ready_def wanted_def e2_def d1 split: option.split)
  qed
  have ev: "evaluate gen now e h = (let (e', started) =
      admit gen h2 (rotation_cap gen) now ?specs (int (length (kept_slots gen e))) e2 in ((e', h2), started))"
    using slots by (simp add: evaluate_def Let_def e1_def current_ids_def e2_def)
  from assms(2) have h': "h' = h2" and ad:
    "started = map (start_of gen h2) (take (nat (rotation_cap gen - int (length (kept_slots gen e))))
       (filter (wanted gen h2 now e) ?specs))"
    "e' = e2\<lparr>active := active e2 @ map slot_of started\<rparr>"
    unfolding ev admit_take [OF assms(1)] ready by (auto simp: Let_def)
  have "snd ` {x \<in> set (active e). fst x \<notin> ?cur} = set (map snd (filter (\<lambda>(i, p). i \<notin> ?cur) (active e)))"
    by (auto simp: image_iff case_prod_beta)
  then show "\<forall>q. cells h' q = (if q \<in> snd ` {x \<in> set (active e). fst x \<notin> ?cur}
       then AbandonRotation (cells h q) else cells h q)"
    by (simp add: h' h2_def abandon_all_cells)
  show "due e' = (\<lambda>i. if i \<in> current_ids gen then (case due e i of None \<Rightarrow> Some now | Some d \<Rightarrow> Some d) else None)"
    "consec e' = (\<lambda>i. if i \<notin> current_ids gen \<and> due e i \<noteq> None then 0 else consec e i)" "active e' = kept_slots gen e @ map slot_of started"
    "rotations e' = rotations e \<and> ipRevisits e' = ipRevisits e"
    using ad d1 c1 a1 by (simp_all add: e2_def)
  show "started = map (start_of gen h') (take (nat (rotation_cap gen - int (length (kept_slots gen e))))
      (filter (wanted gen h' now e) (ManualRoutes (gen_Config gen))))"
    using ad by (simp add: h')
  show "same_identity h h'" by (simp add: h' h2_def same_identity_def abandon_identity abandon_all_cells(2))
qed

text \<open>Claim C26: what an evaluation does, exactly. The schedule afterwards names the current
  manual routes: a route that is new is due at once, one that is gone is forgotten with its
  streak. Slots of routes that are gone are freed and their routes marked as not rotating;
  nothing else of any route changes. Then the due routes without a slot that are in the pool are
  started in configuration order, exactly as many as the cap leaves room for, and take their
  slots: the cap is not exceeded by admission and no due route waits while there is room.\<close>

theorem evaluate_admits:
  assumes "distinct (map spec_id (ManualRoutes (gen_Config gen)))"
    and "evaluate gen now e h = ((e', h'), started)"
  shows "due e' = (\<lambda>i. if i \<in> current_ids gen then (case due e i of None \<Rightarrow> Some now | Some d \<Rightarrow> Some d) else None) \<and>
    consec e' = (\<lambda>i. if i \<notin> current_ids gen \<and> due e i \<noteq> None then 0 else consec e i) \<and>
    (\<forall>q. cells h' q = (if q \<in> snd ` {x \<in> set (active e). fst x \<notin> current_ids gen}
       then AbandonRotation (cells h q) else cells h q)) \<and>
    started = map (start_of gen h')
      (take (nat (rotation_cap gen - int (length (kept_slots gen e))))
        (filter (wanted gen h' now e) (ManualRoutes (gen_Config gen)))) \<and>
    active e' = kept_slots gen e @ map slot_of started \<and>
    rotations e' = rotations e \<and> ipRevisits e' = ipRevisits e"
  using evaluate_spec [OF assms] by blast

theorem evaluate_admits_witness:
  "\<exists>e' h' started. evaluate demo_rotating 7 new_engine (mem demo_world) = ((e', h'), started) \<and>
     due e' (spec_id demo_manual) = Some 7"
proof -
  obtain e' h' started where ev: "evaluate demo_rotating 7 new_engine (mem demo_world) = ((e', h'), started)"
    by (metis surj_pair)
  have "distinct (map spec_id (ManualRoutes (gen_Config demo_rotating)))"
    by (simp add: demo_rotating_def NewGeneration_def)
  from evaluate_admits [OF this ev] have "due e' (spec_id demo_manual) = Some 7"
    by (simp add: current_ids_def demo_rotating_def NewGeneration_def new_engine_def)
  with ev show ?thesis by blast
qed

section \<open>Slots and procedures\<close>

text \<open>What configuration loading guarantees: one identity namespace over both origins.\<close>

definition cfg_ok :: "runtime_config \<Rightarrow> bool" where
  "cfg_ok cfg \<longleftrightarrow> distinct (map (\<lambda>r. CanonicalRouteID (spec_URL r)) (AllRoutes cfg)) \<and>
     (\<forall>r \<in> set (Routes_auto cfg). effectiveOrigin (spec_Origin r) = RouteOriginAuto) \<and>
     (\<forall>s \<in> set (ManualRoutes cfg). spec_Origin (RouteSpec s) = RouteOriginManual)"

record slot_sys =
  ss_heap :: heap
  ss_gen :: generation
  ss_loaded :: generation
  ss_engine :: engine
  ss_running :: "(string \<times> pref) list"
  ss_stopped :: bool

inductive slot_step :: "slot_sys \<Rightarrow> slot_sys \<Rightarrow> bool" where
  load: "slot_step s (s\<lparr>ss_loaded := ss_gen s\<rparr>)"
| eval: "\<not> ss_stopped s \<Longrightarrow>
    evaluate (ss_loaded s) now (ss_engine s) (ss_heap s) = ((e, h), started) \<Longrightarrow>
    slot_step s (s\<lparr>ss_engine := e, ss_heap := h, ss_running := ss_running s @ map slot_of started\<rparr>)"
| finish: "(i, p) \<in> set (ss_running s) \<Longrightarrow>
    slot_step s (s\<lparr>ss_engine := finishProcedure i p (ss_engine s),
                   ss_running := remove1 (i, p) (ss_running s)\<rparr>)"
| books: "active e = active (ss_engine s) \<Longrightarrow> slot_step s (s\<lparr>ss_engine := e\<rparr>)"
| routes: "same_identity (ss_heap s) h \<Longrightarrow> slot_step s (s\<lparr>ss_heap := h\<rparr>)"
| reload: "cfg_ok cfg \<Longrightarrow> Publish cfg (ss_gen s) (ss_heap s) = (h, g) \<Longrightarrow>
    slot_step s (s\<lparr>ss_heap := h, ss_gen := g\<rparr>)"
| shutdown: "abortAll (ss_engine s) (ss_heap s) = (e, h) \<Longrightarrow>
    slot_step s (s\<lparr>ss_engine := e, ss_heap := h, ss_stopped := True\<rparr>)"

inductive_cases slot_stepE: "slot_step s s'"

text \<open>A generation whose pool was built from its configuration.\<close>

definition built :: "heap \<Rightarrow> generation \<Rightarrow> bool" where
  "built h g \<longleftrightarrow> pool_wf h (gen_Pool g) \<and> cfg_ok (gen_Config g) \<and>
     map (\<lambda>e. route_key (cells h e)) (entries (gen_Pool g)) = map spec_key (AllRoutes (gen_Config g))"

inductive slot_reachable :: "slot_sys \<Rightarrow> bool" where
  start: "built h g \<Longrightarrow> active e = [] \<Longrightarrow>
    slot_reachable \<lparr>ss_heap = h, ss_gen = g, ss_loaded = g, ss_engine = e, ss_running = [], ss_stopped = False\<rparr>"
| step: "slot_reachable s \<Longrightarrow> slot_step s s' \<Longrightarrow> slot_reachable s'"

text \<open>The key under which the engine files a route.\<close>

definition file_key :: "heap \<Rightarrow> pref \<Rightarrow> string" where
  "file_key h p = CanonicalRouteID (URL (cells h p)) @ ''|'' @ kind_string (Kind (cells h p))"

definition is_manual :: "heap \<Rightarrow> pref \<Rightarrow> bool" where
  "is_manual h p \<longleftrightarrow> Origin (cells h p) = RouteOriginManual"

lemma same_identity_keys:
  assumes "same_identity h h'"
  shows "file_key h' p = file_key h p" "is_manual h' p = is_manual h p" "route_key (cells h' p) = route_key (cells h p)"
    "brk h' = brk h" "built h' g = built h g"
proof -
  show k: "file_key h' p = file_key h p" "is_manual h' p = is_manual h p"
    "route_key (cells h' p) = route_key (cells h p)" "brk h' = brk h" for p
    using assms by (simp_all add: same_identity_def file_key_def is_manual_def route_key_def)
  show "built h' g = built h g" by (simp add: built_def pool_wf_def k)
qed

lemma file_key_id: "kind_string k = kind_string l \<longleftrightarrow> k = l"
  by (cases k; cases l) simp_all

lemma kind_no_bar: "CHR ''|'' \<notin> set (kind_string k)"
  by (cases k) simp_all

lemma file_key_eq:
  "CanonicalRouteID u @ ''|'' @ kind_string k = CanonicalRouteID v @ ''|'' @ kind_string l \<longleftrightarrow>
     CanonicalRouteID u = CanonicalRouteID v \<and> k = l"
  using last_sep_unique [OF kind_no_bar kind_no_bar, of "CanonicalRouteID u" k "CanonicalRouteID v" l]
  by (auto simp: file_key_id)

lemma entry_spec:
  assumes "built h g" and "p \<in> set (entries (gen_Pool g))"
  shows "\<exists>r \<in> set (AllRoutes (gen_Config g)). CanonicalRouteID (spec_URL r) = CanonicalRouteID (URL (cells h p)) \<and>
    spec_Kind r = Kind (cells h p) \<and> effectiveOrigin (spec_Origin r) = effectiveOrigin (Origin (cells h p))"
proof -
  have "route_key (cells h p) \<in> spec_key ` set (AllRoutes (gen_Config g))"
    using assms by (metis built_def image_eqI list.set_map)
  then show ?thesis by (auto simp: route_key_def spec_key_def routeKey_eq)
qed

lemma manual_origin: "effectiveOrigin o1 = RouteOriginManual \<longleftrightarrow> o1 = RouteOriginManual"
  by (auto simp: effectiveOrigin_def)

text \<open>A manual route of the pool is one of the configured manual routes, filed under its key.\<close>

lemma manual_entry_current:
  assumes b: "built h g" and p: "p \<in> set (entries (gen_Pool g))" and m: "is_manual h p"
  shows "file_key h p \<in> current_ids g"
proof -
  obtain r where r: "r \<in> set (AllRoutes (gen_Config g))"
    "CanonicalRouteID (spec_URL r) = CanonicalRouteID (URL (cells h p))" "spec_Kind r = Kind (cells h p)"
    "effectiveOrigin (spec_Origin r) = RouteOriginManual"
    using entry_spec [OF b p] m by (auto simp: is_manual_def effectiveOrigin_def)
  have "r \<notin> set (Routes_auto (gen_Config g))" using b r(4) by (auto simp: built_def cfg_ok_def)
  with r(1) obtain s where "s \<in> set (ManualRoutes (gen_Config g))" "r = RouteSpec s"
    by (auto simp: AllRoutes_def)
  with r(2,3) show ?thesis
    by (auto simp: current_ids_def file_key_def spec_id_def engine_routeID_def intro!: image_eqI [of _ _ s])
qed

lemma lookup_manual:
  assumes b: "built h g" and s: "s \<in> set (ManualRoutes (gen_Config g))"
    and l: "Lookup (gen_Pool g) h (spec_id s) = Some p"
  shows "p \<in> set (entries (gen_Pool g)) \<and> file_key h p = spec_id s \<and> is_manual h p"
proof -
  have p: "p \<in> set (entries (gen_Pool g))" "file_key h p = spec_id s"
    using l by (auto simp: Lookup_def find_Some_iff file_key_def in_set_conv_nth)
  obtain r where r: "r \<in> set (AllRoutes (gen_Config g))"
    "CanonicalRouteID (spec_URL r) = CanonicalRouteID (URL (cells h p))"
    "effectiveOrigin (spec_Origin r) = effectiveOrigin (Origin (cells h p))"
    using entry_spec [OF b p(1)] by blast
  have "CanonicalRouteID (spec_URL r) = CanonicalRouteID (spec_URL (RouteSpec s))"
    using r(2) p(2) by (simp add: file_key_def spec_id_def engine_routeID_def file_key_eq [simplified])
  moreover have "RouteSpec s \<in> set (AllRoutes (gen_Config g))" using s by (simp add: AllRoutes_def)
  ultimately have "r = RouteSpec s"
    using b r(1) by (auto simp: built_def cfg_ok_def distinct_map dest: inj_onD)
  then have "effectiveOrigin (Origin (cells h p)) = RouteOriginManual"
    using b s r(3) by (auto simp: built_def cfg_ok_def effectiveOrigin_def)
  then show ?thesis using p by (simp add: is_manual_def manual_origin)
qed

lemma manual_ids_distinct:
  assumes "cfg_ok cfg"
  shows "distinct (map spec_id (ManualRoutes cfg))"
proof -
  have d: "distinct (map (\<lambda>s. CanonicalRouteID (spec_URL (RouteSpec s))) (ManualRoutes cfg))"
    using assms by (simp add: cfg_ok_def AllRoutes_def comp_def)
  show ?thesis
    unfolding distinct_map
  proof (intro conjI inj_onI)
    show "distinct (ManualRoutes cfg)" using d by (simp add: distinct_map)
    show "x = y" if "x \<in> set (ManualRoutes cfg)" "y \<in> set (ManualRoutes cfg)" "spec_id x = spec_id y" for x y
      using d that by (auto simp: distinct_map spec_id_def engine_routeID_def file_key_eq [simplified] dest: inj_onD)
  qed
qed

text \<open>The invariant: every slot is held by a procedure that runs; a procedure runs once, on a
  manual route filed under its key; and one without a slot is on a route that has left.\<close>

definition proc_ok :: "slot_sys \<Rightarrow> string \<Rightarrow> pref \<Rightarrow> bool" where
  "proc_ok s i p \<longleftrightarrow> p < brk (ss_heap s) \<and> file_key (ss_heap s) p = i \<and> is_manual (ss_heap s) p \<and>
     (p \<in> set (entries (gen_Pool (ss_gen s))) \<longrightarrow> p \<in> set (entries (gen_Pool (ss_loaded s)))) \<and>
     (\<not> ss_stopped s \<longrightarrow> map_of (active (ss_engine s)) i = Some p \<or> p \<notin> set (entries (gen_Pool (ss_loaded s))))"

definition slots_ok :: "slot_sys \<Rightarrow> bool" where
  "slots_ok s \<longleftrightarrow>
     built (ss_heap s) (ss_gen s) \<and> built (ss_heap s) (ss_loaded s) \<and>
     distinct (keys (active (ss_engine s))) \<and> distinct (ss_running s) \<and>
     set (active (ss_engine s)) \<subseteq> set (ss_running s) \<and>
     (\<forall>i p. (i, p) \<in> set (ss_running s) \<longrightarrow> proc_ok s i p)"

lemma slots_procD: "slots_ok s \<Longrightarrow> (i, p) \<in> set (ss_running s) \<Longrightarrow> proc_ok s i p"
  by (simp add: slots_ok_def)

lemma slots_start:
  "built h g \<Longrightarrow> active e = [] \<Longrightarrow>
    slots_ok \<lparr>ss_heap = h, ss_gen = g, ss_loaded = g, ss_engine = e, ss_running = [], ss_stopped = False\<rparr>"
  by (simp add: slots_ok_def)

lemma slots_load: "slots_ok s \<Longrightarrow> slots_ok (s\<lparr>ss_loaded := ss_gen s\<rparr>)"
  by (auto simp: slots_ok_def proc_ok_def)

lemma slots_heap:
  assumes "slots_ok s" and i: "same_identity (ss_heap s) h"
  shows "slots_ok (s\<lparr>ss_heap := h\<rparr>)"
  using assms(1) by (simp add: slots_ok_def proc_ok_def same_identity_keys [OF i])

lemma slots_finish:
  assumes "slots_ok s" and x: "(i, p) \<in> set (ss_running s)"
  shows "slots_ok (s\<lparr>ss_engine := finishProcedure i p (ss_engine s), ss_running := remove1 (i, p) (ss_running s)\<rparr>)"
proof -
  let ?a = "active (ss_engine s)"
  let ?a' = "active (finishProcedure i p (ss_engine s))"
  have a': "?a' = (if map_of ?a i = Some p then AList.delete i ?a else ?a)"
    by (simp add: finishProcedure_def)
  have d: "distinct (keys ?a)" "distinct (ss_running s)" and sub: "set ?a \<subseteq> set (ss_running s)"
    using assms(1) by (auto simp: slots_ok_def)
  have run: "set (remove1 (i, p) (ss_running s)) = set (ss_running s) - {(i, p)}"
    using d(2) by simp
  have "(i, p) \<notin> set ?a'"
  proof (cases "map_of ?a i = Some p")
    case True
    then show ?thesis using a' by (auto simp: AList.delete_eq)
  next
    case False
    then show ?thesis using a' d(1) by (auto simp: keys_def)
  qed
  moreover have "set ?a' \<subseteq> set ?a" using a' by (auto dest: delete_mem)
  ultimately have sub': "set ?a' \<subseteq> set (remove1 (i, p) (ss_running s))" using sub run by auto
  have m: "map_of ?a' j = map_of ?a j" if "(j, q) \<in> set (ss_running s)" "(j, q) \<noteq> (i, p)" "map_of ?a j = Some q" for j q
    using that a' by (auto simp: map_of_delete)
  have dk: "distinct (keys ?a')" using d(1) a' by (simp add: distinct_keys_delete)
  let ?s = "s\<lparr>ss_engine := finishProcedure i p (ss_engine s), ss_running := remove1 (i, p) (ss_running s)\<rparr>"
  have "proc_ok ?s j q" if r: "(j, q) \<in> set (remove1 (i, p) (ss_running s))" for j q
  proof -
    from r run have r': "(j, q) \<in> set (ss_running s)" "(j, q) \<noteq> (i, p)" by auto
    show ?thesis using slots_procD [OF assms(1) r'(1)] m [OF r'] by (auto simp: proc_ok_def)
  qed
  then show ?thesis
    using assms(1) sub' d(2) dk by (simp add: slots_ok_def distinct_remove1)
qed

lemma slots_books: "slots_ok s \<Longrightarrow> active e = active (ss_engine s) \<Longrightarrow> slots_ok (s\<lparr>ss_engine := e\<rparr>)"
  by (simp add: slots_ok_def proc_ok_def)

lemma slots_shutdown:
  assumes "slots_ok s" and "abortAll (ss_engine s) (ss_heap s) = (e, h)"
  shows "slots_ok (s\<lparr>ss_engine := e, ss_heap := h, ss_stopped := True\<rparr>)"
proof -
  have e: "active e = []" and i: "same_identity (ss_heap s) h"
    using assms(2) by (auto simp: abortAll_def same_identity_def abandon_identity abandon_all_cells(2))
  show ?thesis
    using assms(1) by (simp add: slots_ok_def proc_ok_def same_identity_keys [OF i] e)
qed

lemma spec_keys_distinct:
  assumes "cfg_ok cfg"
  shows "distinct (map spec_key (AllRoutes cfg))"
  unfolding distinct_map
proof (intro conjI inj_onI)
  show "distinct (AllRoutes cfg)" using assms by (simp add: cfg_ok_def distinct_map)
  show "x = y" if "x \<in> set (AllRoutes cfg)" "y \<in> set (AllRoutes cfg)" "spec_key x = spec_key y" for x y
    using assms that by (auto simp: cfg_ok_def distinct_map spec_key_def routeKey_eq dest: inj_onD)
qed

lemma Publish_built:
  assumes "built h g" and c: "cfg_ok cfg" and p: "Publish cfg g h = (h', g')"
  shows "built h' g' \<and> gen_Config g' = cfg \<and> gen_Router g' = Routing cfg \<and>
    list_all2 (\<lambda>r p. label (gen_Pool g') p = spec_ID r) (AllRoutes cfg) (entries (gen_Pool g'))"
proof -
  obtain pl where r: "Reconfigure (gen_Pool g) (AllRoutes cfg) (CooldownBase cfg) (CooldownMax cfg) h = (h', pl)"
    and g: "g' = NewGeneration cfg pl"
    using p by (auto simp: Publish_def split: prod.splits)
  have wf: "pool_wf h (gen_Pool g)" using assms(1) by (simp add: built_def)
  note spec = Reconfigure_spec [OF wf spec_keys_distinct [OF c] r]
  have "map (\<lambda>e. route_key (cells h' e)) (entries pl) = map spec_key (AllRoutes cfg)"
    using spec(1) by (auto simp: list_all2_conv_all_nth reload_entry_def intro: nth_equalityI)
  then show ?thesis
    using Reconfigure_wf [OF wf spec_keys_distinct [OF c] r] c spec(6) by (simp add: built_def g NewGeneration_def)
qed

lemma slots_reload:
  assumes ok: "slots_ok s" and c: "cfg_ok cfg" and p: "Publish cfg (ss_gen s) (ss_heap s) = (h, g)"
  shows "slots_ok (s\<lparr>ss_heap := h, ss_gen := g\<rparr>)"
proof -
  let ?pl = "gen_Pool (ss_gen s)"
  obtain pl where r: "Reconfigure ?pl (AllRoutes cfg) (CooldownBase cfg) (CooldownMax cfg) (ss_heap s) = (h, pl)"
    and g: "g = NewGeneration cfg pl"
    using p by (auto simp: Publish_def split: prod.splits)
  have b: "built (ss_heap s) (ss_gen s)" "built (ss_heap s) (ss_loaded s)" using ok by (simp_all add: slots_ok_def)
  have wf: "pool_wf (ss_heap s) ?pl" using b(1) by (simp add: built_def)
  note dk = spec_keys_distinct [OF c]
  note spec = Reconfigure_spec [OF wf dk r]
  have b': "built h g" using Publish_built [OF b(1) c p] by simp
  have old: "cells h q = cells (ss_heap s) q" if "q < brk (ss_heap s)" for q using spec(2) that by simp
  have bl: "built h (ss_loaded s)"
    using b(2) old spec(3) by (auto simp: built_def pool_wf_def cong: map_cong)
  have kept: "q \<in> set (entries ?pl)" if q: "q \<in> set (entries pl)" and lt: "q < brk (ss_heap s)" for q
  proof -
    obtain n where n: "n < length (entries pl)" "entries pl ! n = q"
      using q unfolding in_set_conv_nth by blast
    then have "reload_entry ?pl (ss_heap s) h (AllRoutes cfg ! n) q"
      using spec(1) by (auto simp: list_all2_conv_all_nth)
    then show ?thesis using lt by (auto simp: reload_entry_def split: if_splits)
  qed
  have same: "file_key h q = file_key (ss_heap s) q" "is_manual h q = is_manual (ss_heap s) q"
    if "q < brk (ss_heap s)" for q
    using old [OF that] by (simp_all add: file_key_def is_manual_def)
  have brk: "brk (ss_heap s) \<le> brk h" using spec(3) by simp
  have g': "gen_Pool g = pl" by (simp add: g NewGeneration_def)
  have "proc_ok (s\<lparr>ss_heap := h, ss_gen := g\<rparr>) i p" if "(i, p) \<in> set (ss_running s)" for i p
  proof -
    note o = slots_procD [OF ok that, unfolded proc_ok_def]
    then have lt: "p < brk (ss_heap s)" by simp
    show ?thesis using o same [OF lt] kept [OF _ lt] brk g' by (auto simp: proc_ok_def)
  qed
  then show ?thesis using ok b' bl by (simp add: slots_ok_def)
qed

lemma evaluate_fresh:
  assumes built: "built (ss_heap s) (ss_loaded s)" and keysa: "distinct (keys (active (ss_engine s)))"
    and ev: "evaluate (ss_loaded s) now (ss_engine s) (ss_heap s) = ((e, h), started)"
  shows "same_identity (ss_heap s) h"
    and "active e = kept_slots (ss_loaded s) (ss_engine s) @ map slot_of started"
    and "(i, p) \<in> set (map slot_of started) \<Longrightarrow>
      i \<in> current_ids (ss_loaded s) \<and> map_of (active (ss_engine s)) i = None \<and>
      p \<in> set (entries (gen_Pool (ss_loaded s))) \<and> file_key (ss_heap s) p = i \<and> is_manual (ss_heap s) p"
    and "distinct (map slot_of started)" and "distinct (keys (active e))"
proof -
  let ?g = "ss_loaded s" let ?a = "active (ss_engine s)" let ?fresh = "map slot_of started"
  let ?kept = "kept_slots ?g (ss_engine s)"
  have ids: "distinct (map spec_id (ManualRoutes (gen_Config ?g)))"
    using built by (auto simp: built_def intro: manual_ids_distinct)
  note adm = evaluate_spec [OF ids ev]
  show id: "same_identity (ss_heap s) h" using adm(6) .
  show act: "active e = ?kept @ ?fresh" using adm(5) by simp
  show new: "i \<in> current_ids ?g \<and> map_of ?a i = None \<and> p \<in> set (entries (gen_Pool ?g)) \<and>
      file_key (ss_heap s) p = i \<and> is_manual (ss_heap s) p" if f: "(i, p) \<in> set ?fresh" for i p
  proof -
    obtain sp where sp: "sp \<in> set (ManualRoutes (gen_Config ?g))" "wanted ?g h now (ss_engine s) sp"
      "(i, p) = slot_of (start_of ?g h sp)"
      using f unfolding adm(4) by (auto dest!: in_set_takeD)
    then have l: "Lookup (gen_Pool ?g) h (spec_id sp) = Some p" "i = spec_id sp"
      by (auto simp: slot_of_def start_of_def wanted_def)
    have bh: "built h ?g" using built same_identity_keys(5) [OF id] by simp
    from lookup_manual [OF bh sp(1) l(1)] same_identity_keys(1,2) [OF id] l sp show ?thesis
      by (auto simp: current_ids_def wanted_def)
  qed
  have "keys ?fresh = map spec_id (take (nat (rotation_cap ?g - int (length ?kept)))
      (filter (wanted ?g h now (ss_engine s)) (ManualRoutes (gen_Config ?g))))"
    by (simp add: adm(4) keys_def slot_of_def start_of_def comp_def)
  then have freshkeys: "distinct (keys ?fresh)"
    using ids by (simp add: take_map flip: ) (simp add: distinct_map_filter distinct_take flip: take_map)
  then show "distinct ?fresh" unfolding keys_def distinct_map by (rule conjunct1)
  have "i \<notin> set (keys ?kept)" if "i \<in> set (keys ?fresh)" for i
  proof -
    from that obtain x where "x \<in> set ?fresh" "i = fst x" unfolding keys_def by (metis imageE set_map)
    then have "(i, snd x) \<in> set ?fresh" by simp
    from new [OF this] show ?thesis by (auto simp: kept_slots_def map_of_keys keys_def)
  qed
  moreover have "distinct (keys ?kept)" unfolding kept_slots_def by (rule keys_filter [OF keysa])
  ultimately show "distinct (keys (active e))" using freshkeys by (auto simp: act)
qed

lemma slots_eval:
  assumes ok: "slots_ok s" and run: "\<not> ss_stopped s"
    and ev: "evaluate (ss_loaded s) now (ss_engine s) (ss_heap s) = ((e, h), started)"
  shows "slots_ok (s\<lparr>ss_engine := e, ss_heap := h, ss_running := ss_running s @ map slot_of started\<rparr>)"
    (is "slots_ok ?s")
proof -
  let ?g = "ss_loaded s" let ?a = "active (ss_engine s)" let ?fresh = "map slot_of started"
  have b: "built (ss_heap s) (ss_gen s)" "built (ss_heap s) ?g"
    and keysa: "distinct (keys ?a)" and sub: "set ?a \<subseteq> set (ss_running s)" and dr: "distinct (ss_running s)"
    using ok by (auto simp: slots_ok_def)
  note fr = evaluate_fresh [OF b(2) keysa ev]
  note id = fr(1) and act = fr(2) and new = fr(3) and dk = fr(5)
  have old: "file_key (ss_heap s) p = i" "is_manual (ss_heap s) p"
    "map_of ?a i = Some p \<or> p \<notin> set (entries (gen_Pool ?g))"
    if "(i, p) \<in> set (ss_running s)" for i p
    using slots_procD [OF ok that] run by (simp_all add: proc_ok_def)
  have "(i, p) \<notin> set (ss_running s)" if "(i, p) \<in> set ?fresh" for i p
    using old(3) [of i p] new [OF that] by auto
  then have dr': "distinct (ss_running s @ ?fresh)" using dr fr(4) by auto
  have mfresh: "map_of (active e) i = Some p" if "(i, p) \<in> set ?fresh" for i p
    using map_of_is_SomeI [OF dk [unfolded keys_def], of i p] that by (simp add: act)
  have mold: "map_of (active e) i = Some p \<or> p \<notin> set (entries (gen_Pool ?g))" if r: "(i, p) \<in> set (ss_running s)" for i p
  proof (cases "map_of ?a i = Some p \<and> p \<in> set (entries (gen_Pool ?g))")
    case True
    then have "i \<in> current_ids ?g" using manual_entry_current [OF b(2) _ old(2) [OF r]] old(1) [OF r] by simp
    with True have "map_of (kept_slots ?g (ss_engine s)) i = Some p" by (simp add: kept_slots_def map_of_filter)
    moreover have "(i, p) \<in> set (kept_slots ?g (ss_engine s))" using calculation by (rule map_of_SomeD)
    ultimately show ?thesis using map_of_is_SomeI [OF dk [unfolded keys_def], of i p] by (simp add: act)
  qed (use old(3) [OF r] in blast)
  have procs: "proc_ok ?s i p" if "(i, p) \<in> set (ss_running s @ ?fresh)" for i p
  proof (cases "(i, p) \<in> set ?fresh")
    case True
    moreover have "p < brk (ss_heap s)" using b(2) new [OF True] by (simp add: built_def pool_wf_def)
    ultimately show ?thesis using new [OF True] mfresh [OF True]
      by (simp add: proc_ok_def same_identity_keys [OF id])
  next
    case False
    then have r: "(i, p) \<in> set (ss_running s)" using that by simp
    show ?thesis using slots_procD [OF ok r] mold [OF r] by (simp add: proc_ok_def same_identity_keys [OF id])
  qed
  have "set (active e) \<subseteq> set (ss_running s @ ?fresh)" using sub act by (auto simp: kept_slots_def)
  then show ?thesis
    unfolding slots_ok_def using b dk dr' procs by (simp add: same_identity_keys [OF id])
qed

lemma slots_step: "slot_step s s' \<Longrightarrow> slots_ok s \<Longrightarrow> slots_ok s'"
  by (induction rule: slot_step.induct)
    (auto intro: slots_load slots_eval slots_finish slots_books slots_heap slots_reload slots_shutdown)

lemma slots_reachable: "slot_reachable s \<Longrightarrow> slots_ok s"
  by (induction rule: slot_reachable.induct) (auto intro: slots_start slots_step)

text \<open>Claim C25: slots and procedures agree in every interleaving of evaluations, ending
  procedures, reloads, route changes and shutdown. Every occupied slot belongs to a procedure
  that is running and will free it; no route is ever rotated by two procedures at once, also
  when a reload removes a route and adds it again; and until shutdown every procedure on a route
  of the live pool holds a slot, so the cap on slots is a cap on rotations of live routes.\<close>

theorem slots_agree:
  assumes "slot_reachable s"
  shows "set (active (ss_engine s)) \<subseteq> set (ss_running s) \<and> distinct (map snd (ss_running s)) \<and>
    (\<not> ss_stopped s \<longrightarrow>
      length (filter (\<lambda>x. snd x \<in> set (entries (gen_Pool (ss_gen s)))) (ss_running s))
        \<le> length (active (ss_engine s)))"
proof -
  have ok: "slots_ok s" by (rule slots_reachable [OF assms])
  then have d: "distinct (ss_running s)" and da: "distinct (keys (active (ss_engine s)))"
    and sub: "set (active (ss_engine s)) \<subseteq> set (ss_running s)"
    by (simp_all add: slots_ok_def)
  have key: "file_key (ss_heap s) p = i" if "(i, p) \<in> set (ss_running s)" for i p
    using slots_procD [OF ok that] by (simp add: proc_ok_def)
  have "distinct (map snd (ss_running s))"
    unfolding distinct_map
  proof (intro conjI d inj_onI)
    fix x y assume "x \<in> set (ss_running s)" "y \<in> set (ss_running s)" "snd x = snd y"
    then show "x = y" by (metis key prod.collapse)
  qed
  moreover have "length (filter (\<lambda>x. snd x \<in> set (entries (gen_Pool (ss_gen s)))) (ss_running s))
      \<le> length (active (ss_engine s))" if run: "\<not> ss_stopped s"
  proof (rule distinct_length_le_card)
    show "distinct (filter (\<lambda>x. snd x \<in> set (entries (gen_Pool (ss_gen s)))) (ss_running s))" using d by simp
    show "set (filter (\<lambda>x. snd x \<in> set (entries (gen_Pool (ss_gen s)))) (ss_running s)) \<subseteq> set (active (ss_engine s))"
    proof
      fix x assume "x \<in> set (filter (\<lambda>x. snd x \<in> set (entries (gen_Pool (ss_gen s)))) (ss_running s))"
      then have x: "(fst x, snd x) \<in> set (ss_running s)" "snd x \<in> set (entries (gen_Pool (ss_gen s)))" by auto
      from slots_procD [OF ok x(1)] x(2) run have "map_of (active (ss_engine s)) (fst x) = Some (snd x)"
        by (auto simp: proc_ok_def)
      then show "x \<in> set (active (ss_engine s))" using map_of_SomeD by fastforce
    qed
  qed
  ultimately show ?thesis using sub by blast
qed

definition demo_slots :: slot_sys where
  "demo_slots = \<lparr>ss_heap = mem demo_world, ss_gen = demo_rotating, ss_loaded = demo_rotating,
     ss_engine = new_engine, ss_running = [], ss_stopped = False\<rparr>"

lemma demo_built: "built (mem demo_world) demo_rotating"
  by (simp add: built_def pool_wf_def cfg_ok_def demo_rotating_def NewGeneration_def demo_world_def
      AllRoutes_def demo_config_def route_key_new demo_manual_def demo_spec_route_def)

theorem slots_agree_witness:
  "\<exists>s. slot_reachable s \<and> ss_engine s = fst (fst (evaluate demo_rotating 7 new_engine (mem demo_world))) \<and>
     set (active (ss_engine s)) \<subseteq> set (ss_running s) \<and> distinct (map snd (ss_running s))"
proof -
  obtain e h started where ev: "evaluate demo_rotating 7 new_engine (mem demo_world) = ((e, h), started)"
    by (metis surj_pair)
  let ?s = "demo_slots\<lparr>ss_engine := e, ss_heap := h, ss_running := ss_running demo_slots @ map slot_of started\<rparr>"
  have "slot_reachable demo_slots"
    unfolding demo_slots_def by (rule slot_reachable.start [OF demo_built]) (simp add: new_engine_def)
  moreover have "slot_step demo_slots ?s"
    by (rule slot_step.eval [where now = 7]) (simp_all add: demo_slots_def ev)
  ultimately have r: "slot_reachable ?s" by (rule slot_reachable.step)
  from slots_agree [OF r] r ev show ?thesis by (intro exI [of _ ?s]) simp
qed

end
