(* ===== verification/ConfigInv.thy ===== *)
theory ConfigInv
  imports Bootstrap Scheduler
begin

text \<open>
  What a loaded runtime configuration guarantees to the rest of the program: the well-formedness
  \<open>config_ok\<close> that the pool, the scheduler, the warm pool and the rotation procedures rely on.
\<close>

section \<open>Well-formed configurations\<close>

text \<open>The cap is either a count or a percentage.\<close>

definition cap_form :: "int option \<Rightarrow> int option \<Rightarrow> bool" where
  "cap_form f p \<longleftrightarrow> (\<exists>n. f = Some n \<and> p = None \<and> 1 \<le> n) \<or>
     (\<exists>n. f = None \<and> p = Some n \<and> 1 \<le> n \<and> n \<le> 100)"

definition rotation_ok :: "(string \<Rightarrow> url option) \<Rightarrow> rotation_settings \<Rightarrow> bool" where
  "rotation_ok pu r \<longleftrightarrow>
     0 < DrainTimeout r \<and> 0 < IPCheckInterval r \<and> IPCheckInterval r \<le> IPCheckTimeout r \<and>
     0 < RetryBackoffMax r \<and>
     (\<exists>u. pu (IPCheckURL r) = Some u \<and> Scheme u = ''https'' \<and> Hostname u \<noteq> []) \<and>
     cap_form (MaxConcurrentFixed r) (MaxConcurrentPercent r)"

definition warm_ok :: "warm_settings \<Rightarrow> bool" where
  "warm_ok w \<longleftrightarrow>
     0 \<le> MinIdlePerProxy w \<and> MinIdlePerProxy w \<le> MaxIdlePerProxy w \<and> 1 \<le> MaxIdlePerProxy w \<and>
     MaxIdlePerProxy w \<le> MaxTotalIdle w \<and> 1 \<le> MaxReplenishConcurrency w \<and>
     0 \<le> MaxReplenishPerRoute w \<and> 0 < IdleTTL w"

definition route_ok :: "route_spec \<Rightarrow> bool" where
  "route_ok r \<longleftrightarrow> validateProxyURL (spec_URL r) = None \<and>
     (spec_ID r \<noteq> [] \<longrightarrow> length (spec_ID r) \<le> 128 \<and> list_all id_char (spec_ID r))"

text \<open>No byte that ends a header line, or a method, can be smuggled into a rotate request.\<close>

definition api_ok :: "rotate_api \<Rightarrow> bool" where
  "api_ok a \<longleftrightarrow> 0 < api_Timeout a \<and> validHTTPMethod (api_Method a) \<and> distinct (keys (api_Headers a)) \<and>
     (\<forall>(name, value) \<in> set (api_Headers a). validHeaderFieldName name \<and> CanonicalHeaderKey name = name \<and>
        validHeaderFieldValue value)"

definition manual_ok :: "manual_route_spec \<Rightarrow> bool" where
  "manual_ok s \<longleftrightarrow> 0 < RotateInterval s \<and> api_ok (API s)"

definition router_ids :: "router \<Rightarrow> string set" where
  "router_ids r = (\<Union>c \<in> set (rules r). routes c) \<union> defaults r"

definition policy_ok :: "runtime_config \<Rightarrow> bool" where
  "policy_ok c \<longleftrightarrow>
     distinct (filter (\<lambda>i. i \<noteq> []) (map spec_ID (AllRoutes c))) \<and>
     (case Routing c of
        None \<Rightarrow> True
      | Some r \<Rightarrow> (\<forall>s \<in> set (AllRoutes c). spec_ID s \<noteq> []) \<and>
          router_ids r \<subseteq> spec_ID ` set (AllRoutes c) \<and> (\<forall>k \<in> set (rules r). routes k \<noteq> {}))"

definition config_ok :: "(string \<Rightarrow> url option) \<Rightarrow> runtime_config \<Rightarrow> bool" where
  "config_ok pu c \<longleftrightarrow>
     1 \<le> MaxRetries c \<and> 0 < CooldownBase c \<and> CooldownBase c \<le> CooldownMax c \<and> 0 < DialTimeout c \<and>
     LogLevel c \<in> {''debug'', ''info'', ''warn'', ''error''} \<and> AllRoutes c \<noteq> [] \<and>
     cfg_ok c \<and> list_all route_ok (AllRoutes c) \<and> list_all manual_ok (ManualRoutes c) \<and>
     rotation_ok pu (Rotation c) \<and> warm_ok (WarmPool c) \<and> policy_ok c"

section \<open>The parts\<close>

lemma concurrent_ok:
  assumes "parseMaxConcurrent raw = Inr (f, p)"
  shows "cap_form f p"
proof (cases raw)
  case (YText v)
  then obtain n where "f = None \<and> p = Some n \<and> 1 \<le> n \<and> n \<le> 100"
    using assms by (cases "Atoi (TrimSpace (TrimSuffix (TrimSpace v) ''%''))")
      (auto simp: parseMaxConcurrent_def Let_def not_less split: if_splits, metis)
  then show ?thesis by (simp add: cap_form_def)
qed (use assms in \<open>auto simp: parseMaxConcurrent_def cap_form_def split: if_splits\<close>)

lemma check_url_ok:
  "check_url_errors pu raw = [] \<longleftrightarrow> (\<exists>u. pu raw = Some u \<and> Scheme u = ''https'' \<and> Hostname u \<noteq> [])"
  by (auto simp: check_url_errors_def IsAbs_def split: option.splits)

lemma rotation_parsed: "parseRotationSettings pd pu raw = Inr r \<Longrightarrow> rotation_ok pu r"
  by (auto simp: parseRotationSettings_def and_then_Inr joined_Inr Let_def rotation_ok_def rotation_validate_def
      check_url_ok dest!: concurrent_ok split: prod.splits)

lemma warm_parsed: "parseWarmPoolSettings pd raw = Inr w \<Longrightarrow> warm_ok w"
  by (auto simp: parseWarmPoolSettings_def joined_Inr Let_def warm_ok_def warm_validate_def)

lemma kinded_ok: "kinded pu p k = Inr s \<Longrightarrow> validateProxyURL (spec_URL s) = None \<and> spec_ID s = []"
  by (auto simp: kinded_def parseKindedProxy_def split: sum.splits option.splits)

lemma apply_ok:
  "applyRouteID s raw = Inr s' \<Longrightarrow> validateProxyURL (spec_URL s) = None \<Longrightarrow> spec_ID s = [] \<Longrightarrow>
     route_ok s' \<and> spec_Origin s' = spec_Origin s"
  by (auto simp: applyRouteID_def route_ok_def validateRouteID_def maxRouteIDLength_def
      split: option.splits if_splits)

lemma auto_ok: "parseRouteSpec pu raw = Inr s \<Longrightarrow> route_ok s \<and> spec_Origin s = RouteOriginAuto"
  by (auto simp: parseRouteSpec_def and_then_Inr dest!: kinded_ok apply_ok)

lemma capitalize_length: "length (capitalize b s) = length s"
  by (induction b s rule: capitalize.induct) simp_all

lemma capitalize_idem: "capitalize b (capitalize b s) = capitalize b s"
proof (induction b s rule: capitalize.induct)
  case (2 upper c s)
  let ?c = "if upper then upper_char c else lower_char c"
  have "(?c = CHR ''-'') = (c = CHR ''-'')"
  proof -
    have "ord (CHR ''-'') = 45" by (simp add: ord_def)
    then show ?thesis
      by (auto simp: upper_char_def lower_char_def is_lower_def is_upper_def ord_chr ord_inject [symmetric] ord_less)
  qed
  moreover have "upper_char (upper_char c) = upper_char c"
    by (auto simp: upper_char_def is_lower_def ord_chr)
  ultimately show ?case using 2 by simp
qed simp

lemma case_token: "token_byte c \<Longrightarrow> token_byte (upper_char c) \<and> token_byte (lower_char c)"
  by (auto simp: token_byte_def upper_char_def lower_char_def is_lower_def is_upper_def is_digit_def ord_chr)

lemma capitalize_tokens: "list_all token_byte s \<Longrightarrow> list_all token_byte (capitalize b s)"
  by (induction b s rule: capitalize.induct) (auto simp: case_token)

lemma CanonicalHeaderKey_idem: "CanonicalHeaderKey (CanonicalHeaderKey n) = CanonicalHeaderKey n"
  by (simp add: CanonicalHeaderKey_def capitalize_tokens capitalize_idem)

lemma headers_ok:
  "parse_headers hs acc = Inr hs' \<Longrightarrow> distinct (keys acc) \<Longrightarrow>
     \<forall>(n, w) \<in> set acc. validHeaderFieldName n \<and> CanonicalHeaderKey n = n \<and> validHeaderFieldValue w \<Longrightarrow>
     distinct (keys hs') \<and>
     (\<forall>(n, w) \<in> set hs'. validHeaderFieldName n \<and> CanonicalHeaderKey n = n \<and> validHeaderFieldValue w)"
proof (induction hs acc rule: parse_headers.induct)
  case (2 name v hs acc)
  let ?c = "CanonicalHeaderKey name"
  from 2(2) have ok: "validHeaderFieldName ?c" "validHeaderFieldValue v"
    and rec: "parse_headers hs (AList.update ?c v acc) = Inr hs'"
    by (auto simp: Let_def split: if_splits)
  have "\<forall>(n, w) \<in> set (AList.update ?c v acc).
      validHeaderFieldName n \<and> CanonicalHeaderKey n = n \<and> validHeaderFieldValue w"
    using 2(4) ok CanonicalHeaderKey_idem by (auto dest!: update_mem)
  with 2(1) [OF refl _ _ rec] ok 2(3) show ?case by (simp add: distinct_keys_update)
qed simp

lemma api_parsed: "parseRotateAPI pd pu ru raw = Inr a \<Longrightarrow> api_ok a"
  by (auto simp: parseRotateAPI_def and_then_Inr Let_def api_ok_def override_duration_def second_def
      validHTTPMethod_def is_upper_def ord_def
      dest!: headers_ok split: option.splits if_splits)

lemma manual_parsed:
  "parseManualRouteSpec pd pu ru raw = Inr s \<Longrightarrow>
     manual_ok s \<and> route_ok (RouteSpec s) \<and> spec_Origin (RouteSpec s) = RouteOriginManual"
  by (auto simp: parseManualRouteSpec_def and_then_Inr manual_ok_def
      dest!: kinded_ok apply_ok api_parsed split: if_splits)

lemma parse_list_ok:
  "parse_list name f n xs = Inr ys \<Longrightarrow> (\<And>x y. f x = Inr y \<Longrightarrow> P y) \<Longrightarrow> list_all P ys"
  by (induction name f n xs arbitrary: ys rule: parse_list.induct)
    (auto simp: and_then_Inr split: sum.splits)

lemma duplicates_none:
  "duplicate_routes rs seen = [] \<longleftrightarrow>
     distinct (map (\<lambda>r. CanonicalRouteID (spec_URL r)) rs) \<and>
     set (map (\<lambda>r. CanonicalRouteID (spec_URL r)) rs) \<inter> seen = {}"
  by (induction rs seen rule: duplicate_routes.induct) (auto simp: Let_def)

lemma collect_ids_ok:
  "collect_ids rs seen = Inr all \<Longrightarrow>
     distinct (filter (\<lambda>i. i \<noteq> []) (map (spec_ID \<circ> fst) rs)) \<and>
     all = seen \<union> (spec_ID ` fst ` set rs - {[]}) \<and>
     (\<forall>i \<in> set (map (spec_ID \<circ> fst) rs). i \<noteq> [] \<longrightarrow> i \<notin> seen)"
  by (induction rs seen rule: collect_ids.induct) (auto split: if_splits)

lemma labeled_fst: "map fst (labeledRoutes autos manuals) = autos @ map RouteSpec manuals"
proof -
  have z: "map (\<lambda>x. g (fst x)) (zip xs [0..<length xs]) = map g xs" for g :: "'a \<Rightarrow> 'b" and xs
    by (rule nth_equalityI) simp_all
  show ?thesis
    using z [of "\<lambda>r. r" autos] z [of RouteSpec manuals]
    by (simp add: labeledRoutes_def comp_def case_prod_unfold)
qed

section \<open>The policy\<close>

lemma policy_rules_ok:
  "policy_rules known n rs = Inr rs' \<Longrightarrow> list_all (\<lambda>r. Routes r \<noteq> [] \<and> set (Routes r) \<subseteq> known) rs'"
  by (induction known n rs arbitrary: rs' rule: policy_rules.induct)
    (auto simp: and_then_Inr filter_empty_conv split: if_splits list.splits)

lemma policy_defaults_ok: "policy_defaults known raw = Inr ds \<Longrightarrow> set ds \<subseteq> known"
  by (auto simp: policy_defaults_def filter_empty_conv split: option.splits if_splits list.splits)

lemma check_named_Nil: "check_named rs = [] \<longleftrightarrow> (\<forall>r \<in> set (map fst rs). spec_ID r \<noteq> [])"
  by (induction rs rule: check_named.induct) auto

lemma compiled_ids:
  assumes "Compile sp = Inr r" and "list_all (\<lambda>r. Routes r \<noteq> [] \<and> set (Routes r) \<subseteq> known) (Rules sp)"
    and "set (DefaultRoutes sp) \<subseteq> known"
  shows "router_ids r \<subseteq> known \<and> (\<forall>k \<in> set (rules r). routes k \<noteq> {})"
proof -
  obtain cs where cs: "compile_rules 0 (Rules sp) [] = Inr cs"
    and r: "r = \<lparr>rules = cs, defaults = newSet (DefaultRoutes sp)\<rparr>"
    using assms(1) by (auto simp: Compile_def split: sum.splits)
  from compile_rules_result [OF cs] have all: "list_all2 (\<lambda>r c. \<exists>j. compile_rule j r = Inr c) (Rules sp) cs"
    by auto
  have "routes k \<noteq> {} \<and> routes k \<subseteq> known" if "k \<in> set cs" for k
  proof -
    from that obtain n where n: "n < length cs" "cs ! n = k" unfolding in_set_conv_nth by blast
    then obtain j where "compile_rule j (Rules sp ! n) = Inr k" using all by (auto simp: list_all2_conv_all_nth)
    from compile_rule_result(1) [OF this] have "routes k = set (Routes (Rules sp ! n))" .
    moreover have "n < length (Rules sp)" using all n(1) by (simp add: list_all2_conv_all_nth)
    ultimately show ?thesis using assms(2) by (simp add: list_all_length)
  qed
  then show ?thesis using assms(3) by (auto simp: router_ids_def r newSet_def)
qed

lemma policy_parsed:
  assumes "parseRoutingSettings raw (labeledRoutes autos manuals) = Inr router"
  shows "distinct (filter (\<lambda>i. i \<noteq> []) (map spec_ID (autos @ map RouteSpec manuals))) \<and>
    (case router of
        None \<Rightarrow> raw = None
      | Some r \<Rightarrow> raw \<noteq> None \<and> (\<forall>s \<in> set (autos @ map RouteSpec manuals). spec_ID s \<noteq> []) \<and>
          router_ids r \<subseteq> spec_ID ` set (autos @ map RouteSpec manuals) \<and> (\<forall>k \<in> set (rules r). routes k \<noteq> {}))"
proof -
  let ?rs = "labeledRoutes autos manuals" and ?all = "autos @ map RouteSpec manuals"
  have fst: "map fst ?rs = ?all" "fst ` set ?rs = set ?all" using labeled_fst by (simp, metis list.set_map)
  obtain known where c: "collect_ids ?rs {} = Inr known" using assms by (auto simp: parseRoutingSettings_def and_then_Inr)
  note ci = collect_ids_ok [OF c]
  have d: "distinct (filter (\<lambda>i. i \<noteq> []) (map spec_ID ?all))" using ci by (metis fst(1) map_map)
  have known: "known \<subseteq> spec_ID ` set ?all" using ci fst(2) by auto
  show ?thesis
  proof (cases raw)
    case None
    then have "router = None" using assms c by (simp add: parseRoutingSettings_def)
    with None d show ?thesis by simp
  next
    case (Some rt)
    then obtain rs ds where named: "check_named ?rs = []" and pr: "policy_rules known 0 (rt_Rules rt) = Inr rs"
      and pd: "policy_defaults known (rt_DefaultRoutes rt) = Inr ds"
      and cm': "(case Compile \<lparr>Rules = rs, DefaultRoutes = ds\<rparr> of Inl e \<Rightarrow> Inl [PolicyInvalid e]
                 | Inr r \<Rightarrow> Inr (Some r)) = (Inr router :: router option parsed)"
      using assms c by (simp add: parseRoutingSettings_def and_then_Inr split: list.splits) blast
    from cm' obtain r where cm: "Compile \<lparr>Rules = rs, DefaultRoutes = ds\<rparr> = Inr r" and router: "router = Some r"
      by (cases "Compile \<lparr>Rules = rs, DefaultRoutes = ds\<rparr>") simp_all
    have "router_ids r \<subseteq> known \<and> (\<forall>k \<in> set (rules r). routes k \<noteq> {})"
      using compiled_ids [OF cm] policy_rules_ok [OF pr] policy_defaults_ok [OF pd] by simp
    moreover have "\<forall>s \<in> set ?all. spec_ID s \<noteq> []" using named by (simp only: check_named_Nil fst(1))
    ultimately show ?thesis using d known Some router by auto
  qed
qed

section \<open>Loading\<close>

lemma and_thenE:
  assumes "and_then r f = Inr y"
  obtains x where "r = Inr x" and "f x = Inr y"
  using assms by (auto simp: and_then_Inr)

lemma LoadRuntime_config:
  assumes "LoadRuntime pd pu ru routing_set raw = Inr c"
  shows "config_ok pu c \<and> (Routing c = None \<longleftrightarrow> fc_Routing raw = None \<and> \<not> routing_set)"
proof -
  define doc where "doc = (if fc_Routing raw = None \<and> routing_set
    then raw\<lparr>fc_Routing := Some \<lparr>rt_Rules = [], rt_DefaultRoutes = None\<rparr>\<rparr> else raw)"
  have block: "fc_Routing doc = None \<longleftrightarrow> fc_Routing raw = None \<and> \<not> routing_set" by (auto simp: doc_def)
  have load: "runtimeFromFile pd pu ru doc = Inr c" using assms by (simp add: LoadRuntime_def doc_def)
  obtain rotation warm autos manuals router where
    ro: "parseRotationSettings pd pu (fc_Rotation doc) = Inr rotation" and
    wa: "parseWarmPoolSettings pd (fc_WarmPool doc) = Inr warm" and
    au: "parse_list ''proxies.auto'' (parseRouteSpec pu) 0 (fc_Auto doc) = Inr autos" and
    ma: "parse_list ''proxies.manual'' (parseManualRouteSpec pd pu ru) 0 (fc_Manual doc) = Inr manuals" and
    po: "parseRoutingSettings (fc_Routing doc) (labeledRoutes autos manuals) = Inr router" and
    c: "Routes_auto c = autos \<and> ManualRoutes c = manuals \<and> Rotation c = rotation \<and> WarmPool c = warm \<and>
        Routing c = router \<and> runtime_validate c = []"
    using load unfolding runtimeFromFile_def Let_def split_beta
    by - (elim and_thenE, rule that, assumption+, unfold joined_Inr, elim conjE, hypsubst_thin,
        intro conjI, simp_all only: runtime_config.simps)
  then have v: "runtime_validate c = []" by simp
  have la: "list_all (\<lambda>s. route_ok s \<and> spec_Origin s = RouteOriginAuto) autos"
    by (rule parse_list_ok [OF au]) (rule auto_ok)
  have lm: "list_all (\<lambda>s. manual_ok s \<and> route_ok (RouteSpec s) \<and> spec_Origin (RouteSpec s) = RouteOriginManual) manuals"
    by (rule parse_list_ok [OF ma]) (rule manual_parsed)
  have all: "AllRoutes c = autos @ map RouteSpec manuals" by (simp add: c AllRoutes_def)
  have cfg: "cfg_ok c"
    using v la lm by (auto simp: cfg_ok_def runtime_validate_def duplicates_none all c list_all_iff effectiveOrigin_def)
  have routes: "list_all route_ok (AllRoutes c)" "list_all manual_ok (ManualRoutes c)"
    using la lm by (auto simp: all c list_all_iff)
  have policy: "policy_ok c"
    using policy_parsed [OF po] unfolding policy_ok_def all by (simp add: c split: option.splits)
  have present: "Routing c = None \<longleftrightarrow> fc_Routing doc = None"
    using policy_parsed [OF po] by (simp add: c split: option.splits)
  have scalars: "1 \<le> MaxRetries c" "0 < CooldownBase c" "CooldownBase c \<le> CooldownMax c" "0 < DialTimeout c"
    "LogLevel c \<in> {''debug'', ''info'', ''warn'', ''error''}" "AllRoutes c \<noteq> []"
    using v unfolding runtime_validate_def by (simp_all add: all c) linarith+
  show ?thesis
    unfolding config_ok_def
    using scalars cfg routes policy present block rotation_parsed [OF ro] warm_parsed [OF wa] by (simp add: c)
qed

text \<open>Claim C28: every configuration that loads is well-formed, with all the bounds and
  identities the rest of the program relies on: a retry budget of at least one, an ordered
  positive cooldown range, positive timeouts, a probe interval within its window, a rotation cap
  that is a count or a percentage in range, a check URL that is https with a host, warm bounds
  that fit each other, at least one route, one canonical identity per route over both origins,
  valid SOCKS endpoints and route ids, rotate requests no value of which can break a header line,
  and a policy that is present exactly when a routing block is, naming only configured ids and
  no empty candidate set.\<close>

theorem LoadRuntime_ok:
  assumes "LoadRuntime pd pu ru routing_set raw = Inr c"
  shows "config_ok pu c \<and> (Routing c = None \<longleftrightarrow> fc_Routing raw = None \<and> \<not> routing_set)"
  using LoadRuntime_config [OF assms] .

definition demo_parse :: "string \<Rightarrow> url option" where
  "demo_parse raw = (if raw = ''http://p'' then Some \<lparr>Scheme = ''http'', User = None, url_Host = ''p'', Path = [],
     RawQuery = [], Fragment = []\<rparr> else Some \<lparr>Scheme = ''https'', User = None, url_Host = ''c'', Path = [],
     RawQuery = [], Fragment = []\<rparr>)"

definition demo_file :: file_config where
  "demo_file =
     \<lparr>fc_LogLevel = ''info'', fc_MaxRetries = YInt 3, fc_Cooldown = \<lparr>cf_Base = ''5s'', cf_Max = ''5s''\<rparr>,
      fc_DialTimeout = ''5s'',
      fc_Rotation = \<lparr>rf_MaxConcurrent = YText ''5%'', rf_DrainTimeout = [], rf_RotateOnStart = Some True,
        rf_IPCheckURL = [], rf_IPCheckTimeout = [], rf_IPCheckInterval = [], rf_RetryBackoffMax = ''5s''\<rparr>,
      fc_Auto = [\<lparr>au_ID = Some ''a'', au_Proxy = ''h:1'', au_Kind = ''v4''\<rparr>],
      fc_Manual = [\<lparr>ma_ID = Some ''m'', ma_Proxy = ''h:2:u:p'', ma_Kind = ''v6'', ma_RotateInterval = ''5s'',
        ma_API = \<lparr>af_URL = ''http://p'', af_Method = ''get'', af_Headers = [(''x-key'', ''k'')], af_Body = [],
          af_Timeout = []\<rparr>\<rparr>],
      fc_WarmPool = \<lparr>wf_Enabled = None, wf_MinIdlePerProxy = YAbsent, wf_MaxIdlePerProxy = YInt 3,
        wf_MaxTotalIdle = YAbsent, wf_MaxReplenishConcurrency = YAbsent, wf_MaxReplenishPerRoute = YAbsent,
        wf_IdleTTL = []\<rparr>,
      fc_Routing = Some \<lparr>rt_Rules = [\<lparr>ru_Domains = [''*.b''], ru_Routes = [''m'']\<rparr>], rt_DefaultRoutes = Some [''a'']\<rparr>\<rparr>"

theorem LoadRuntime_ok_witness:
  "\<exists>c. LoadRuntime (\<lambda>_. Some (5 * second)) demo_parse (\<lambda>_. ''http://p'') True demo_file = Inr c \<and>
     config_ok demo_parse c \<and> Routing c \<noteq> None"
proof -
  have "\<not> isl (LoadRuntime (\<lambda>_. Some (5 * second)) demo_parse (\<lambda>_. ''http://p'') True demo_file)" by code_simp
  then obtain c where c: "LoadRuntime (\<lambda>_. Some (5 * second)) demo_parse (\<lambda>_. ''http://p'') True demo_file = Inr c"
    by (auto simp: not_isl_iff)
  from LoadRuntime_ok [OF this] c show ?thesis by (auto simp: demo_file_def)
qed

end
