(* ===== verification/Reload.thy ===== *)
theory Reload
  imports ConfigInv
begin

text \<open>
  How a configuration gets from the file into serving: the poller (internal/config/poll.go), the
  reload of the main loop (cmd/rotation-proxy-gateway/main.go), \<^verbatim>\<open>LoadRuntime\<close> and \<^verbatim>\<open>Publish\<close>, as
  interleaved steps with writers of the file and everything else that works on the routes.

  The YAML decoder, the parsers of the configuration and the digest are the record \<open>file_reader\<close>. The
  file is the text that can be read at an instant, or \<open>None\<close> while it cannot be read.
\<close>

section \<open>Components\<close>

record file_reader =
  decode :: "string \<Rightarrow> (bool \<times> file_config) option"
  read_dur :: "string \<Rightarrow> duration option"
  read_url :: "string \<Rightarrow> url option"
  show_url :: "url \<Rightarrow> string"
  sha :: "string \<Rightarrow> string"

definition load_file :: "file_reader \<Rightarrow> string option \<Rightarrow> runtime_config option" where
  "load_file rd f =
     (case f of
        None \<Rightarrow> None
      | Some doc \<Rightarrow>
          (case decode rd doc of
             None \<Rightarrow> None
           | Some (routing_set, raw) \<Rightarrow>
               (case LoadRuntime (read_dur rd) (read_url rd) (show_url rd) routing_set raw of
                  Inl e \<Rightarrow> None
                | Inr cfg \<Rightarrow> Some cfg)))"

definition hashFile :: "file_reader \<Rightarrow> string option \<Rightarrow> string option" where
  "hashFile rd f = map_option (sha rd) f"

record process =
  config_file :: "string option"
  last_hash :: string
  pending_change :: bool
  serving :: generation
  routes :: heap

text \<open>The zero digest is the baseline of a seed that could not be read.\<close>

definition NewPoller :: "file_reader \<Rightarrow> string option \<Rightarrow> string" where
  "NewPoller rd f = (case hashFile rd f of None \<Rightarrow> replicate 32 (chr 0) | Some digest \<Rightarrow> digest)"

text \<open>One tick of \<^verbatim>\<open>Run\<close>; the channel holds one signal.\<close>

definition poll_tick :: "file_reader \<Rightarrow> process \<Rightarrow> process" where
  "poll_tick rd p =
     (case hashFile rd (config_file p) of
        None \<Rightarrow> p
      | Some digest \<Rightarrow>
          if digest = last_hash p then p else p\<lparr>last_hash := digest, pending_change := True\<rparr>)"

definition reload :: "file_reader \<Rightarrow> process \<Rightarrow> process" where
  "reload rd p =
     (case load_file rd (config_file p) of
        None \<Rightarrow> p
      | Some cfg \<Rightarrow>
          (let (h, g) = Publish cfg (serving p) (routes p) in p\<lparr>serving := g, routes := h\<rparr>))"

definition on_change :: "file_reader \<Rightarrow> process \<Rightarrow> process" where
  "on_change rd p = reload rd (p\<lparr>pending_change := False\<rparr>)"

text \<open>The start of \<^verbatim>\<open>run\<close>: the file is loaded, and hashed later.\<close>

definition boot :: "file_reader \<Rightarrow> runtime_config \<Rightarrow> string option \<Rightarrow> heap \<Rightarrow> process" where
  "boot rd cfg seeded h =
     (let (h, pl) = NewRoutes (AllRoutes cfg) (CooldownBase cfg) (CooldownMax cfg) h
      in \<lparr>config_file = seeded, last_hash = NewPoller rd seeded, pending_change = False,
          serving = NewGeneration cfg pl, routes = h\<rparr>)"

inductive process_reach :: "file_reader \<Rightarrow> process \<Rightarrow> bool" for rd where
  start: "load_file rd f = Some cfg \<Longrightarrow> process_reach rd (boot rd cfg seeded h)"
| write_file: "process_reach rd p \<Longrightarrow> process_reach rd (p\<lparr>config_file := f\<rparr>)"
| tick: "process_reach rd p \<Longrightarrow> process_reach rd (poll_tick rd p)"
| change: "process_reach rd p \<Longrightarrow> pending_change p \<Longrightarrow> process_reach rd (on_change rd p)"
| work: "process_reach rd p \<Longrightarrow> same_identity (routes p) h \<Longrightarrow> process_reach rd (p\<lparr>routes := h\<rparr>)"

section \<open>The generation that serves\<close>

lemma new_entries_built:
  assumes "new_entries rs h = (h', es)"
  shows "brk h \<le> brk h' \<and> (\<forall>q < brk h. cells h' q = cells h q) \<and> (\<forall>p \<in> set es. brk h \<le> p \<and> p < brk h') \<and>
    map (\<lambda>e. route_key (cells h' e)) es = map spec_key rs"
  using assms
proof (induction rs arbitrary: h h' es)
  case (Cons r rs)
  obtain h1 p where a: "alloc (newProxy r 0) h = (h1, p)" by (cases "alloc (newProxy r 0) h") auto
  obtain h2 ps where n: "new_entries rs h1 = (h2, ps)" by (cases "new_entries rs h1") auto
  have es: "h' = h2" "es = p # ps" using Cons.prems a n by (auto simp: Let_def)
  note i = Cons.IH [OF n] and al = alloc_simps [OF a]
  have "cells h2 p = newProxy r 0" using i al by (metis lessI)
  then show ?case using i al es by (auto simp: route_key_new)
qed simp

lemma NewRoutes_built:
  assumes "cfg_ok cfg" and "NewRoutes (AllRoutes cfg) bs mx h = (h', pl)"
  shows "built h' (NewGeneration cfg pl)"
proof -
  obtain h1 es where n: "new_entries (AllRoutes cfg) h = (h1, es)" by (cases "new_entries (AllRoutes cfg) h") auto
  note b = new_entries_built [OF n]
  have pl: "h' = h1\<lparr>brk := brk h1 + 1\<rparr>" "entries pl = es" "pool_id pl = brk h1"
    using assms(2) n by (auto simp: NewRoutes_def Let_def)
  show ?thesis
    using b assms(1) spec_keys_distinct [OF assms(1)]
    by (auto simp: built_def NewGeneration_def pool_wf_def pl)
qed

definition process_ok :: "file_reader \<Rightarrow> process \<Rightarrow> bool" where
  "process_ok rd p \<longleftrightarrow>
     built (routes p) (serving p) \<and> gen_Router (serving p) = Routing (gen_Config (serving p)) \<and>
     (\<exists>doc. load_file rd (Some doc) = Some (gen_Config (serving p)))"

lemma load_file_ok:
  assumes "load_file rd f = Some cfg"
  shows "config_ok (read_url rd) cfg" and "cfg_ok cfg" and "\<exists>doc. f = Some doc"
proof -
  obtain rs raw doc where "LoadRuntime (read_dur rd) (read_url rd) (show_url rd) rs raw = Inr cfg" "f = Some doc"
    using assms by (auto simp: load_file_def split: option.splits sum.splits prod.splits)
  then show "config_ok (read_url rd) cfg" and "\<exists>doc. f = Some doc" using LoadRuntime_config by blast+
  then show "cfg_ok cfg" by (simp add: config_ok_def)
qed

lemma reload_ok:
  assumes "process_ok rd p"
  shows "process_ok rd (reload rd p)"
proof (cases "load_file rd (config_file p)")
  case (Some cfg)
  obtain h g where pub: "Publish cfg (serving p) (routes p) = (h, g)" by (cases "Publish cfg (serving p) (routes p)")
  obtain doc where "config_file p = Some doc" using load_file_ok(3) [OF Some] by blast
  then show ?thesis
    using Publish_built [OF _ load_file_ok(2) [OF Some] pub] assms Some pub
    by (auto simp: process_ok_def reload_def)
qed (use assms in \<open>simp add: reload_def\<close>)

lemma process_reach_ok: "process_reach rd p \<Longrightarrow> process_ok rd p"
proof (induction rule: process_reach.induct)
  case (start f cfg seeded h)
  obtain h' pl where n: "NewRoutes (AllRoutes cfg) (CooldownBase cfg) (CooldownMax cfg) h = (h', pl)"
    by (cases "NewRoutes (AllRoutes cfg) (CooldownBase cfg) (CooldownMax cfg) h")
  then show ?case
    using NewRoutes_built [OF load_file_ok(2) [OF start] n] load_file_ok(3) [OF start] start
    by (auto simp: process_ok_def boot_def NewGeneration_def)
next
  case (tick p)
  then show ?case by (simp add: process_ok_def poll_tick_def split: option.split)
next
  case (change p)
  then show ?case unfolding on_change_def by (intro reload_ok) (simp add: process_ok_def)
next
  case (work p h)
  then show ?case using same_identity_keys(5) [of "routes p" h "serving p"] by (simp add: process_ok_def)
qed (simp add: process_ok_def)

text \<open>Claim C30: whatever is written to the file, and however polling, reloads and the work on the
  routes interleave, the generation that serves is whole: its configuration is one that a content of
  the file loaded to and so has every property of a loaded configuration, its policy is that
  configuration's, and its pool holds exactly one route per configured one, under its identity. A
  content that does not load leaves generation and routes as they are.\<close>

theorem serving_generation_whole:
  assumes "process_reach rd p"
  shows "config_ok (read_url rd) (gen_Config (serving p)) \<and>
    (\<exists>doc. load_file rd (Some doc) = Some (gen_Config (serving p))) \<and>
    gen_Router (serving p) = Routing (gen_Config (serving p)) \<and>
    map (\<lambda>e. route_key (cells (routes p) e)) (entries (gen_Pool (serving p))) =
      map spec_key (AllRoutes (gen_Config (serving p))) \<and>
    distinct (entries (gen_Pool (serving p))) \<and>
    (load_file rd (config_file p) = None \<longrightarrow> on_change rd p = p\<lparr>pending_change := False\<rparr>)"
proof -
  note ok = process_reach_ok [OF assms]
  then have keys: "distinct (map (\<lambda>e. route_key (cells (routes p) e)) (entries (gen_Pool (serving p))))"
    unfolding process_ok_def built_def pool_wf_def by blast
  have "on_change rd p = p\<lparr>pending_change := False\<rparr>" if "load_file rd (config_file p) = None"
    using that by (simp add: on_change_def reload_def)
  moreover have "distinct (entries (gen_Pool (serving p)))" using keys unfolding distinct_map by blast
  ultimately show ?thesis
    using ok load_file_ok(1) by (auto simp: process_ok_def built_def)
qed

definition demo_reader :: file_reader where
  "demo_reader = \<lparr>decode = (\<lambda>doc. if doc = ''x'' then None
       else Some (True, demo_file\<lparr>fc_LogLevel := (if doc = ''b'' then ''debug'' else ''info'')\<rparr>)),
     read_dur = (\<lambda>_. Some (5 * second)), read_url = demo_parse, show_url = (\<lambda>_. ''http://p''), sha = (\<lambda>doc. doc)\<rparr>"

lemma demo_loads:
  "\<exists>cfg. load_file demo_reader (Some ''a'') = Some cfg" "\<exists>cfg. load_file demo_reader (Some ''b'') = Some cfg \<and> LogLevel cfg = ''debug''"
proof -
  have "load_file demo_reader (Some ''a'') \<noteq> None"
    "map_option LogLevel (load_file demo_reader (Some ''b'')) = Some ''debug''" by code_simp+
  then show "\<exists>cfg. load_file demo_reader (Some ''a'') = Some cfg"
    "\<exists>cfg. load_file demo_reader (Some ''b'') = Some cfg \<and> LogLevel cfg = ''debug''" by auto
qed

theorem serving_generation_whole_witness:
  "\<exists>p. process_reach demo_reader p \<and> config_ok demo_parse (gen_Config (serving p)) \<and>
     on_change demo_reader p = p\<lparr>pending_change := False\<rparr>"
proof -
  obtain cfg where "load_file demo_reader (Some ''a'') = Some cfg" using demo_loads by blast
  then have r: "process_reach demo_reader ((boot demo_reader cfg (Some ''a'') h)\<lparr>config_file := Some ''x''\<rparr>)"
    (is "process_reach _ ?p") for h
    by (intro process_reach.write_file process_reach.start)
  have "load_file demo_reader (config_file (boot demo_reader cfg (Some ''a'') h\<lparr>config_file := Some ''x''\<rparr>)) = None" for h
    by (simp add: load_file_def demo_reader_def)
  moreover have "read_url demo_reader = demo_parse" by (simp add: demo_reader_def)
  ultimately show ?thesis using serving_generation_whole [OF r] r by metis
qed

section \<open>Changes\<close>

lemma poll_tick_frame [simp]:
  "config_file (poll_tick rd p) = config_file p" "serving (poll_tick rd p) = serving p"
  "routes (poll_tick rd p) = routes p"
  by (simp_all add: poll_tick_def split: option.split)

lemma reload_frame [simp]:
  "config_file (reload rd p) = config_file p" "last_hash (reload rd p) = last_hash p"
  "pending_change (reload rd p) = pending_change p"
  by (simp_all add: reload_def split: option.split prod.split)

lemma poll_tick_fixed: "config_file p = Some doc \<Longrightarrow> last_hash p = sha rd doc \<Longrightarrow> poll_tick rd p = p"
  by (simp add: poll_tick_def hashFile_def)

lemma poll_tick_seen:
  "config_file p = Some doc \<Longrightarrow> last_hash (poll_tick rd p) = sha rd doc \<and>
     pending_change (poll_tick rd p) = (sha rd doc \<noteq> last_hash p \<or> pending_change p)"
  by (simp add: poll_tick_def hashFile_def)

lemma on_change_unreadable:
  "on_change rd (p\<lparr>config_file := None\<rparr>) = p\<lparr>config_file := None, pending_change := False\<rparr>"
  by (simp add: on_change_def reload_def load_file_def)

lemma reload_serves:
  assumes "process_ok rd p" and "load_file rd (config_file p) = Some cfg"
  shows "gen_Config (serving (reload rd p)) = cfg \<and>
    (\<forall>q < brk (routes p). cells (routes (reload rd p)) q = cells (routes p) q)"
proof -
  obtain pl h where r: "Reconfigure (gen_Pool (serving p)) (AllRoutes cfg) (CooldownBase cfg) (CooldownMax cfg) (routes p) = (h, pl)"
    by (cases "Reconfigure (gen_Pool (serving p)) (AllRoutes cfg) (CooldownBase cfg) (CooldownMax cfg) (routes p)") auto
  have "pool_wf (routes p) (gen_Pool (serving p))" using assms(1) by (simp add: process_ok_def built_def)
  from Reconfigure_spec(2) [OF this spec_keys_distinct [OF load_file_ok(2) [OF assms(2)]] r]
  show ?thesis using assms(2) r by (simp add: reload_def Publish_def NewGeneration_def)
qed

text \<open>Claim C31: a content that differs from the last one seen, or that is still to be handled, is
  served after one tick and one turn of the main loop that find it in the file; no known route loses
  its state by that, and the poller then stays silent. If however the file cannot be read at the
  moment of the reload, the change is lost: when the same content is back nothing signals it, and
  the previous configuration serves on.\<close>

theorem change_applied:
  assumes "process_reach rd p" and "config_file p = Some doc" and "load_file rd (Some doc) = Some cfg"
    and "sha rd doc \<noteq> last_hash p \<or> pending_change p"
  shows "let t = poll_tick rd p; p' = on_change rd t;
      m = (on_change rd (t\<lparr>config_file := None\<rparr>))\<lparr>config_file := Some doc\<rparr> in
    pending_change t \<and> gen_Config (serving p') = cfg \<and> \<not> pending_change p' \<and> poll_tick rd p' = p' \<and>
    (\<forall>q < brk (routes p). cells (routes p') q = cells (routes p) q) \<and>
    process_reach rd m \<and> serving m = serving p \<and> \<not> pending_change m \<and> poll_tick rd m = m"
proof -
  define t where "t = poll_tick rd p"
  have t: "process_reach rd t" "config_file t = Some doc" "serving t = serving p" "routes t = routes p"
    "last_hash t = sha rd doc" "pending_change t"
    using assms poll_tick_seen [OF assms(2), of rd] by (auto simp: t_def intro: process_reach.tick)
  have ok: "process_ok rd (t\<lparr>pending_change := False\<rparr>)"
    using process_reach_ok [OF t(1)] by (simp add: process_ok_def)
  have "process_reach rd (t\<lparr>config_file := None\<rparr>)" using t(1) by (rule process_reach.write_file)
  then have "process_reach rd (on_change rd (t\<lparr>config_file := None\<rparr>))" using t(6) by (simp add: process_reach.change)
  then have "process_reach rd ((on_change rd (t\<lparr>config_file := None\<rparr>))\<lparr>config_file := Some doc\<rparr>)"
    by (rule process_reach.write_file)
  moreover have "poll_tick rd (on_change rd t) = on_change rd t"
    by (rule poll_tick_fixed) (simp_all add: on_change_def t)
  moreover have "poll_tick rd ((on_change rd (t\<lparr>config_file := None\<rparr>))\<lparr>config_file := Some doc\<rparr>) =
      (on_change rd (t\<lparr>config_file := None\<rparr>))\<lparr>config_file := Some doc\<rparr>"
    by (rule poll_tick_fixed) (simp_all add: on_change_unreadable t)
  ultimately show ?thesis
    using reload_serves [OF ok, of cfg] t assms(3)
    by (simp add: t_def [symmetric] Let_def on_change_unreadable) (simp add: on_change_def)
qed

theorem change_applied_witness:
  "\<exists>p. process_reach demo_reader p \<and> LogLevel (gen_Config (serving (on_change demo_reader (poll_tick demo_reader p)))) = ''debug''"
proof -
  obtain cfg where a: "load_file demo_reader (Some ''a'') = Some cfg" using demo_loads by blast
  obtain cfg' where b: "load_file demo_reader (Some ''b'') = Some cfg'" "LogLevel cfg' = ''debug''" using demo_loads by blast
  obtain h :: heap where "True" by simp
  let ?p = "(boot demo_reader cfg (Some ''a'') h)\<lparr>config_file := Some ''b''\<rparr>"
  have r: "process_reach demo_reader ?p" using a by (intro process_reach.write_file process_reach.start)
  have "sha demo_reader ''b'' \<noteq> last_hash ?p"
    by (simp add: boot_def NewPoller_def hashFile_def demo_reader_def split: prod.split)
  then show ?thesis using change_applied [OF r _ b(1)] r b(2) by (auto simp: Let_def)
qed

end
