(* ===== verification/Process.thy ===== *)
theory Process
  imports Reload Lifecycle Serve Warm
begin

text \<open>
  The process around the components (cmd/rotation-proxy-gateway/main.go): its commands, the start of
  \<^verbatim>\<open>run\<close>, the loop over signals, changes and failed listeners, and the admin endpoint it serves
  (\<^verbatim>\<open>AdminMux\<close> of internal/proxyserver/server.go), which the health check probes.
\<close>

section \<open>The admin endpoint\<close>

record listener_status =
  ls_Requests :: u64
  ls_Failovers :: u64

text \<open>The loop over the map of listeners visits them in some order.\<close>

fun status_totals :: "(string \<times> listener_status) list \<Rightarrow> u64 \<times> u64 \<Rightarrow> u64 \<times> u64" where
  "status_totals [] acc = acc"
| "status_totals (l # ls) (requests, fails) =
     status_totals ls (requests + ls_Requests (snd l), fails + ls_Failovers (snd l))"

record admin_status =
  as_version :: string
  as_uptime :: duration
  as_requests :: u64
  as_failovers :: u64
  as_listeners :: "string \<rightharpoonup> listener_status"
  as_pool :: "status list"
  as_rotations :: "u64 option"
  as_ipRevisits :: "u64 option"
  as_warmPool :: "warm_status option"

datatype admin_reply =
    Plain nat "(string \<times> string) list" string
  | Status_JSON admin_status

text \<open>What the endpoint reads when a request arrives; the functions that are nil are \<open>None\<close>.\<close>

record admin_view =
  av_version :: string
  av_started :: instant
  av_listeners :: "(string \<times> listener_status) list"
  av_generation :: generation
  av_heap :: heap
  av_now :: instant
  av_rotations :: "u64 option"
  av_ipRevisits :: "u64 option"
  av_warm :: "warm_status option"
  av_lifecycle :: "lifecycle_state option"

definition status_of :: "admin_view \<Rightarrow> admin_status" where
  "status_of v =
     (let (requests, fails) = status_totals (av_listeners v) (0, 0) in
      \<lparr>as_version = av_version v, as_uptime = quot64 (sat64 (av_now v - av_started v)) second * second,
       as_requests = requests, as_failovers = fails,
       as_listeners = map_of (av_listeners v),
       as_pool = Snapshot (gen_Pool (av_generation v)) (av_now v) (av_heap v),
       as_rotations = av_rotations v, as_ipRevisits = av_ipRevisits v, as_warmPool = av_warm v\<rparr>)"

text \<open>\<open>rest\<close> is what the library's mux answers where no pattern matches. A pattern with the method
  \<^verbatim>\<open>GET\<close> also matches \<^verbatim>\<open>HEAD\<close>; a missing lifecycle counts as ready.\<close>

definition AdminMux :: "(string \<Rightarrow> string \<Rightarrow> admin_reply) \<Rightarrow> admin_view \<Rightarrow> string \<Rightarrow> string \<Rightarrow> admin_reply" where
  "AdminMux rest v meth path =
     (if path = ''/healthz'' \<and> meth \<in> {''GET'', ''HEAD''}
      then Plain 200 [(''Content-Type'', ''text/plain; charset=utf-8'')] (''ok'' @ [chr 10])
      else if path = ''/readyz''
      then (case serveReadyz meth (case av_lifecycle v of None \<Rightarrow> StateReady | Some st \<Rightarrow> st) of
              (code, fs, body) \<Rightarrow> Plain code fs body)
      else if path = ''/status'' \<and> meth \<in> {''GET'', ''HEAD''} then Status_JSON (status_of v)
      else rest meth path)"

section \<open>Commands\<close>

text \<open>The panic of an address that was not validated is \<open>None\<close>.\<close>

definition healthcheckURL :: "string \<Rightarrow> url option" where
  "healthcheckURL addr =
     (case net_SplitHostPort addr of
        Inl _ \<Rightarrow> None
      | Inr (host, port) \<Rightarrow>
          (let host = (if host = [] \<or> host = ''0.0.0.0'' then ''127.0.0.1''
                       else if host = ''::'' then ''::1'' else host) in
           Some \<lparr>Scheme = ''http'', User = None, url_Host = JoinHostPort host port, Path = ''/readyz'',
                 RawQuery = [], Fragment = []\<rparr>))"

text \<open>How a probe ends: no response, a response that breaks off, or a status and a body.\<close>

datatype probe_answer = NoResponse | BrokenBody | Response nat string

definition healthcheck :: "bootstrap_config parsed \<Rightarrow> (url \<Rightarrow> probe_answer) \<Rightarrow> int option" where
  "healthcheck boot_cfg http_Get =
     (case boot_cfg of
        Inl _ \<Rightarrow> Some 1
      | Inr cfg \<Rightarrow>
          (case healthcheckURL (AdminAddr cfg) of
             None \<Rightarrow> None
           | Some u \<Rightarrow>
               (case http_Get u of
                  NoResponse \<Rightarrow> Some 1
                | BrokenBody \<Rightarrow> Some 1
                | Response code answer \<Rightarrow>
                    (let body = take 65536 answer in
                     if code \<noteq> 200 \<or> body \<noteq> ''ok'' @ [chr 10] then Some 1 else Some 0))))"

text \<open>The exit code, from how \<^verbatim>\<open>run\<close> and the health check end.\<close>

fun runArgs :: "string list \<Rightarrow> bool \<Rightarrow> int \<Rightarrow> int" where
  "runArgs [] run_fails check = (if run_fails then 1 else 0)"
| "runArgs (a # _) run_fails check =
     (if a = ''version'' then 0 else if a = ''healthcheck'' then check else 2)"

section \<open>The start\<close>

datatype start_error =
    BootstrapFailed "config_error list"
  | RuntimeFailed
  | ListenerFailed string string
  | AdminFailed string

definition listener_specs :: "bootstrap_config \<Rightarrow> (string \<times> string \<times> egress_kind list) list" where
  "listener_specs b =
     [(''mixed'', MixedListenAddr b, [EgressV4, EgressV6]), (''v4'', V4ListenAddr b, [EgressV4]),
      (''v6'', V6ListenAddr b, [EgressV6])]"

record running_listener =
  rl_name :: string
  rl_addr :: string
  rl_server :: server
  rl_account :: "account option"

text \<open>\<open>bind\<close> is \<^verbatim>\<open>net.Listen\<close>: the error, if any.\<close>

fun open_listeners ::
  "(string \<Rightarrow> string option) \<Rightarrow> account option \<Rightarrow> (string \<times> string \<times> egress_kind list) list \<Rightarrow>
   start_error + running_listener list" where
  "open_listeners bind acct [] = Inr []"
| "open_listeners bind acct ((name, addr, ks) # specs) =
     (if addr = [] then open_listeners bind acct specs
      else (case bind addr of
              Some e \<Rightarrow> Inl (ListenerFailed name e)
            | None \<Rightarrow>
                (case open_listeners bind acct specs of
                   Inl e \<Rightarrow> Inl e
                 | Inr ls \<Rightarrow>
                     Inr (\<lparr>rl_name = name, rl_addr = addr, rl_server = \<lparr>kinds = Some ks, has_warm = True\<rparr>,
                           rl_account = acct\<rparr> # ls))))"

definition run_start ::
  "file_reader \<Rightarrow> bootstrap_config parsed \<Rightarrow> (string \<Rightarrow> string option) \<Rightarrow> (string \<Rightarrow> string option) \<Rightarrow>
   start_error + bootstrap_config \<times> runtime_config \<times> running_listener list" where
  "run_start rd boot_cfg files bind =
     (case boot_cfg of
        Inl es \<Rightarrow> Inl (BootstrapFailed es)
      | Inr b \<Rightarrow>
          (case load_file rd (files (ConfigFile b)) of
             None \<Rightarrow> Inl RuntimeFailed
           | Some cfg \<Rightarrow>
               (case open_listeners bind (Account b) (listener_specs b) of
                  Inl e \<Rightarrow> Inl e
                | Inr ls \<Rightarrow>
                    (case bind (AdminAddr b) of
                       Some e \<Rightarrow> Inl (AdminFailed e)
                     | None \<Rightarrow> Inr (b, cfg, ls)))))"

text \<open>The listeners that are warned about: enabled, without a route of their kind.\<close>

definition warnUnavailableKindListeners :: "runtime_config \<Rightarrow> bootstrap_config \<Rightarrow> string list" where
  "warnUnavailableKindListeners cfg b =
     (let v4 = length (filter (\<lambda>r. spec_Kind r = EgressV4) (AllRoutes cfg));
          v6 = length (filter (\<lambda>r. spec_Kind r = EgressV6) (AllRoutes cfg)) in
      (if V4ListenAddr b \<noteq> [] \<and> v4 = 0 then [''v4''] else []) @
      (if V6ListenAddr b \<noteq> [] \<and> v6 = 0 then [''v6''] else []))"

datatype log_level = DebugLevel | InfoLevel | WarnLevel | ErrorLevel

definition parseZerologLevel :: "string \<Rightarrow> log_level" where
  "parseZerologLevel level =
     (if level = ''debug'' then DebugLevel else if level = ''warn'' then WarnLevel
      else if level = ''error'' then ErrorLevel else InfoLevel)"

section \<open>The main loop\<close>

text \<open>How the accept loop of a listener ends, and what of it reaches the error channel: closing the
  listener is not an error.\<close>

datatype accept_error = ListenerClosed | AcceptFailed string

definition Serve_returns :: "accept_error \<Rightarrow> string option" where
  "Serve_returns e = (case e of ListenerClosed \<Rightarrow> None | AcceptFailed text \<Rightarrow> Some text)"

definition serve_goroutine :: "string \<Rightarrow> accept_error \<Rightarrow> string list \<Rightarrow> string list" where
  "serve_goroutine name e ch =
     (case Serve_returns e of None \<Rightarrow> ch | Some text \<Rightarrow> ch @ [name @ '' listener: '' @ text])"

datatype signal = SIGHUP | SIGINT | SIGTERM

text \<open>\<open>exited\<close> is what \<^verbatim>\<open>run\<close> returned, \<open>Some None\<close> without an error; \<open>received\<close> are the signals the
  loop has taken, the newest first.\<close>

record main_state =
  proc :: process
  level :: log_level
  sigCh :: "signal list"
  errCh :: "string list"
  hupLogged :: bool
  exited :: "string option option"
  seen_signals :: "signal list"

text \<open>The runtime drops a signal that finds the channel full.\<close>

definition notify :: "signal \<Rightarrow> main_state \<Rightarrow> main_state" where
  "notify s m = (if length (sigCh m) < 2 then m\<lparr>sigCh := sigCh m @ [s]\<rparr> else m)"

definition on_signal :: "signal \<Rightarrow> main_state \<Rightarrow> main_state" where
  "on_signal s m =
     (let m = m\<lparr>seen_signals := s # seen_signals m\<rparr> in
      if s = SIGHUP then m\<lparr>hupLogged := True\<rparr> else m\<lparr>exited := Some None\<rparr>)"

definition on_reload :: "file_reader \<Rightarrow> main_state \<Rightarrow> main_state" where
  "on_reload rd m =
     (let p = on_change rd (proc m) in
      m\<lparr>proc := p,
        level := (case load_file rd (config_file (proc m)) of
                    None \<Rightarrow> level m
                  | Some cfg \<Rightarrow> parseZerologLevel (LogLevel cfg))\<rparr>)"

definition main_start :: "file_reader \<Rightarrow> runtime_config \<Rightarrow> string option \<Rightarrow> heap \<Rightarrow> signal list \<Rightarrow> main_state" where
  "main_start rd cfg seeded h early =
     \<lparr>proc = boot rd cfg seeded h, level = parseZerologLevel (LogLevel cfg), sigCh = early, errCh = [],
      hupLogged = False, exited = None, seen_signals = []\<rparr>"

text \<open>The loop takes from whichever channel is ready; around it signals arrive, listeners fail, the file
  is written, the poller ticks and requests work on the routes.\<close>

inductive main_step :: "file_reader \<Rightarrow> main_state \<Rightarrow> main_state \<Rightarrow> bool" for rd where
  take_err: "exited m = None \<Longrightarrow> errCh m = e # es \<Longrightarrow> main_step rd m (m\<lparr>errCh := es, exited := Some (Some e)\<rparr>)"
| take_signal: "exited m = None \<Longrightarrow> sigCh m = s # ss \<Longrightarrow> main_step rd m (on_signal s (m\<lparr>sigCh := ss\<rparr>))"
| take_change: "exited m = None \<Longrightarrow> pending_change (proc m) \<Longrightarrow> main_step rd m (on_reload rd m)"
| env_arrive: "main_step rd m (notify s m)"
| env_fail: "main_step rd m (m\<lparr>errCh := serve_goroutine name e (errCh m)\<rparr>)"
| env_write: "main_step rd m (m\<lparr>proc := (proc m)\<lparr>config_file := f\<rparr>\<rparr>)"
| env_tick: "main_step rd m (m\<lparr>proc := poll_tick rd (proc m)\<rparr>)"
| env_work: "same_identity (routes (proc m)) h \<Longrightarrow> main_step rd m (m\<lparr>proc := (proc m)\<lparr>routes := h\<rparr>\<rparr>)"

inductive_cases main_stepE: "main_step rd m m'"

section \<open>The health check\<close>

lemma split_brackets:
  assumes "net_SplitHostPort a = Inr (h, p)"
  shows "CHR ''['' \<notin> set h" "CHR '']'' \<notin> set h" "CHR '':'' \<notin> set p"
proof -
  obtain before port where lc: "last_colon a = Some (before, port)"
    using assms by (auto simp: net_SplitHostPort_def split: option.splits)
  then have a: "a = before @ CHR '':'' # port" and np: "CHR '':'' \<notin> set port" by (simp_all add: last_colon_Some)
  obtain inside after closed where c: "Cut a CHR '']'' = (inside, after, closed)" by (cases "Cut a CHR '']''")
  have "(CHR ''['' \<notin> set h \<and> CHR '']'' \<notin> set h) \<and> p = port"
  proof (cases "hd a = CHR ''[''")
    case True
    then have h: "closed" "h = tl inside" "CHR ''['' \<notin> set (tl a)" "p = port"
      using assms by (auto simp: net_SplitHostPort_def lc c Let_def split: if_splits)
    then have "a = inside @ CHR '']'' # after" "CHR '']'' \<notin> set inside" using c Cut_found [of a "CHR '']''" inside after] by simp_all
    then show ?thesis using h by (cases inside) auto
  next
    case False
    then have "h = before \<and> p = port \<and> CHR ''['' \<notin> set a \<and> CHR '']'' \<notin> set a"
      using assms by (auto simp: net_SplitHostPort_def lc Let_def split: if_splits)
    then show ?thesis by (simp add: a)
  qed
  then show "CHR ''['' \<notin> set h" "CHR '']'' \<notin> set h" "CHR '':'' \<notin> set p" using np by simp_all
qed

lemma loaded_admin:
  assumes "LoadBootstrap pd env = Inr b"
  shows "\<exists>h p n. net_SplitHostPort (AdminAddr b) = Inr (h, p) \<and> Atoi p = Some n \<and> 1 \<le> n \<and> n \<le> 65535"
proof -
  have "check_listeners [] (listeners_of b) = []"
    using assms by (auto simp: LoadBootstrap_def and_then_Inr joined_Inr Let_def bootstrap_validate_def)
  then have "validateListenAddr ''RPGW_ADMIN_ADDR'' (AdminAddr b) = None"
    by (simp add: listeners_of_def split: option.splits)
  then show ?thesis using valid_address by blast
qed

text \<open>The answer of a process to a probe.\<close>

definition admin_answer :: "(string \<Rightarrow> string \<Rightarrow> admin_reply) \<Rightarrow> admin_view \<Rightarrow> url \<Rightarrow> probe_answer" where
  "admin_answer rest v u =
     (case AdminMux rest v ''GET'' (Path u) of
        Plain code _ body \<Rightarrow> Response code body
      | Status_JSON _ \<Rightarrow> NoResponse)"

lemma loopback_split:
  "net_SplitHostPort a = Inr (h, p) \<Longrightarrow> h' = h \<or> h' = ''127.0.0.1'' \<or> h' = ''::1'' \<Longrightarrow> CHR ''['' \<notin> set p \<Longrightarrow>
     CHR '']'' \<notin> set p \<Longrightarrow> net_SplitHostPort (JoinHostPort h' p) = Inr (h', p)"
  using split_brackets [of a h p] by (intro SplitHostPort_Join) auto

lemma number_no_brackets: "Atoi p = Some n \<Longrightarrow> CHR ''['' \<notin> set p \<and> CHR '']'' \<notin> set p"
proof -
  assume "Atoi p = Some n"
  then have "list_all is_digit (if p \<noteq> [] \<and> (hd p = CHR ''-'' \<or> hd p = CHR ''+'') then tl p else p)"
    by (auto simp: Atoi_def Let_def split: if_splits)
  then show ?thesis by (cases p) (auto simp: list_all_iff is_digit_def ord_def split: if_splits)
qed

lemma probe_ready:
  "case admin_answer rest v \<lparr>Scheme = s, User = us, url_Host = hst, Path = ''/readyz'', RawQuery = q, Fragment = f\<rparr> of
     Response code body \<Rightarrow> (code \<noteq> 200 \<or> take 65536 body \<noteq> ''ok'' @ [chr 10]) \<longleftrightarrow>
       av_lifecycle v \<noteq> None \<and> av_lifecycle v \<noteq> Some StateReady
   | _ \<Rightarrow> False"
  by (auto simp: admin_answer_def AdminMux_def serveReadyz_def Let_def split: option.split)

lemma status_totals_sum:
  "status_totals ls (a, b) = (a + (\<Sum>l\<leftarrow>ls. ls_Requests (snd l)), b + (\<Sum>l\<leftarrow>ls. ls_Failovers (snd l)))"
  by (induction ls arbitrary: a b) (simp_all add: add.assoc)

text \<open>Claim C36: the health check against the process it probes. For every bootstrap that loads the
  probe has a URL, which names the admin address with its port, the loopback address of the same family in place of a
  wildcard (of IPv4 where no family is named). Its exit code is 0 exactly while the process that answers there is ready: not before its
  start is over, not from the instant it drains, whatever else it does. The liveness path meanwhile
  answers 200 in every state, and the status totals are the sums over all listeners, in whatever order
  they are visited. Whatever answers on that port, only status 200 with the exact body passes.\<close>

theorem healthcheck_ready:
  assumes "LoadBootstrap pd env = Inr b"
  shows "(\<exists>u h p h'. healthcheckURL (AdminAddr b) = Some u \<and> net_SplitHostPort (AdminAddr b) = Inr (h, p) \<and>
      net_SplitHostPort (url_Host u) = Inr (h', p) \<and>
      h' = (if isWildcardHost h then if h = ''::'' then ''::1'' else ''127.0.0.1'' else h)) \<and>
    healthcheck (LoadBootstrap pd env) (admin_answer rest v) =
      Some (if av_lifecycle v = None \<or> av_lifecycle v = Some StateReady then 0 else 1) \<and>
    AdminMux rest v ''GET'' ''/healthz'' = Plain 200 [(''Content-Type'', ''text/plain; charset=utf-8'')] (''ok'' @ [chr 10]) \<and>
    (mset ls = mset (av_listeners v) \<longrightarrow>
       as_requests (status_of v) = (\<Sum>l\<leftarrow>ls. ls_Requests (snd l)) \<and>
       as_failovers (status_of v) = (\<Sum>l\<leftarrow>ls. ls_Failovers (snd l))) \<and>
    (healthcheck (LoadBootstrap pd env) get = Some 0 \<longrightarrow>
       (\<exists>u answer. get u = Response 200 answer \<and> take 65536 answer = ''ok'' @ [chr 10]))"
proof -
  obtain h p n where a: "net_SplitHostPort (AdminAddr b) = Inr (h, p)" "Atoi p = Some n" using loaded_admin [OF assms] by blast
  have nb: "CHR ''['' \<notin> set p" "CHR '']'' \<notin> set p" using number_no_brackets [OF a(2)] by simp_all
  let ?h = "if h = [] \<or> h = ''0.0.0.0'' then ''127.0.0.1'' else if h = ''::'' then ''::1'' else h"
  let ?u = "\<lparr>Scheme = ''http'', User = None, url_Host = JoinHostPort ?h p, Path = ''/readyz'', RawQuery = [], Fragment = []\<rparr>"
  have u: "healthcheckURL (AdminAddr b) = Some ?u" by (simp add: healthcheckURL_def a)
  have s: "net_SplitHostPort (JoinHostPort ?h p) = Inr (?h, p)" using nb by (intro loopback_split [OF a(1)]) auto
  have url: "\<exists>u h p h'. healthcheckURL (AdminAddr b) = Some u \<and> net_SplitHostPort (AdminAddr b) = Inr (h, p) \<and>
      net_SplitHostPort (url_Host u) = Inr (h', p) \<and>
      h' = (if isWildcardHost h then if h = ''::'' then ''::1'' else ''127.0.0.1'' else h)"
  proof (intro exI conjI)
    show "net_SplitHostPort (url_Host ?u) = Inr (?h, p)" using s by simp
    show "?h = (if isWildcardHost h then if h = ''::'' then ''::1'' else ''127.0.0.1'' else h)" by (auto simp: isWildcardHost_def)
  qed (fact u a(1))+
  have sums: "as_requests (status_of v) = (\<Sum>l\<leftarrow>ls. ls_Requests (snd l)) \<and>
       as_failovers (status_of v) = (\<Sum>l\<leftarrow>ls. ls_Failovers (snd l))" if "mset ls = mset (av_listeners v)"
    using that by (simp add: status_of_def status_totals_sum mset_map flip: sum_mset_sum_list)
  have check: "healthcheck (LoadBootstrap pd env) g =
      (case g ?u of Response code answer \<Rightarrow>
         Some (if code \<noteq> 200 \<or> take 65536 answer \<noteq> ''ok'' @ [chr 10] then 1 else 0) | _ \<Rightarrow> Some 1)" for g
    by (simp add: healthcheck_def assms u Let_def split: probe_answer.split)
  have ready: "healthcheck (LoadBootstrap pd env) (admin_answer rest v) =
      Some (if av_lifecycle v = None \<or> av_lifecycle v = Some StateReady then 0 else 1)"
    using probe_ready [where rest = rest and v = v and s = "''http''" and us = None
        and hst = "JoinHostPort ?h p" and q = "[]" and f = "[]"]
    unfolding check by (cases "admin_answer rest v ?u") simp_all
  have passes: "\<exists>u answer. get u = Response 200 answer \<and> take 65536 answer = ''ok'' @ [chr 10]"
    if "healthcheck (LoadBootstrap pd env) get = Some 0"
    using that unfolding check by (auto split: probe_answer.splits if_splits)
  show ?thesis using url ready sums passes by (simp add: AdminMux_def)
qed

definition demo_view :: admin_view where
  "demo_view =
     \<lparr>av_version = ''0.1.0'', av_started = 0,
      av_listeners = [(''v4'', \<lparr>ls_Requests = 2, ls_Failovers = 1\<rparr>), (''mixed'', \<lparr>ls_Requests = 3, ls_Failovers = 0\<rparr>)],
      av_generation = demo_gen 3, av_heap = demo_heap 3, av_now = 0, av_rotations = Some 0, av_ipRevisits = Some 0,
      av_warm = None, av_lifecycle = Some StateDraining\<rparr>"

theorem healthcheck_ready_witness:
  "healthcheck (LoadBootstrap (\<lambda>_. None) demo_environment) (admin_answer (\<lambda>_ _. Plain 404 [] []) demo_view) = Some 1 \<and>
   as_requests (status_of demo_view) = 5"
proof -
  have l: "LoadBootstrap (\<lambda>_. None) demo_environment = Inr loaded_bootstrap" by code_simp
  let ?ls = "[(''mixed'', \<lparr>ls_Requests = 3, ls_Failovers = 0\<rparr>), (''v4'', \<lparr>ls_Requests = 2, ls_Failovers = 1\<rparr>)]"
  have "mset ?ls = mset (av_listeners demo_view)" by (simp add: demo_view_def)
  then have "as_requests (status_of demo_view) = (\<Sum>l\<leftarrow>?ls. ls_Requests (snd l))"
    using healthcheck_ready [OF l] by blast
  moreover have "healthcheck (LoadBootstrap (\<lambda>_. None) demo_environment) (admin_answer (\<lambda>_ _. Plain 404 [] []) demo_view) =
      Some (if av_lifecycle demo_view = None \<or> av_lifecycle demo_view = Some StateReady then 0 else 1)"
    using healthcheck_ready [OF l] by blast
  ultimately show ?thesis by (simp add: demo_view_def)
qed

section \<open>What the loop guarantees\<close>

text \<open>The text of the error that a failed proxy listener sends.\<close>

definition listener_error :: "string \<Rightarrow> bool" where
  "listener_error e \<longleftrightarrow> (\<exists>name cause. e = name @ '' listener: '' @ cause)"

definition main_ok :: "file_reader \<Rightarrow> main_state \<Rightarrow> bool" where
  "main_ok rd m \<longleftrightarrow>
     process_reach rd (proc m) \<and> level m = parseZerologLevel (LogLevel (gen_Config (serving (proc m)))) \<and>
     length (sigCh m) \<le> 2 \<and> (\<forall>e \<in> set (errCh m). listener_error e) \<and>
     (\<forall>e. exited m = Some (Some e) \<longrightarrow> listener_error e) \<and> hupLogged m = (SIGHUP \<in> set (seen_signals m)) \<and>
     (if exited m = Some None then SIGINT \<in> set (seen_signals m) \<or> SIGTERM \<in> set (seen_signals m)
      else set (seen_signals m) \<subseteq> {SIGHUP})"

lemma on_change_config:
  assumes "process_reach rd p" and "pending_change p"
  shows "gen_Config (serving (on_change rd p)) =
    (case load_file rd (config_file p) of None \<Rightarrow> gen_Config (serving p) | Some cfg \<Rightarrow> cfg)"
proof (cases "load_file rd (config_file p)")
  case (Some cfg)
  obtain h g where pub: "Publish cfg (serving p) (routes p) = (h, g)" by (cases "Publish cfg (serving p) (routes p)")
  then have "gen_Config g = cfg"
    by (auto simp: Publish_def NewGeneration_def split: prod.splits)
  then show ?thesis using Some pub by (simp add: on_change_def reload_def)
qed (simp add: on_change_def reload_def)

lemma main_step_ok:
  assumes "main_step rd m m'" and ok: "main_ok rd m"
  shows "main_ok rd m'"
  using assms(1)
proof cases
  case (take_signal s ss)
  then show ?thesis using ok by (cases s) (auto simp: main_ok_def on_signal_def Let_def)
next
  case (env_fail name e)
  then show ?thesis using ok
    by (auto simp: main_ok_def serve_goroutine_def listener_error_def split: option.splits)
next
  case take_change
  have pr: "process_reach rd (proc m)" using ok by (simp add: main_ok_def)
  have "process_reach rd (on_change rd (proc m))" by (rule process_reach.change [OF pr take_change(3)])
  then show ?thesis using take_change(1) ok on_change_config [OF pr take_change(3)]
    by (auto simp: main_ok_def on_reload_def Let_def split: option.splits)
next
  case (env_arrive s)
  then show ?thesis using ok by (simp add: main_ok_def notify_def)
next
  case (env_write f)
  then show ?thesis using ok process_reach.write_file [of rd "proc m" f] by (simp add: main_ok_def)
next
  case env_tick
  then show ?thesis using ok process_reach.tick [of rd "proc m"] by (simp add: main_ok_def)
next
  case (env_work h)
  then show ?thesis using ok process_reach.work [of rd "proc m" h] by (simp add: main_ok_def)
qed (use ok in \<open>auto simp: main_ok_def\<close>)

lemma main_steps_ok: "(main_step rd)\<^sup>*\<^sup>* m m' \<Longrightarrow> main_ok rd m \<Longrightarrow> main_ok rd m'"
  by (induction rule: rtranclp_induct) (auto intro: main_step_ok)

lemma main_start_ok:
  assumes "load_file rd f = Some cfg" and "length early \<le> 2"
  shows "main_ok rd (main_start rd cfg seeded h early)"
  using process_reach.start [OF assms(1), of seeded h] assms(2)
  by (simp add: main_ok_def main_start_def boot_def NewGeneration_def split: prod.splits)

text \<open>A stop that waits in the channel is reached by taking the signals before it.\<close>

lemma queued_stop:
  "exited m = None \<Longrightarrow> sigCh m = replicate k SIGHUP @ s # ss \<Longrightarrow> s \<noteq> SIGHUP \<Longrightarrow>
     \<exists>m'. (main_step rd)\<^sup>*\<^sup>* m m' \<and> exited m' = Some None"
proof (induction k arbitrary: m)
  case 0
  then have "main_step rd m (on_signal s (m\<lparr>sigCh := ss\<rparr>))" by (intro main_step.take_signal) simp_all
  then show ?case using 0 by (intro exI conjI r_into_rtranclp) (auto simp: on_signal_def Let_def)
next
  case (Suc k)
  let ?m = "on_signal SIGHUP (m\<lparr>sigCh := replicate k SIGHUP @ s # ss\<rparr>)"
  have "main_step rd m ?m" using Suc.prems by (intro main_step.take_signal) simp_all
  moreover obtain m' where "(main_step rd)\<^sup>*\<^sup>* ?m m'" "exited m' = Some None"
    using Suc.IH [of ?m] Suc.prems by (auto simp: on_signal_def Let_def)
  ultimately show ?case by (meson converse_rtranclp_into_rtranclp)
qed

text \<open>Until a queued stop is taken, the loop takes the hangups before it and nothing else from the
  channel; the stop is neither lost nor overtaken.\<close>

definition stop_pending :: "nat \<Rightarrow> signal \<Rightarrow> signal list \<Rightarrow> main_state \<Rightarrow> bool" where
  "stop_pending k s taken m \<longleftrightarrow>
     (case exited m of
        None \<Rightarrow> (\<exists>j rest. j \<le> k \<and> seen_signals m = replicate j SIGHUP @ taken \<and>
                   sigCh m = replicate (k - j) SIGHUP @ s # rest)
      | Some None \<Rightarrow> seen_signals m = s # replicate k SIGHUP @ taken
      | Some (Some e) \<Rightarrow> (\<exists>j \<le> k. seen_signals m = replicate j SIGHUP @ taken))"

lemma stop_step:
  assumes "main_step rd m m'" and "s \<noteq> SIGHUP" and "stop_pending k s taken m"
  shows "stop_pending k s taken m'"
  using assms(1)
proof cases
  case (take_signal s' ss)
  then obtain j rest where j: "j \<le> k" "seen_signals m = replicate j SIGHUP @ taken"
    "s' # ss = replicate (k - j) SIGHUP @ s # rest" using assms(3) by (auto simp: stop_pending_def)
  show ?thesis
  proof (cases "k - j")
    case 0
    then show ?thesis using take_signal j assms(2) by (simp add: stop_pending_def on_signal_def Let_def)
  next
    case (Suc d)
    then have "s' = SIGHUP" "ss = replicate (k - Suc j) SIGHUP @ s # rest" "Suc j \<le> k" using j(3) by auto
    then show ?thesis using take_signal j(2)
      by (auto simp: stop_pending_def on_signal_def Let_def intro!: exI [of _ "Suc j"])
  qed
next
  case (env_arrive x)
  then show ?thesis using assms(3) by (auto simp: stop_pending_def notify_def split: option.splits)
qed (use assms(3) in \<open>auto simp: stop_pending_def on_reload_def Let_def split: option.splits\<close>)

lemma stop_steps:
  "(main_step rd)\<^sup>*\<^sup>* m m' \<Longrightarrow> s \<noteq> SIGHUP \<Longrightarrow> stop_pending k s taken m \<Longrightarrow> stop_pending k s taken m'"
  by (induction rule: rtranclp_induct) (auto intro: stop_step)

text \<open>Claim C35: the main loop, in every interleaving of signals, changes, failing listeners, writes of
  the file and work on the routes. The process is at each moment one that the reload machine reaches,
  and the global log level is the one of the configuration that serves. The loop ends without an error
  only after an interrupt or a termination signal, and with an error only by a listener that failed;
  until then it has taken nothing but hangups, which it logs once and ignores. A hangup changes neither
  configuration nor routes nor the end. A stop that is queued behind \<open>k\<close> hangups is neither lost nor
  overtaken: in every continuation the loop is still running, has taken at most those \<open>k\<close> hangups
  and has the stop next behind the others, or it has ended by taking exactly them and the stop, or a
  listener error was taken first; and a continuation that takes the stop always exists. Which ready case
  the \<^verbatim>\<open>select\<close> takes is open, so nothing is said of when. A stop finds room whenever at most one
  signal waits.\<close>

theorem main_loop:
  assumes "load_file rd f = Some cfg" and "length early \<le> 2"
    and "(main_step rd)\<^sup>*\<^sup>* (main_start rd cfg seeded h early) m"
  shows "process_reach rd (proc m) \<and> level m = parseZerologLevel (LogLevel (gen_Config (serving (proc m)))) \<and>
    (exited m = Some None \<longrightarrow> SIGINT \<in> set (seen_signals m) \<or> SIGTERM \<in> set (seen_signals m)) \<and>
    (\<forall>e. exited m = Some (Some e) \<longrightarrow> listener_error e) \<and>
    (exited m \<noteq> Some None \<longrightarrow> set (seen_signals m) \<subseteq> {SIGHUP}) \<and>
    hupLogged m = (SIGHUP \<in> set (seen_signals m)) \<and>
    proc (on_signal SIGHUP m) = proc m \<and> exited (on_signal SIGHUP m) = exited m \<and>
    (\<forall>k s ss. exited m = None \<and> s \<noteq> SIGHUP \<and> sigCh m = replicate k SIGHUP @ s # ss \<longrightarrow>
       (\<exists>m'. (main_step rd)\<^sup>*\<^sup>* m m' \<and> exited m' = Some None) \<and>
       (\<forall>m'. (main_step rd)\<^sup>*\<^sup>* m m' \<longrightarrow>
          (case exited m' of
             None \<Rightarrow> (\<exists>j rest. j \<le> k \<and> seen_signals m' = replicate j SIGHUP @ seen_signals m \<and>
                        sigCh m' = replicate (k - j) SIGHUP @ s # rest)
           | Some None \<Rightarrow> seen_signals m' = s # replicate k SIGHUP @ seen_signals m
           | Some (Some e) \<Rightarrow> (\<exists>j \<le> k. seen_signals m' = replicate j SIGHUP @ seen_signals m)))) \<and>
    (length (sigCh m) \<le> 1 \<longrightarrow> SIGTERM \<in> set (sigCh (notify SIGTERM m)))"
proof -
  have ok: "main_ok rd m" by (rule main_steps_ok [OF assms(3) main_start_ok [OF assms(1,2)]])
  have stop: "(\<exists>m'. (main_step rd)\<^sup>*\<^sup>* m m' \<and> exited m' = Some None) \<and>
      (\<forall>m'. (main_step rd)\<^sup>*\<^sup>* m m' \<longrightarrow> stop_pending k s (seen_signals m) m')"
    if "exited m = None" "s \<noteq> SIGHUP" "sigCh m = replicate k SIGHUP @ s # ss" for k s ss
  proof -
    have "stop_pending k s (seen_signals m) m" using that by (auto simp: stop_pending_def intro!: exI [of _ 0])
    then show ?thesis using queued_stop [OF that(1,3,2)] stop_steps [OF _ that(2)] by blast
  qed
  have now: "process_reach rd (proc m) \<and> level m = parseZerologLevel (LogLevel (gen_Config (serving (proc m)))) \<and>
    (exited m = Some None \<longrightarrow> SIGINT \<in> set (seen_signals m) \<or> SIGTERM \<in> set (seen_signals m)) \<and>
    (\<forall>e. exited m = Some (Some e) \<longrightarrow> listener_error e) \<and>
    (exited m \<noteq> Some None \<longrightarrow> set (seen_signals m) \<subseteq> {SIGHUP}) \<and>
    hupLogged m = (SIGHUP \<in> set (seen_signals m)) \<and>
    proc (on_signal SIGHUP m) = proc m \<and> exited (on_signal SIGHUP m) = exited m \<and>
    (length (sigCh m) \<le> 1 \<longrightarrow> SIGTERM \<in> set (sigCh (notify SIGTERM m)))"
    using ok by (auto simp: main_ok_def on_signal_def notify_def Let_def split: if_splits)
  show ?thesis using now stop unfolding stop_pending_def by blast
qed

text \<open>Two hangups that wait displace the stop that follows them.\<close>

lemma stop_displaced: "sigCh m = [SIGHUP, SIGHUP] \<Longrightarrow> notify SIGTERM m = m"
  by (simp add: notify_def)

text \<open>A start with a hangup and a stop queued; both are taken.\<close>

theorem main_loop_witness:
  "\<exists>cfg. \<exists>m :: main_state. load_file demo_reader (Some ''a'') = Some cfg \<and> exited m = Some None \<and> hupLogged m \<and>
     process_reach demo_reader (proc m)"
proof -
  obtain cfg where l: "load_file demo_reader (Some ''a'') = Some cfg" using demo_loads by blast
  let ?m0 = "main_start demo_reader cfg None (demo_heap 0) [SIGHUP, SIGTERM]"
  let ?m1 = "on_signal SIGHUP (?m0\<lparr>sigCh := [SIGTERM]\<rparr>)" let ?m2 = "on_signal SIGTERM (?m1\<lparr>sigCh := []\<rparr>)"
  have "main_step demo_reader ?m0 ?m1" by (rule main_step.take_signal) (simp_all add: main_start_def)
  moreover have "main_step demo_reader ?m1 ?m2"
    by (rule main_step.take_signal) (simp_all add: main_start_def on_signal_def Let_def)
  ultimately have r: "(main_step demo_reader)\<^sup>*\<^sup>* ?m0 ?m2" by auto
  have "process_reach demo_reader (proc ?m2)" using main_loop [OF l _ r] by simp
  moreover have "exited ?m2 = Some None" "hupLogged ?m2" by (simp_all add: on_signal_def Let_def)
  ultimately have "\<exists>m :: main_state. exited m = Some None \<and> hupLogged m \<and> process_reach demo_reader (proc m)"
    by (intro exI [of _ ?m2] conjI)
  then show ?thesis using l by simp
qed

end
