(* ===== verification/Spec2Isabelle.thy ===== *)
theory Spec2Isabelle
  imports WarmInv Connection Shutdown Relay Logging Process
begin

text \<open>
  This library models rotation-proxy-gateway, an HTTP forward proxy that serves three inbound
  listeners over one pool of SOCKS5 routes, keeps the health of the routes, and rotates the egress
  address of the routes that an operator marks manual. All paths below are under src/.

  \<^bold>\<open>The program.\<close> \<^verbatim>\<open>run\<close> (cmd/rotation-proxy-gateway/main.go) loads the process settings and the
  runtime configuration, builds the pool and publishes it with the compiled routing policy as one
  generation, starts the rotation engine, the warm pool and the listeners, and then waits for signals,
  for changes of the file and for listeners that fail. A connection (\<^verbatim>\<open>serveConn\<close>) is framed, parsed,
  authorized and classified; its target selects a candidate set of routes (internal/routing), the pool
  picks one of them (internal/pool), the dialer completes a CONNECT through it (internal/socksdial, with
  a half connection of internal/warmpool where there is one), and the outcome is reported to the pool
  before the tunnel is relayed. A request keeps the generation it loaded; a reload publishes a new one
  whose pool points at the same route cells, so that health survives. The rotation engine
  (internal/rotation) takes a route out of selection, drains it, calls the provider, and commits the
  address it then observes, or records a failure. Routes are therefore shared by requests, rotations,
  reloads and the warm pool: the pool's heap of route cells (\<open>heap\<close>, \<open>pref\<close>) is the state they
  interact through, and every theory that follows one of them lets the others act between its steps.

  \<^bold>\<open>Theories, in the order of their imports.\<close>

  \<^item> GoBase, GoStrings, GoNet: what the program uses of Go: 64-bit durations with their wrap-around and
    saturation, byte strings, \<^verbatim>\<open>strings\<close>, \<^verbatim>\<open>strconv\<close>, \<^verbatim>\<open>net.SplitHostPort\<close>; the list and map lemmas and
    the two collections \<open>inv_simps\<close>, \<open>frame_simps\<close>.
  \<^item> Cooldown: \<^verbatim>\<open>SaturatingCooldown\<close>, \<^verbatim>\<open>BackoffFor\<close>, \<^verbatim>\<open>jitteredBackoff\<close> (pool.go, rotation/backoff.go,
    warmpool.go): monotone, never above the maximum, no overflow.
  \<^item> Identity, Settings: routes and their canonical identity (config/config.go), the configuration records
    (config/runtime.go).
  \<^item> Routing: internal/routing/routing.go: \<^verbatim>\<open>Compile\<close>, \<^verbatim>\<open>Match\<close>, against a specification over labels.
  \<^item> Sanitize: internal/sanitize/sanitize.go: UTF-8, redaction, control sequences, bounds.
  \<^item> Egress: \<^verbatim>\<open>net.ParseIP\<close> and the RFC 5952 text, \<^verbatim>\<open>IPIdentity\<close>, \<^verbatim>\<open>CanonicalIP\<close>, \<^verbatim>\<open>SameIP\<close> (pool.go).
  \<^item> Proxy, Pool: one route (record \<open>proxy\<close>) and the pool, each method of pool/pool.go,
    pool/rotation.go and pool/generation.go as one function; RouteHealth, PoolSelect, PoolReload: the
    invariant of a route, selection against its direct description, reload and commit.
  \<^item> Socks: internal/socksdial: \<^verbatim>\<open>Dial\<close>, \<^verbatim>\<open>DialHalf\<close>, \<^verbatim>\<open>CompleteConnect\<close> over a scripted socket.
  \<^item> Serve: \<^verbatim>\<open>serveTunnel\<close> and \<^verbatim>\<open>dialWarmFirst\<close> (proxyserver/http.go, server.go).
  \<^item> Frame, Http, HttpInv, Connection: the bytes of a connection, \<^verbatim>\<open>serveConn\<close> with its replies, what is
    admitted and refused, the headers that leave, the two response writers.
  \<^item> Relay: \<^verbatim>\<open>relayTunnel\<close> (proxyserver/relay.go), both goroutines as one transition system; fields of
    its state that only record what happened (\<open>heard\<close>, \<open>refusal\<close>, \<open>asked\<close>, \<open>stall\<close>, \<open>first_report\<close>) tie
    the close record to the reads and writes.
  \<^item> Probe, Engine, EngineInv, Rotate, Scheduler: the egress probe and the provider call
    (rotation/probe.go), the procedure and the scheduler (rotation/engine.go), and their interleavings.
  \<^item> Warm, WarmInv: internal/warmpool/warmpool.go, its critical sections and their interleavings.
  \<^item> Config, Bootstrap, ConfigInv: loading (config/runtime.go, routing.go, account.go, config.go) and what
    a loaded configuration guarantees to the other theories.
  \<^item> Reload: poller, change channel, \<^verbatim>\<open>LoadRuntime\<close>, \<^verbatim>\<open>Publish\<close> as steps (config/poll.go, main.go).
  \<^item> Lifecycle, Shutdown: readiness under concurrent compare-and-swaps (proxyserver/lifecycle.go), the
    sessions of a listener and their drain (server.go), the timed actions of \<^verbatim>\<open>shutdownAll\<close> (main.go)
    and the state of readiness, sockets and listeners that they leave at each instant. Instants are
    those at which something becomes ready; scheduling takes no time, and a \<^verbatim>\<open>select\<close> that finds two
    branches ready is decided by the environment.
  \<^item> Logging: the values that log records carry (proxyserver/logging.go).
  \<^item> Process: commands, start, main loop and health check (main.go), the admin endpoint (server.go).

  \<^bold>\<open>Correspondence.\<close> Definitions have the names of the Go functions and methods; a struct is a record with the source's fields (a name that two structs share has a
  prefix), an error is a constructor named after it, a method that mutates returns its receiver. A mutex
  section or an exported method of a route is one step. What runs concurrently is a step relation
  (\<open>slot_step\<close>, \<open>warm_step\<close>, \<open>relay_step\<close>, \<open>srv_step\<close>, \<open>lc_step\<close>, \<open>route_step\<close> and the steps of Reload and
  Process) or, where one thread is followed through a computation, a function of an environment that says
  what all others did at each of its gaps (\<open>others\<close> of \<open>serve_env\<close>, \<open>interfere\<close> of \<open>rotate_env\<close>).

  \<^bold>\<open>What is shown.\<close>

  \<^item> Selection, health, reload: a pick is a live, allowed, untried member, the least recently used
    available one or the soonest to recover; an outcome changes exactly the documented state of one
    route; a refusal of one target leaves the route and its other targets alone, but for the pair that a
    full map evicts; a reload keeps a route exactly when its identity is unchanged.
  \<^item> Requests: which routes are tried and how often, holds returned on every path, the health effect of
    each ending, that a working eligible route within the budget is reached, and that dead warm
    connections make no difference but in time.
  \<^item> Connections: exactly which requests are admitted, which reply every other one gets, credentials byte
    for byte, headers and bytes that go on, and the close record of a tunnel in every interleaving.
  \<^item> Rotation: procedures end and return their route and slot, commit only a changed, verified address or
    record a bounded wait; no two procedures on a route, no two manual routes with one address.
  \<^item> Warm pool: every connection parked, lent or closed exactly once; a lent one belongs to the current
    rotation; the bounds a sweep establishes.
  \<^item> Process: loaded configurations are well-formed, the serving generation is always one loaded
    configuration with its own policy and pool, readiness only moves forward, the drain loses no
    session, and the shutdown is over within its grace and one tail.

  \<^bold>\<open>Interfaces.\<close> \<open>cooldown_curve\<close> (interpreted on \<^verbatim>\<open>SaturatingCooldown\<close>), \<open>canonical_text\<close> (on the egress
  addresses), \<open>route_selector\<close> (on the pick of a pool), \<open>byte_source\<close> (on the buffered reader over a
  socket) and \<open>replier\<close> (on the CONNECT and on the forward replier) state what a client of these parts
  may rely on; the lemmas of a client are proved in the locale and used through the interpretation.

  \<^bold>\<open>Termination and bounds.\<close> No definition has fuel. \<open>drain\<close> ends because each wait advances the clock
  towards a fixed deadline, \<open>attempt_chain\<close> because every attempt uses up the retry budget, the readers
  because they consume input, and the other loops are structural. \<open>verify_loop\<close> is a partial function: it
  needs a positive probe interval, which every loaded configuration has, and
  a claim of Rotate says that a procedure then returns. Durations and the unsigned counters (requests,
  failovers, rotation epochs, recency passes) keep their 64 bits and wrap around; what Go keeps in a
  signed \<^verbatim>\<open>int\<close> and only ever counts up by one per event, or up and down by one (failure and rotation
  streaks, rotation and revisit counts, requests in flight, warm reservations), is an unbounded integer,
  and the byte counts of a tunnel are natural numbers.

  \<^bold>\<open>Parameters.\<close> Functions of libraries are arguments: \<^verbatim>\<open>url.Parse\<close>, \<^verbatim>\<open>URL.String\<close>,
  \<^verbatim>\<open>time.ParseDuration\<close>, \<^verbatim>\<open>http.ReadRequest\<close>, the Unicode part of \<^verbatim>\<open>strings.EqualFold\<close>, the keyed digest
  of the credential check (no law of it is assumed; a claim names its collisions), the digest of the poller, the YAML decoder, the TCP dialer, TLS and
  \<^verbatim>\<open>net/http\<close> as the probe, the provider call and the health check use them, \<^verbatim>\<open>net.Listen\<close>, the mux of the
  admin endpoint outside its three paths, the jitter products, and the order in which Go visits a map.

  \<^bold>\<open>Not modelled.\<close> The emission of log records and the set-up of the logger (internal/logging), JSON
  encoding, usage texts, \<^verbatim>\<open>httputil.ReverseProxy\<close> and \<^verbatim>\<open>http.Transport\<close> beyond the hooks and the dialer the
  program gives them (what the former documents of the clone it hands to \<^verbatim>\<open>Rewrite\<close> is the hypothesis
  \<open>proxy_clone\<close> of a part of one claim), white space beyond ASCII in \<^verbatim>\<open>strings.TrimSpace\<close>, buffer pools, random sources, the wake-up channels and goroutine loops of the warm
  pool and of the engine (their effect is the nondeterminism of the step relations), the bounded wait of
  \<^verbatim>\<open>Stop\<close>, and the interleaving of the single atomic loads inside one exported operation of the pool.

  \<^bold>\<open>Divergences found.\<close> A request whose upstreams refused is answered 503, where the table of statuses
  says 502; a CONNECT is answered 200 OK and counted like an absolute-form request, where the documents
  announce another phrase and count CONNECT only; listeners that overlap under two names of one address
  load; an idle listener may be reported as force-closed when the grace is at most two seconds.
  A failed forward is answered with status 200 and the error response as body,
  and an interim response swallows the final status; a change of the file that
  cannot be read at the reload is lost, and one made before the poller starts is never
  seen; \<^verbatim>\<open>MarkStopped\<close> may have no effect beside a late \<^verbatim>\<open>MarkReady\<close>;
  an upstream that breaks while the request is being written is shown to the client as a clean end
  (\<open>broken_upload_ends_clean\<close>); two early hangups displace a stop signal (\<open>stop_displaced\<close>); a failover
  is counted also when no fallback follows; reservations of earlier sweeps are not
  counted against the bound of idle connections (\<open>sweep_overbooks\<close>).
\<close>

end
